(* ===== verification/Adb_Prelude.thy ===== *)
theory Adb_Prelude
  imports Main "HOL-Library.Word"
begin

text \<open>
  Shared vocabulary of the development: machine types, the faults a C program can run into,
  a bind for fallible steps, C strings and the number formats the sources use
  (\<^verbatim>\<open>%04x\<close>, \<^verbatim>\<open>%d\<close>, \<^verbatim>\<open>strtoul\<close>, \<^verbatim>\<open>strtol\<close>, \<^verbatim>\<open>atoi\<close>), and little-endian 32-bit words.
  Bytes are HOL characters (8 bits), so that payloads and C strings share one type.
\<close>

unbundle bit_operations_syntax

named_theorems cstr "facts about C strings and number formats"
named_theorems wire "facts about byte-level encodings"
named_theorems res "facts about results that may be faults"

section \<open>Types\<close>

type_synonym byte = char
type_synonym bytes = "byte list"
type_synonym u32 = "32 word"
type_synonym u16 = "16 word"
type_synonym addr = nat

text \<open>
  How an execution can leave the normal path: \<open>Fatal\<close> is a call of \<^verbatim>\<open>fatal\<close>,
  \<^verbatim>\<open>fatal_errno\<close> or \<^verbatim>\<open>FATAL\<close>; \<open>Exit\<close> is \<^verbatim>\<open>exit(n)\<close>; the others are undefined
  behaviour of C which the model refuses to continue from; \<open>OutOfFuel\<close> is the bound on the depth of
  callbacks, which the lemmas show is not reached.
\<close>

datatype fault =
    Fatal string
  | Exit int
  | NullDeref
  | UseAfterFree addr
  | BufferOverflow
  | UninitRead
  | SelfDeadlock
  | OutOfFuel

type_synonym 'a res = "fault + 'a"

definition rbind :: "'e + 'a \<Rightarrow> ('a \<Rightarrow> 'e + 'b) \<Rightarrow> 'e + 'b" where
  "rbind m f = (case m of Inl e \<Rightarrow> Inl e | Inr a \<Rightarrow> f a)"

lemma rbind_simps [simp, res]:
  "rbind (Inl e) f = Inl e"
  "rbind (Inr a) f = f a"
  by (simp_all add: rbind_def)

lemma rbind_eq_Inr_iff [res]:
  "rbind m f = Inr b \<longleftrightarrow> (\<exists>a. m = Inr a \<and> f a = Inr b)"
  by (cases m) simp_all

lemma rbind_eq_Inl_iff [res]:
  "rbind m f = Inl e \<longleftrightarrow> m = Inl e \<or> (\<exists>a. m = Inr a \<and> f a = Inl e)"
  by (cases m) simp_all

lemma rbind_cong [fundef_cong]:
  assumes "m = m'" and "\<And>a. m' = Inr a \<Longrightarrow> f a = f' a"
  shows "rbind m f = rbind m' f'"
  using assms by (cases m') simp_all

definition is_ok :: "'e + 'a \<Rightarrow> bool" where
  "is_ok r = (case r of Inl _ \<Rightarrow> False | Inr _ \<Rightarrow> True)"

lemma is_ok_iff [res]: "is_ok r \<longleftrightarrow> (\<exists>a. r = Inr a)"
  by (cases r) (simp_all add: is_ok_def)

lemma is_ok_simps [simp]: "is_ok (Inr a)" "\<not> is_ok (Inl e)"
  by (simp_all add: is_ok_def)

section \<open>C strings\<close>

abbreviation NUL :: char where "NUL \<equiv> CHR 0x00"
abbreviation NL :: char where "NL \<equiv> CHR 0x0A"
abbreviation CR :: char where "CR \<equiv> CHR 0x0D"
abbreviation TAB :: char where "TAB \<equiv> CHR 0x09"
abbreviation DQUOTE :: char where "DQUOTE \<equiv> CHR 0x22"
abbreviation BACKSLASH :: char where "BACKSLASH \<equiv> CHR 0x5C"

text \<open>The C string that starts at the first byte of a buffer: everything before the first NUL.\<close>

definition c_str :: "bytes \<Rightarrow> string" where
  "c_str bs = takeWhile (\<lambda>c. c \<noteq> NUL) bs"

lemma c_str_simps [simp, cstr]:
  "c_str [] = []"
  "c_str (c # cs) = (if c = NUL then [] else c # c_str cs)"
  by (simp_all add: c_str_def)

lemma c_str_id [cstr]: "NUL \<notin> set s \<Longrightarrow> c_str s = s"
  by (induction s) auto

lemma c_str_append_NUL [cstr]: "NUL \<notin> set s \<Longrightarrow> c_str (s @ NUL # bs) = s"
  by (induction s) auto

lemma NUL_notin_c_str [simp, cstr]: "NUL \<notin> set (c_str bs)"
  by (induction bs) auto

lemma length_c_str_le [cstr]: "length (c_str bs) \<le> length bs"
  unfolding c_str_def by (rule length_takeWhile_le)

text \<open>\<^verbatim>\<open>!strncmp(s, lit, strlen(lit))\<close>.\<close>

definition starts_with :: "string \<Rightarrow> string \<Rightarrow> bool" where
  "starts_with lit s \<longleftrightarrow> take (length lit) s = lit"

lemma starts_with_append [simp, cstr]: "starts_with lit (lit @ s)"
  by (simp add: starts_with_def)

lemma starts_with_iff [cstr]: "starts_with lit s \<longleftrightarrow> (\<exists>t. s = lit @ t)"
  by (metis append_eq_conv_conj append_take_drop_id starts_with_def)

lemma starts_with_Nil [simp, cstr]: "starts_with [] s"
  by (simp add: starts_with_def)

lemma starts_with_Cons [simp, cstr]:
  "starts_with (c # cs) s \<longleftrightarrow> (case s of [] \<Rightarrow> False | d # ds \<Rightarrow> d = c \<and> starts_with cs ds)"
  by (cases s) (auto simp: starts_with_def)

text \<open>\<^verbatim>\<open>strchr\<close>: the suffix that starts at the first occurrence.\<close>

definition strchr :: "string \<Rightarrow> char \<Rightarrow> string option" where
  "strchr s c = (case dropWhile (\<lambda>x. x \<noteq> c) s of [] \<Rightarrow> None | r \<Rightarrow> Some r)"

definition before :: "string \<Rightarrow> char \<Rightarrow> string" where
  "before s c = takeWhile (\<lambda>x. x \<noteq> c) s"

lemma strchr_simps [simp, cstr]:
  "strchr [] c = None"
  "strchr (x # xs) c = (if x = c then Some (x # xs) else strchr xs c)"
  by (simp_all add: strchr_def)

lemma strchr_None_iff [cstr]: "strchr s c = None \<longleftrightarrow> c \<notin> set s"
  by (induction s) auto

lemma strchr_SomeD [cstr]: "strchr s c = Some r \<Longrightarrow> \<exists>t. r = c # t \<and> s = before s c @ r"
  unfolding before_def by (induction s) (auto split: if_splits)

lemma strchr_append [cstr]: "c \<notin> set s \<Longrightarrow> strchr (s @ c # t) c = Some (c # t)"
  by (induction s) auto

lemma before_simps [simp, cstr]:
  "before [] c = []"
  "before (x # xs) c = (if x = c then [] else x # before xs c)"
  by (simp_all add: before_def)

lemma before_append [cstr]: "c \<notin> set s \<Longrightarrow> before (s @ c # t) c = s"
  by (induction s) auto

lemma before_notin [cstr]: "c \<notin> set s \<Longrightarrow> before s c = s"
  by (induction s) auto

text \<open>\<^verbatim>\<open>snprintf\<close> into a buffer of \<open>sz > 0\<close> bytes keeps \<open>sz - 1\<close> characters and a NUL.\<close>

definition snprintf :: "nat \<Rightarrow> string \<Rightarrow> string" where
  "snprintf sz s = take (sz - 1) s"

lemma length_snprintf [simp, cstr]: "length (snprintf sz s) = min (length s) (sz - 1)"
  by (simp add: snprintf_def min.commute)

lemma snprintf_fits [cstr]: "length s < sz \<Longrightarrow> snprintf sz s = s"
  by (simp add: snprintf_def)

section \<open>Digits\<close>

definition hex_digit :: "nat \<Rightarrow> char" where
  "hex_digit n = (if n < 10 then char_of (48 + n) else char_of (87 + n))"

text \<open>Value of one digit character in any base up to 36, as \<^verbatim>\<open>strtol\<close> reads it.\<close>

definition digit_val :: "char \<Rightarrow> nat option" where
  "digit_val c = (let n = of_char c :: nat in
     if 48 \<le> n \<and> n \<le> 57 then Some (n - 48)
     else if 97 \<le> n \<and> n \<le> 122 then Some (n - 87)
     else if 65 \<le> n \<and> n \<le> 90 then Some (n - 55)
     else None)"

definition isdigit :: "char \<Rightarrow> bool" where
  "isdigit c = (let n = of_char c :: nat in 48 \<le> n \<and> n \<le> 57)"

lemma of_char_char_of_small: "n < 256 \<Longrightarrow> (of_char (char_of n :: char) :: nat) = n"
  by simp

lemma digit_val_hex_digit [simp, cstr]: "n < 16 \<Longrightarrow> digit_val (hex_digit n) = Some n"
  by (simp add: digit_val_def hex_digit_def Let_def)

lemma isdigit_hex_digit [simp, cstr]: "n < 10 \<Longrightarrow> isdigit (hex_digit n)"
  by (simp add: isdigit_def hex_digit_def Let_def)

fun digits :: "nat \<Rightarrow> nat \<Rightarrow> string" where
  "digits b n = (if b < 2 \<or> n < b then [hex_digit n] else digits b (n div b) @ [hex_digit (n mod b)])"

declare digits.simps [simp del]

definition fmt_04x :: "nat \<Rightarrow> string" where
  "fmt_04x n = (let s = digits 16 n in replicate (4 - length s) (CHR ''0'') @ s)"

definition fmt_02x :: "nat \<Rightarrow> string" where
  "fmt_02x n = (let s = digits 16 n in replicate (2 - length s) (CHR ''0'') @ s)"

definition fmt_08x :: "nat \<Rightarrow> string" where
  "fmt_08x n = (let s = digits 16 n in replicate (8 - length s) (CHR ''0'') @ s)"

definition fmt_d :: "int \<Rightarrow> string" where
  "fmt_d i = (if i < 0 then CHR ''-'' # digits 10 (nat (- i)) else digits 10 (nat i))"

text \<open>Reading digits of a base from the left, as \<^verbatim>\<open>strtol\<close> does, until something else comes.\<close>

fun read_digits :: "nat \<Rightarrow> nat \<Rightarrow> string \<Rightarrow> nat" where
  "read_digits b acc [] = acc"
| "read_digits b acc (c # cs) =
     (case digit_val c of
        Some d \<Rightarrow> if d < b then read_digits b (acc * b + d) cs else acc
      | None \<Rightarrow> acc)"

lemma read_digits_append:
  assumes "\<And>c. c \<in> set s \<Longrightarrow> \<exists>d. digit_val c = Some d \<and> d < b"
  shows "read_digits b acc (s @ t) = read_digits b (read_digits b acc s) t"
  using assms
proof (induction s arbitrary: acc)
  case (Cons c s)
  then obtain d where "digit_val c = Some d" "d < b" by auto
  with Cons show ?case by simp
qed simp

lemma digits_are_digits:
  assumes "2 \<le> b" "b \<le> 16" "c \<in> set (digits b n)"
  shows "\<exists>d. digit_val c = Some d \<and> d < b"
  using assms
proof (induction b n rule: digits.induct)
  case (1 b n)
  show ?case
  proof (cases "b < 2 \<or> n < b")
    case True
    with "1.prems" show ?thesis by (auto simp: digits.simps [of b n])
  next
    case False
    with "1.prems" consider "c \<in> set (digits b (n div b))" | "c = hex_digit (n mod b)"
      by (auto simp: digits.simps [of b n])
    then show ?thesis
    proof cases
      case 1
      with False "1.IH" "1.prems" show ?thesis by blast
    next
      case 2
      have lt: "n mod b < b" using "1.prems" by simp
      then have "n mod b < 16" using "1.prems" by linarith
      then show ?thesis using 2 lt by simp
    qed
  qed
qed

lemma read_digits_digits:
  assumes "2 \<le> b" "b \<le> 16"
  shows "read_digits b 0 (digits b n) = n"
  using assms
proof (induction b n rule: digits.induct)
  case (1 b n)
  show ?case
  proof (cases "b < 2 \<or> n < b")
    case True
    with "1.prems" show ?thesis by (simp add: digits.simps [of b n])
  next
    case False
    have d: "n mod b < b" using "1.prems" by simp
    have d16: "n mod b < 16" using d "1.prems" by linarith
    have ih: "read_digits b 0 (digits b (n div b)) = n div b"
      using "1.IH" False "1.prems" by blast
    have "read_digits b 0 (digits b n)
        = read_digits b (read_digits b 0 (digits b (n div b))) [hex_digit (n mod b)]"
      using False "1.prems" digits_are_digits
      by (subst digits.simps) (simp add: read_digits_append)
    also have "\<dots> = n div b * b + n mod b"
      using d d16 by (simp add: ih)
    finally show ?thesis by simp
  qed
qed

lemma length_digits_pos [simp]: "digits b n \<noteq> []"
  by (subst digits.simps) simp

lemma length_digits_le:
  assumes "2 \<le> b"
  shows "n < b ^ k \<Longrightarrow> 0 < k \<Longrightarrow> length (digits b n) \<le> k"
proof (induction k arbitrary: n)
  case (Suc k)
  show ?case
  proof (cases "n < b")
    case True
    then show ?thesis by (subst digits.simps) simp
  next
    case False
    with Suc.prems have "n < b * b ^ k" by simp
    then have lt: "n div b < b ^ k" using assms by (simp add: less_mult_imp_div_less mult.commute)
    moreover have "0 < k"
      using False lt Suc.prems by (cases k) auto
    ultimately have "length (digits b (n div b)) \<le> k" by (rule Suc.IH)
    with False show ?thesis by (subst digits.simps) simp
  qed
qed simp

lemma length_fmt_04x [simp, cstr]: "n < 65536 \<Longrightarrow> length (fmt_04x n) = 4"
  using length_digits_le [of 16 n 4] by (simp add: fmt_04x_def Let_def)

lemma length_fmt_04x_ge [cstr]: "4 \<le> length (fmt_04x n)"
  by (simp add: fmt_04x_def Let_def)

lemma zero_digit [simp]: "digit_val (CHR ''0'') = Some 0"
  by (simp add: digit_val_def Let_def)

lemma read_digits_zeros: "0 < b \<Longrightarrow> read_digits b 0 (replicate k (CHR ''0'') @ s) = read_digits b 0 s"
  by (induction k) simp_all

lemma read_digits_fmt_04x [cstr]: "read_digits 16 0 (fmt_04x n) = n"
  by (simp add: fmt_04x_def Let_def read_digits_zeros read_digits_digits)

lemma fmt_04x_are_digits [cstr]:
  "c \<in> set (fmt_04x n) \<Longrightarrow> \<exists>d. digit_val c = Some d \<and> d < 16"
  using digits_are_digits [of 16 c n] by (auto simp: fmt_04x_def Let_def)

section \<open>strtoul, strtol, atoi\<close>

definition is_space :: "char \<Rightarrow> bool" where
  "is_space c = (let n = of_char c :: nat in n = 32 \<or> (9 \<le> n \<and> n \<le> 13))"

text \<open>
  \<open>strtol_body base s\<close>: optional white space, optional sign, for base 16 (and base 0) an
  optional \<^verbatim>\<open>0x\<close>, for base 0 the octal prefix, then digits. The result is the mathematical
  value; \<open>strtol\<close> saturates it to the 32-bit \<open>long\<close> of the x86 build, \<open>to_int32\<close> is the
  conversion of an unsigned value to \<open>int\<close>.
\<close>

definition strip_0x :: "string \<Rightarrow> string option" where
  "strip_0x s = (case s of
       c0 # c1 # c2 # r \<Rightarrow>
         if c0 = CHR ''0'' \<and> (c1 = CHR ''x'' \<or> c1 = CHR ''X'')
            \<and> (case digit_val c2 of Some d \<Rightarrow> d < 16 | None \<Rightarrow> False)
         then Some (c2 # r) else None
     | _ \<Rightarrow> None)"

definition unsigned_body :: "nat \<Rightarrow> string \<Rightarrow> nat" where
  "unsigned_body base s =
     (if base = 16 then (case strip_0x s of Some r \<Rightarrow> read_digits 16 0 r | None \<Rightarrow> read_digits 16 0 s)
      else if base = 0 then
        (case strip_0x s of
           Some r \<Rightarrow> read_digits 16 0 r
         | None \<Rightarrow> if starts_with ''0'' s then read_digits 8 0 s else read_digits 10 0 s)
      else read_digits base 0 s)"

definition strtol_body :: "nat \<Rightarrow> string \<Rightarrow> int" where
  "strtol_body base s =
     (let r = dropWhile is_space s in
      if starts_with ''-'' r then - int (unsigned_body base (tl r))
      else if starts_with ''+'' r then int (unsigned_body base (tl r))
      else int (unsigned_body base r))"

definition strtol :: "nat \<Rightarrow> string \<Rightarrow> int" where
  "strtol base s = max (- (2 ^ 31)) (min (2 ^ 31 - 1) (strtol_body base s))"

definition to_int32 :: "int \<Rightarrow> int" where
  "to_int32 i = (i + 2 ^ 31) mod 2 ^ 32 - 2 ^ 31"

definition atoi :: "string \<Rightarrow> int" where
  "atoi s = strtol 10 s"

lemma to_int32_id [cstr]: "- (2 ^ 31) \<le> i \<Longrightarrow> i < 2 ^ 31 \<Longrightarrow> to_int32 i = i"
  by (simp add: to_int32_def)

lemma to_int32_range: "- (2 ^ 31) \<le> to_int32 i \<and> to_int32 i < 2 ^ 31"
  by (simp add: to_int32_def)

text \<open>\<^verbatim>\<open>(unsigned) strtoul(buf, 0, 16)\<close> on a buffer of at most four characters.\<close>

definition strtoul16 :: "string \<Rightarrow> u32" where
  "strtoul16 s = word_of_int (strtol_body 16 s)"

lemma digit_not_special:
  assumes "digit_val c = Some d" "d < 16"
  shows "\<not> is_space c" "c \<noteq> CHR ''-''" "c \<noteq> CHR ''+''" "c \<noteq> CHR ''x''" "c \<noteq> CHR ''X''" "c \<noteq> NUL"
  using assms by (auto simp: digit_val_def is_space_def Let_def split: if_splits)

lemma strtol_body_fmt_04x [cstr]: "strtol_body 16 (fmt_04x n) = int n"
proof -
  have ne: "fmt_04x n \<noteq> []" using length_fmt_04x_ge [of n] by auto
  then obtain c cs where s: "fmt_04x n = c # cs" by (cases "fmt_04x n") auto
  have dig: "\<And>x. x \<in> set (c # cs) \<Longrightarrow> \<exists>d. digit_val x = Some d \<and> d < 16"
    using fmt_04x_are_digits [of _ n] by (simp add: s)
  from dig obtain d where "digit_val c = Some d" "d < 16" by auto
  note c = digit_not_special [OF this]
  have "strip_0x (c # cs) = None"
  proof (cases cs)
    case (Cons c1 r)
    with dig obtain d1 where "digit_val c1 = Some d1" "d1 < 16" by auto
    from digit_not_special [OF this] show ?thesis using Cons by (simp add: strip_0x_def split: list.splits)
  qed (simp add: strip_0x_def)
  with c have "strtol_body 16 (c # cs) = int (read_digits 16 0 (c # cs))"
    by (simp add: strtol_body_def unsigned_body_def Let_def)
  then show ?thesis using read_digits_fmt_04x [of n] by (simp add: s)
qed

lemma strtoul16_fmt_04x [cstr]: "strtoul16 (fmt_04x n) = of_nat n"
  by (simp add: strtoul16_def strtol_body_fmt_04x)

lemma fmt_04x_no_NUL [simp, cstr]: "NUL \<notin> set (fmt_04x n)"
  using fmt_04x_are_digits digit_not_special(6) by blast

section \<open>Little-endian 32-bit words\<close>

definition le32 :: "u32 \<Rightarrow> bytes" where
  "le32 w = (let n = unat w in
     [char_of n, char_of (n div 256), char_of (n div 65536), char_of (n div 16777216)])"

fun un_le32 :: "bytes \<Rightarrow> u32" where
  "un_le32 (a # b # c # d # _) =
     of_nat (of_char a + 256 * of_char b + 65536 * of_char c + 16777216 * of_char d)"
| "un_le32 _ = 0"

lemma length_le32 [simp, wire]: "length (le32 w) = 4"
  by (simp add: le32_def Let_def)

lemma nat_bytes_sum:
  fixes n :: nat
  shows "n mod 256 + 256 * (n div 256 mod 256) + 65536 * (n div 65536 mod 256)
       + 16777216 * (n div 16777216) = n"
proof -
  define a where "a = n div 256"
  define b where "b = a div 256"
  define c where "c = b div 256"
  have div: "n div 65536 = b" "n div 16777216 = c"
    by (simp_all add: a_def b_def c_def div_mult2_eq [symmetric])
  have "b = b mod 256 + 256 * c" "a = a mod 256 + 256 * b" "n = n mod 256 + 256 * a"
    by (simp_all add: a_def b_def c_def)
  then show ?thesis unfolding div a_def [symmetric] by linarith
qed

lemma un_le32_le32 [simp, wire]: "un_le32 (le32 w @ r) = w"
proof -
  have "unat w < 4294967296" using unsigned_less [of w] by simp
  with nat_bytes_sum [of "unat w"] show ?thesis
    by (simp add: le32_def Let_def less_mult_imp_div_less del: of_nat_add of_nat_mult)
qed

lemma of_char_le_255: "(of_char c :: nat) \<le> 255"
proof -
  have "(of_char c :: nat) < 256" by simp
  then show ?thesis by linarith
qed

lemma le32_un_le32 [wire]:
  assumes "4 \<le> length bs"
  shows "le32 (un_le32 bs) = take 4 bs"
proof -
  from assms obtain a b c d r where bs: "bs = a # b # c # d # r"
    by (auto simp: numeral_eq_Suc Suc_le_length_iff)
  define n :: nat where
    "n = of_char a + 256 * of_char b + 65536 * of_char c + 16777216 * of_char d"
  note le = of_char_le_255 [of a] of_char_le_255 [of b] of_char_le_255 [of c] of_char_le_255 [of d]
  have un: "unat (un_le32 bs) = n"
    using le by (simp add: bs n_def unat_of_nat del: of_nat_add of_nat_mult)
  define m2 :: nat where "m2 = of_char c + 256 * of_char d"
  define m1 :: nat where "m1 = of_char b + 256 * m2"
  have n: "n = of_char a + 256 * m1" by (simp add: n_def m1_def m2_def)
  have d1: "n div 256 = m1" using le(1) by (simp add: n)
  have d2: "n div 65536 = m2" using le(2) by (simp add: div_mult2_eq [of n 256 256, simplified] d1 m1_def)
  have d3: "n div 16777216 = of_char d"
    using le(3) by (simp add: div_mult2_eq [of n 65536 256, simplified] d2 m2_def)
  have "n mod 256 = of_char a" using le(1) unfolding n by simp
  moreover have "n div 256 mod 256 = of_char b" using le(2) unfolding d1 m1_def by simp
  moreover have "n div 65536 mod 256 = of_char c" using le(3) unfolding d2 m2_def by simp
  moreover have "n div 16777216 mod 256 = of_char d" using le(4) unfolding d3 by simp
  ultimately have "char_of n = a" "char_of (n div 256) = b" "char_of (n div 65536) = c"
    "char_of (n div 16777216) = d"
    by (metis char_of_mod_256 char_of_char)+
  then show ?thesis by (simp add: le32_def un Let_def) (simp add: bs)
qed

text \<open>Byte sums as the sources compute them: 32-bit wrap-around addition over \<^verbatim>\<open>unsigned char\<close>s.\<close>

fun byte_sum :: "bytes \<Rightarrow> u32" where
  "byte_sum [] = 0"
| "byte_sum (c # cs) = of_nat (of_char c) + byte_sum cs"

lemma byte_sum_append [wire]: "byte_sum (xs @ ys) = byte_sum xs + byte_sum ys"
  by (induction xs) simp_all

lemma byte_sum_bound: "length bs \<le> 65536 \<Longrightarrow> unat (byte_sum bs) = sum_list (map of_char bs)"
proof (induction bs)
  case (Cons c cs)
  have c: "(of_char c :: nat) \<le> 255" by (rule of_char_le_255)
  have bnd: "sum_list (map of_char xs) \<le> 255 * length xs" for xs :: bytes
  proof (induction xs)
    case (Cons x xs)
    have "(of_char x :: nat) \<le> 255" by (rule of_char_le_255)
    with Cons show ?case by simp
  qed simp
  have "of_char c + sum_list (map of_char cs) \<le> (255 * 65536 :: nat)"
    using bnd [of "c # cs"] Cons.prems by simp
  then have lt: "of_char c + sum_list (map of_char cs) < (2::nat) ^ 32" by simp
  have ih: "unat (byte_sum cs) = sum_list (map of_char cs)" using Cons by simp
  have "unat (of_nat (of_char c) :: u32) = of_char c"
    using c by (simp add: unat_of_nat)
  then show ?case
    using lt ih by (simp add: unat_word_ariths)
qed simp

end
