(* ===== verification/Intrusive_List.thy ===== *)
theory Intrusive_List
  imports Adb_Prelude
begin

text \<open>
  The circular doubly linked lists that the sources thread through their structs (\<^verbatim>\<open>next\<close> and
  \<^verbatim>\<open>prev\<close> fields with a static list head): the pending list of fdevent.c, the socket lists of
  sockets.c, the disconnect and transport lists of transport.c, the listener list of adb.c and the
  handle list of usb_linux.c. The pointer updates are modelled statement by statement over a
  store of two link fields; \<open>ring\<close> relates such a store to a HOL list, and the lemmas say that
  the C routines implement append, delete and take-first. The other theories use the lists.
\<close>

section \<open>The store\<close>

record links =
  nxt :: "addr \<Rightarrow> addr"
  prv :: "addr \<Rightarrow> addr"

definition set_nxt :: "addr \<Rightarrow> addr \<Rightarrow> links \<Rightarrow> links" where
  "set_nxt a v L = L\<lparr>nxt := (nxt L)(a := v)\<rparr>"

definition set_prv :: "addr \<Rightarrow> addr \<Rightarrow> links \<Rightarrow> links" where
  "set_prv a v L = L\<lparr>prv := (prv L)(a := v)\<rparr>"

lemma links_upd_simps [simp]:
  "nxt (set_nxt a v L) = (nxt L)(a := v)" "prv (set_nxt a v L) = prv L"
  "prv (set_prv a v L) = (prv L)(a := v)" "nxt (set_prv a v L) = nxt L"
  by (simp_all add: set_nxt_def set_prv_def)

section \<open>The routines of the sources\<close>

text \<open>fdevent.c: \<open>h\<close> is \<^verbatim>\<open>&list_pending\<close>, the null pointer is 0.\<close>

definition fdevent_plist_enqueue_ptr :: "addr \<Rightarrow> addr \<Rightarrow> links \<Rightarrow> links" where
  "fdevent_plist_enqueue_ptr h node L =
     (let L1 = set_nxt node h L;
          L2 = set_prv node (prv L1 h) L1;
          L3 = set_nxt (prv L2 node) node L2
      in set_prv h node L3)"

definition fdevent_plist_remove_ptr :: "addr \<Rightarrow> links \<Rightarrow> links" where
  "fdevent_plist_remove_ptr node L =
     (let L1 = set_nxt (prv L node) (nxt L node) L;
          L2 = set_prv (nxt L1 node) (prv L1 node) L1
      in set_prv node 0 (set_nxt node 0 L2))"

definition fdevent_plist_dequeue_ptr :: "addr \<Rightarrow> links \<Rightarrow> addr option \<times> links" where
  "fdevent_plist_dequeue_ptr h L =
     (let node = nxt L h in
      if node = h then (None, L)
      else let L1 = set_nxt h (nxt L node) L;
               L2 = set_prv (nxt L1 h) h L1
           in (Some node, set_prv node 0 (set_nxt node 0 L2)))"

text \<open>sockets.c.\<close>

definition insert_local_socket_ptr :: "addr \<Rightarrow> addr \<Rightarrow> links \<Rightarrow> links" where
  "insert_local_socket_ptr lst s L =
     (let L1 = set_nxt s lst L;
          L2 = set_prv s (prv L1 (nxt L1 s)) L1;
          L3 = set_nxt (prv L2 s) s L2
      in set_prv (nxt L3 s) s L3)"

definition remove_socket_ptr :: "addr \<Rightarrow> links \<Rightarrow> links" where
  "remove_socket_ptr s L =
     (if prv L s \<noteq> 0 \<and> nxt L s \<noteq> 0 then
        let L1 = set_nxt (prv L s) (nxt L s) L;
            L2 = set_prv (nxt L1 s) (prv L1 s) L1
        in set_prv s 0 (set_nxt s 0 L2)
      else L)"

text \<open>transport.c; \<open>h\<close> is \<^verbatim>\<open>&t->disconnects\<close>.\<close>

definition add_transport_disconnect_ptr :: "addr \<Rightarrow> addr \<Rightarrow> links \<Rightarrow> links" where
  "add_transport_disconnect_ptr h dis L =
     (let L1 = set_nxt dis h L;
          L2 = set_prv dis (prv L1 (nxt L1 dis)) L1;
          L3 = set_nxt (prv L2 dis) dis L2
      in set_prv (nxt L3 dis) dis L3)"

definition remove_transport_disconnect_ptr :: "addr \<Rightarrow> links \<Rightarrow> links" where
  "remove_transport_disconnect_ptr dis L =
     (let L1 = set_nxt (prv L dis) (nxt L dis) L;
          L2 = set_prv (nxt L1 dis) (prv L1 dis) L1
      in set_nxt dis dis (set_prv dis dis L2))"

text \<open>
  The loop \<^verbatim>\<open>for (x = head.next; x != &head; x = x->next)\<close>: the nodes it visits, in order, within
  a number of iterations.
\<close>

fun visit_from :: "nat \<Rightarrow> addr \<Rightarrow> addr \<Rightarrow> links \<Rightarrow> addr list option" where
  "visit_from 0 h x L = None"
| "visit_from (Suc fuel) h x L =
     (if x = h then Some [] else map_option ((#) x) (visit_from fuel h (nxt L x) L))"

section \<open>Rings\<close>

fun chain :: "links \<Rightarrow> addr \<Rightarrow> addr list \<Rightarrow> addr \<Rightarrow> bool" where
  "chain L a [] b \<longleftrightarrow> nxt L a = b \<and> prv L b = a"
| "chain L a (x # xs) b \<longleftrightarrow> nxt L a = x \<and> prv L x = a \<and> chain L x xs b"

definition ring :: "links \<Rightarrow> addr \<Rightarrow> addr list \<Rightarrow> bool" where
  "ring L h xs \<longleftrightarrow> distinct (h # xs) \<and> 0 \<notin> set (h # xs) \<and> chain L h xs h"

lemma chain_append: "chain L a (xs @ y # ys) b \<longleftrightarrow> chain L a xs y \<and> chain L y ys b"
  by (induction xs arbitrary: a) auto

lemma chain_frame:
  assumes "\<And>x. x \<in> set (a # xs) \<Longrightarrow> nxt M x = nxt L x"
    and "\<And>x. x \<in> set (xs @ [b]) \<Longrightarrow> prv M x = prv L x"
  shows "chain M a xs b \<longleftrightarrow> chain L a xs b"
  using assms by (induction xs arbitrary: a) auto

lemma chain_last: "chain L a xs b \<Longrightarrow> nxt L (last (a # xs)) = b \<and> prv L b = last (a # xs)"
  by (induction xs arbitrary: a) auto

lemma ringD_last: "ring L h xs \<Longrightarrow> prv L h = last (h # xs) \<and> nxt L (last (h # xs)) = h"
  unfolding ring_def using chain_last by blast

lemma ring_append:
  assumes r: "ring L h xs" and n: "n \<notin> set (h # xs)" "n \<noteq> 0"
    and nx: "nxt M = (nxt L)(n := h, last (h # xs) := n)"
    and pv: "prv M = (prv L)(n := last (h # xs), h := n)"
  shows "ring M h (xs @ [n])"
proof -
  from r have d: "distinct (h # xs)" "0 \<notin> set (h # xs)" and c: "chain L h xs h"
    by (simp_all add: ring_def)
  have "chain M h xs n"
  proof (cases xs rule: rev_cases)
    case Nil
    then show ?thesis using n nx pv by simp
  next
    case (snoc ys z)
    have "chain L h ys z" using c by (simp add: snoc chain_append)
    then have "chain M h ys z"
      using d n by (subst chain_frame [of _ _ _ L]) (auto simp: nx pv snoc)
    then show ?thesis using n d by (simp add: snoc chain_append nx pv)
  qed
  moreover have "last (h # xs) \<in> set (h # xs)" by (rule last_in_set) simp
  then have "last (h # xs) \<noteq> n" using n by blast
  ultimately have "chain M h (xs @ [n]) h"
    using n by (auto simp: chain_append nx pv)
  with d n show ?thesis by (auto simp: ring_def)
qed

lemma ring_delete:
  assumes r: "ring L h (xs @ n # ys)"
    and nx: "\<And>x. x \<noteq> n \<Longrightarrow> nxt M x = ((nxt L)(last (h # xs) := hd (ys @ [h]))) x"
    and pv: "\<And>x. x \<noteq> n \<Longrightarrow> prv M x = ((prv L)(hd (ys @ [h]) := last (h # xs))) x"
  shows "ring M h (xs @ ys)"
proof -
  from r have d: "distinct (h # xs @ n # ys)" "0 \<notin> set (h # xs @ n # ys)"
    and c1: "chain L h xs n" and c2: "chain L n ys h"
    by (simp_all add: ring_def chain_append)
  have hd_ne: "hd (ys @ [h]) \<noteq> n" using d by (cases ys) auto
  have last_in: "last (h # xs) \<in> set (h # xs)" by (rule last_in_set) simp
  then have last_ne: "last (h # xs) \<noteq> n" using d by (auto split: if_splits)
  have left: "chain M h xs y" if "y = hd (ys @ [h])" for y
  proof (cases xs rule: rev_cases)
    case Nil
    then show ?thesis using that nx pv hd_ne last_ne by simp
  next
    case (snoc zs z)
    have yy: "y \<notin> set (zs @ [z])" "y \<noteq> n" using d that snoc by (cases ys; auto)+
    have "chain L h zs z" using c1 by (simp add: snoc chain_append)
    moreover have "nxt M x = nxt L x" if "x \<in> set (h # zs)" for x
      using that d by (subst nx) (auto simp: snoc)
    moreover have "prv M x = prv L x" if "x \<in> set (zs @ [z])" for x
      using that d yy \<open>y = hd (ys @ [h])\<close> by (subst pv) (auto simp: snoc)
    ultimately have "chain M h zs z"
      using chain_frame [of h zs M L z] by blast
    moreover have "nxt M z = y" "prv M y = z"
      using that d yy by (auto simp: nx pv snoc)
    ultimately show ?thesis by (simp add: snoc chain_append)
  qed
  have "chain M h (xs @ ys) h"
  proof (cases ys)
    case Nil
    with left show ?thesis by simp
  next
    case (Cons y zs)
    have "set (h # xs) \<inter> set (y # zs) = {}" using d Cons by auto
    then have "last (h # xs) \<notin> set (y # zs)" using last_in by blast
    then have "nxt M x = nxt L x" if "x \<in> set (y # zs)" for x
      using that d by (subst nx) (auto simp: Cons simp del: last.simps)
    moreover have "prv M x = prv L x" if "x \<in> set (zs @ [h])" for x
      using that d by (subst pv) (auto simp: Cons)
    moreover have "chain L y zs h" using c2 by (simp add: Cons)
    ultimately have "chain M y zs h"
      using chain_frame [of y zs M L h] by blast
    with left [of y] show ?thesis by (simp add: Cons chain_append)
  qed
  with d show ?thesis by (auto simp: ring_def)
qed

lemma ring_neighbours:
  assumes "ring L h (xs @ n # ys)"
  shows "prv L n = last (h # xs)" "nxt L n = hd (ys @ [h])"
proof -
  from assms have "chain L h xs n" "chain L n ys h" by (simp_all add: ring_def chain_append)
  from chain_last [OF this(1)] show "prv L n = last (h # xs)" by blast
  from \<open>chain L n ys h\<close> show "nxt L n = hd (ys @ [h])" by (cases ys) simp_all
qed

lemma ring_neighbours_ne:
  assumes "ring L h (xs @ n # ys)"
  shows "last (h # xs) \<noteq> n" "hd (ys @ [h]) \<noteq> n" "last (h # xs) \<noteq> 0" "hd (ys @ [h]) \<noteq> 0"
proof -
  have "last (h # xs) \<in> set (h # xs)" by (rule last_in_set) simp
  moreover have "hd (ys @ [h]) \<in> set (h # ys)" by (cases ys) auto
  moreover have "n \<notin> set (h # xs)" "n \<notin> set (h # ys)" "0 \<notin> set (h # xs)" "0 \<notin> set (h # ys)"
    using assms by (auto simp: ring_def)
  ultimately show "last (h # xs) \<noteq> n" "hd (ys @ [h]) \<noteq> n" "last (h # xs) \<noteq> 0" "hd (ys @ [h]) \<noteq> 0"
    by metis+
qed

lemma visit_ring:
  assumes "chain L a xs h" "h \<notin> set xs" "length xs < fuel"
  shows "visit_from fuel h (nxt L a) L = Some xs"
  using assms
proof (induction xs arbitrary: a fuel)
  case Nil
  then show ?case by (cases fuel) auto
next
  case (Cons x xs)
  then obtain f where f: "fuel = Suc f" "length xs < f" by (cases fuel) auto
  with Cons show ?case by simp
qed

section \<open>The contract, and the clients it serves\<close>

text \<open>
  Three pairs of routines implement the same list: they insert at the tail (before the head node)
  and delete a given node. The laws are stated once; what a client may conclude is proved from them.
\<close>

locale ring_ops =
  fixes ins :: "addr \<Rightarrow> addr \<Rightarrow> links \<Rightarrow> links"
    and del :: "addr \<Rightarrow> links \<Rightarrow> links"
  assumes ins_ring: "ring L h xs \<Longrightarrow> n \<notin> set (h # xs) \<Longrightarrow> n \<noteq> 0 \<Longrightarrow> ring (ins h n L) h (xs @ [n])"
    and del_ring: "ring L h (xs @ n # ys) \<Longrightarrow> ring (del n L) h (xs @ ys)"
begin

lemma del_remove1:
  assumes "ring L h xs" "n \<in> set xs"
  shows "ring (del n L) h (remove1 n xs)"
proof -
  from assms(2) obtain ys zs where s: "xs = ys @ n # zs" "n \<notin> set ys"
    by (meson split_list_first)
  with assms(1) del_ring show ?thesis by (simp add: remove1_append)
qed

lemma ins_del_id:
  assumes "ring L h xs" "n \<notin> set (h # xs)" "n \<noteq> 0"
  shows "ring (del n (ins h n L)) h xs"
proof -
  have "ring (ins h n L) h (xs @ n # [])" using assms by (simp add: ins_ring)
  from del_ring [OF this] show ?thesis by simp
qed

lemma ins_many:
  assumes "ring L h xs" "distinct ns" "set ns \<inter> set (h # xs) = {}" "0 \<notin> set ns"
  shows "ring (fold (ins h) ns L) h (xs @ ns)"
  using assms
proof (induction ns arbitrary: L xs)
  case (Cons n ns)
  have "ring (ins h n L) h (xs @ [n])" using Cons.prems by (simp add: ins_ring)
  then have "ring (fold (ins h) ns (ins h n L)) h ((xs @ [n]) @ ns)"
    using Cons.prems by (intro Cons.IH) auto
  then show ?case by simp
qed simp

lemma visits_in_order:
  assumes "ring L h xs" "length xs < fuel"
  shows "visit_from fuel h (nxt L h) L = Some xs"
  using assms by (intro visit_ring) (auto simp: ring_def)

end

lemma ins_update_ring:
  assumes "ring L h xs" "n \<notin> set (h # xs)" "n \<noteq> 0"
  shows "ring (fdevent_plist_enqueue_ptr h n L) h (xs @ [n])"
    "ring (insert_local_socket_ptr h n L) h (xs @ [n])"
    "ring (add_transport_disconnect_ptr h n L) h (xs @ [n])"
proof -
  have last_in: "last (h # xs) \<in> set (h # xs)" by (rule last_in_set) simp
  then have ne: "last (h # xs) \<noteq> n" "n \<noteq> last (h # xs)" "h \<noteq> n" "n \<noteq> h"
    using assms(2) by (blast, blast, auto)
  have pv: "prv L h = last (h # xs)" using ringD_last [OF assms(1)] by blast
  note defs = fdevent_plist_enqueue_ptr_def insert_local_socket_ptr_def
    add_transport_disconnect_ptr_def Let_def
  have nx: "nxt (fdevent_plist_enqueue_ptr h n L) = (nxt L)(n := h, last (h # xs) := n)"
    and px: "prv (fdevent_plist_enqueue_ptr h n L) = (prv L)(n := last (h # xs), h := n)"
    by (simp_all add: defs pv ne del: last.simps)
  have eq: "insert_local_socket_ptr h n L = fdevent_plist_enqueue_ptr h n L"
    "add_transport_disconnect_ptr h n L = fdevent_plist_enqueue_ptr h n L"
    by (simp_all add: defs pv ne del: last.simps)
  show "ring (fdevent_plist_enqueue_ptr h n L) h (xs @ [n])"
    by (rule ring_append [OF assms nx px])
  then show "ring (insert_local_socket_ptr h n L) h (xs @ [n])"
    "ring (add_transport_disconnect_ptr h n L) h (xs @ [n])"
    by (simp_all add: eq)
qed

lemma del_update_ring:
  assumes r: "ring L h (xs @ n # ys)"
  shows "ring (fdevent_plist_remove_ptr n L) h (xs @ ys)"
    "ring (remove_socket_ptr n L) h (xs @ ys)"
    "ring (remove_transport_disconnect_ptr n L) h (xs @ ys)"
proof -
  note defs = fdevent_plist_remove_ptr_def remove_socket_ptr_def remove_transport_disconnect_ptr_def
    Let_def ring_neighbours [OF r] ring_neighbours_ne [OF r] ring_neighbours_ne [OF r, symmetric]
  show "ring (fdevent_plist_remove_ptr n L) h (xs @ ys)"
    by (rule ring_delete [OF r]) (simp_all add: defs del: last.simps)
  show "ring (remove_socket_ptr n L) h (xs @ ys)"
    by (rule ring_delete [OF r]) (simp_all add: defs del: last.simps neq0_conv)
  show "ring (remove_transport_disconnect_ptr n L) h (xs @ ys)"
    by (rule ring_delete [OF r]) (simp_all add: defs del: last.simps)
qed

interpretation plist: ring_ops fdevent_plist_enqueue_ptr fdevent_plist_remove_ptr
  by unfold_locales (auto intro: ins_update_ring del_update_ring)

interpretation socklist: ring_ops insert_local_socket_ptr remove_socket_ptr
  by unfold_locales (auto intro: ins_update_ring del_update_ring)

interpretation disclist: ring_ops add_transport_disconnect_ptr remove_transport_disconnect_ptr
  by unfold_locales (auto intro: ins_update_ring del_update_ring)

lemma dequeue_ring:
  assumes "ring L h xs"
  shows "case xs of
      [] \<Rightarrow> fdevent_plist_dequeue_ptr h L = (None, L)
    | x # ys \<Rightarrow> fst (fdevent_plist_dequeue_ptr h L) = Some x
              \<and> ring (snd (fdevent_plist_dequeue_ptr h L)) h ys"
proof (cases xs)
  case Nil
  with assms show ?thesis by (simp add: ring_def fdevent_plist_dequeue_ptr_def)
next
  case (Cons x ys)
  with assms have r: "ring L h ([] @ x # ys)" and nx: "nxt L h = x" "x \<noteq> h"
    by (auto simp: ring_def)
  have "ring (snd (fdevent_plist_dequeue_ptr h L)) h ([] @ ys)"
    by (rule ring_delete [OF r])
      (auto simp: fdevent_plist_dequeue_ptr_def Let_def nx ring_neighbours [OF r]
        ring_neighbours_ne [OF r])
  with nx show ?thesis by (simp add: Cons fdevent_plist_dequeue_ptr_def Let_def)
qed

text \<open>The inner loop of \<^verbatim>\<open>fdevent_loop\<close>, \<^verbatim>\<open>while((fde = fdevent_plist_dequeue()))\<close>: the nodes it gets.\<close>

fun dequeue_all :: "nat \<Rightarrow> addr \<Rightarrow> links \<Rightarrow> addr list option" where
  "dequeue_all 0 h L = None"
| "dequeue_all (Suc fuel) h L =
     (case fdevent_plist_dequeue_ptr h L of
        (None, L1) \<Rightarrow> Some []
      | (Some x, L1) \<Rightarrow> map_option ((#) x) (dequeue_all fuel h L1))"

lemma dequeue_all_ring:
  assumes "ring L h xs" "length xs < fuel"
  shows "dequeue_all fuel h L = Some xs"
  using assms
proof (induction xs arbitrary: L fuel)
  case Nil
  then obtain f where "fuel = Suc f" by (cases fuel) auto
  with dequeue_ring [OF Nil.prems(1)] show ?case by simp
next
  case (Cons x xs)
  then obtain f where f: "fuel = Suc f" "length xs < f" by (cases fuel) auto
  obtain L1 where L1: "fdevent_plist_dequeue_ptr h L = (Some x, L1)" "ring L1 h xs"
    using dequeue_ring [OF Cons.prems(1)] by (cases "fdevent_plist_dequeue_ptr h L") auto
  with Cons.IH [OF L1(2) f(2)] f show ?case by simp
qed

section \<open>Properties\<close>

definition empty_links :: "addr \<Rightarrow> links" where
  "empty_links h = \<lparr>nxt = (\<lambda>_. h), prv = (\<lambda>_. h)\<rparr>"

lemma ring_empty_links: "h \<noteq> 0 \<Longrightarrow> ring (empty_links h) h []"
  by (simp add: ring_def empty_links_def)

text \<open>C31: The pointer code of the pending list is a queue: nodes enqueued on a well-formed list are dequeued after
  the nodes already there and in the order in which they were enqueued, after which the list is empty; the
  loop takes one turn more than there are nodes.\<close>

theorem pending_list_is_fifo:
  assumes "ring L h xs" "distinct ns" "set ns \<inter> set (h # xs) = {}" "0 \<notin> set ns"
  shows "dequeue_all (Suc (length (xs @ ns))) h (fold (fdevent_plist_enqueue_ptr h) ns L) = Some (xs @ ns)"
  by (rule dequeue_all_ring [OF plist.ins_many [OF assms]]) simp

theorem pending_list_is_fifo_witness:
  "dequeue_all 4 1 (fold (fdevent_plist_enqueue_ptr 1) [7, 3, 5] (empty_links 1)) = Some [7, 3, 5]"
  using pending_list_is_fifo [OF ring_empty_links [of 1], of "[7, 3, 5]"] by (simp add: numeral_eq_Suc)

text \<open>Removing a node from the pending list, from a socket list or from a transport's disconnect list unlinks
  exactly that node: the list that is left has the other nodes in their order, so a loop over it visits them
  and ends. Removing a socket a second time changes nothing.\<close>

theorem list_removal_unlinks:
  assumes "ring L h xs" "n \<in> set xs"
  shows "visit_from (length xs) h (nxt (fdevent_plist_remove_ptr n L) h) (fdevent_plist_remove_ptr n L)
           = Some (remove1 n xs)
    \<and> visit_from (length xs) h (nxt (remove_socket_ptr n L) h) (remove_socket_ptr n L) = Some (remove1 n xs)
    \<and> visit_from (length xs) h (nxt (remove_transport_disconnect_ptr n L) h)
          (remove_transport_disconnect_ptr n L) = Some (remove1 n xs)
    \<and> remove_socket_ptr n (remove_socket_ptr n L) = remove_socket_ptr n L"
proof -
  have len: "length (remove1 n xs) < length xs"
    using assms(2) length_pos_if_in_set [OF assms(2)] by (simp add: length_remove1)
  have "remove_socket_ptr n (remove_socket_ptr n L) = remove_socket_ptr n L"
    by (auto simp: remove_socket_ptr_def Let_def)
  then show ?thesis
    using plist.visits_in_order [OF plist.del_remove1 [OF assms] len]
      socklist.visits_in_order [OF socklist.del_remove1 [OF assms] len]
      disclist.visits_in_order [OF disclist.del_remove1 [OF assms] len] by blast
qed

theorem list_removal_unlinks_witness:
  "visit_from 3 1 (nxt (remove_socket_ptr 3 (fold (insert_local_socket_ptr 1) [7, 3, 5] (empty_links 1))) 1)
     (remove_socket_ptr 3 (fold (insert_local_socket_ptr 1) [7, 3, 5] (empty_links 1))) = Some [7, 5]"
proof -
  have "ring (fold (insert_local_socket_ptr 1) [7, 3, 5] (empty_links 1)) 1 [7, 3, 5]"
    using socklist.ins_many [OF ring_empty_links [of 1], of "[7, 3, 5]"] by simp
  from list_removal_unlinks [OF this, of 3] show ?thesis by (simp add: numeral_eq_Suc)
qed

end
