(* ===== verification/Adb_Utils.thy ===== *)
theory Adb_Utils
  imports Adb_Prelude
begin

text \<open>
  Helpers: the bounded buffers of utils.c, the path of the program and the trace mask of adb.c. A buffer is the list of its bytes from the first to the one
  before \<^verbatim>\<open>buffEnd\<close>, a cursor is an index into it; a write outside is a fault.
\<close>

section \<open>Bounded buffers\<close>

definition poke :: "int \<Rightarrow> char \<Rightarrow> bytes \<Rightarrow> bytes res" where
  "poke i c mem = (if 0 \<le> i \<and> i < int (length mem) then Inr (mem[nat i := c]) else Inl BufferOverflow)"

definition memcpy :: "nat \<Rightarrow> bytes \<Rightarrow> bytes \<Rightarrow> bytes res" where
  "memcpy i bs mem =
     (if i + length bs \<le> length mem then Inr (take i mem @ bs @ drop (i + length bs) mem) else Inl BufferOverflow)"

definition buff_addc :: "int \<Rightarrow> nat \<Rightarrow> bytes \<Rightarrow> (nat \<times> bytes) res" where
  "buff_addc c buff mem =
     (let avail = int (length mem) - int buff in
      if avail \<le> 0 then Inr (buff, mem)
      else if avail = 1 then rbind (poke (int buff) NUL mem) (\<lambda>mem1. Inr (buff + 1, mem1))
      else rbind (poke (int buff) (char_of (nat (c mod 256))) mem) (\<lambda>mem1.
           rbind (poke (int buff + 1) NUL mem1) (\<lambda>mem2. Inr (buff + 1, mem2))))"

text \<open>The terminating zero that \<^verbatim>\<open>buff_addb\<close> and \<^verbatim>\<open>buff_add\<close> write at their new position.\<close>

definition terminate :: "nat \<Rightarrow> bytes \<Rightarrow> (nat \<times> bytes) res" where
  "terminate buff mem =
     rbind (poke (if length mem \<le> buff then int buff - 1 else int buff) NUL mem) (\<lambda>mem1. Inr (buff, mem1))"

definition buff_addb :: "bytes \<Rightarrow> int \<Rightarrow> nat \<Rightarrow> bytes \<Rightarrow> (nat \<times> bytes) res" where
  "buff_addb dat len buff mem =
     (let avail = int (length mem) - int buff in
      if avail \<le> 0 \<or> len \<le> 0 then Inr (buff, mem)
      else
        let n = nat (if avail < len then avail else len) in
        if length dat < n then Inl UninitRead
        else rbind (memcpy buff (take n dat) mem) (terminate (buff + n)))"

definition buff_adds :: "string \<Rightarrow> nat \<Rightarrow> bytes \<Rightarrow> (nat \<times> bytes) res" where
  "buff_adds s = buff_addb s (int (length s))"

text \<open>\<^verbatim>\<open>buff_add\<close>: \<open>out\<close> is what \<^verbatim>\<open>vsnprintf\<close> makes of format and arguments; it stores what fits and returns the length of the
  whole text. \<open>None\<close> is a negative result, after which nothing is known to be stored.\<close>

definition buff_add :: "string option \<Rightarrow> nat \<Rightarrow> bytes \<Rightarrow> (nat \<times> bytes) res" where
  "buff_add out buff mem =
     (let avail = int (length mem) - int buff in
      if 0 < avail then
        rbind (case out of None \<Rightarrow> Inr mem | Some t \<Rightarrow> memcpy buff (snprintf (nat avail) t @ [NUL]) mem) (\<lambda>mem1.
          let nn = (case out of None \<Rightarrow> -1 | Some t \<Rightarrow> int (length t));
              nn' = (if nn < 0 then avail else if avail < nn then avail else nn) in
          terminate (buff + nat nn') mem1)
      else Inr (buff, mem))"

text \<open>
  What the header file promises: the buffer holds the text added so far, cut off at its size and closed by a zero, and the cursor has
  reached the end exactly if something had to be cut off.
\<close>

definition holds :: "bytes \<Rightarrow> nat \<Rightarrow> string \<Rightarrow> bool" where
  "holds mem buff s \<longleftrightarrow>
     mem \<noteq> [] \<and> buff = min (length mem) (length s)
   \<and> take (min buff (length mem - 1)) mem = take (length mem - 1) s \<and> mem ! min buff (length mem - 1) = NUL"

locale appender =
  fixes add :: "nat \<Rightarrow> bytes \<Rightarrow> (nat \<times> bytes) res" and added :: string
  assumes adds: "holds mem buff s \<Longrightarrow>
    \<exists>buff' mem'. add buff mem = Inr (buff', mem') \<and> length mem' = length mem \<and> holds mem' buff' (s @ added)"
begin

lemma then_adds:
  assumes "appender add' added'"
  shows "appender (\<lambda>buff mem. rbind (add buff mem) (\<lambda>(buff', mem'). add' buff' mem')) (added @ added')"
proof
  fix mem buff s assume "holds mem buff s"
  from adds [OF this] obtain b1 m1 where 1: "add buff mem = Inr (b1, m1)" "length m1 = length mem" "holds m1 b1 (s @ added)" by blast
  from appender.adds [OF assms 1(3)] 1 show "\<exists>buff' mem'. rbind (add buff mem) (\<lambda>(buff', mem'). add' buff' mem') = Inr (buff', mem')
      \<and> length mem' = length mem \<and> holds mem' buff' (s @ added @ added')" by auto
qed

end

lemma holds_cases:
  assumes "holds mem buff s"
  shows "buff < length mem \<Longrightarrow> buff = length s \<and> take buff mem = s \<and> mem ! buff = NUL"
    and "\<not> buff < length mem \<Longrightarrow> buff = length mem \<and> length mem \<le> length s"
  using assms by (auto simp: holds_def min_def split: if_splits)

lemma holds_full: "holds mem buff s \<Longrightarrow> \<not> buff < length mem \<Longrightarrow> holds mem buff (s @ t)"
  by (auto simp: holds_def min_def split: if_splits)

lemma terminate_holds:
  assumes "mem \<noteq> []" "buff = min (length mem) (length x)" "take (min buff (length mem - 1)) mem = take (length mem - 1) x"
  shows "\<exists>mem'. terminate buff mem = Inr (buff, mem') \<and> length mem' = length mem \<and> holds mem' buff x"
proof -
  let ?i = "min buff (length mem - 1)"
  have pos: "0 < length mem" "buff \<le> length mem" using assms(1,2) by simp_all
  then have i: "?i < length mem" "(if length mem \<le> buff then int buff - 1 else int buff) = int ?i"
    by linarith (use pos in \<open>cases "length mem \<le> buff"; simp add: of_nat_diff\<close>)
  then have "terminate buff mem = Inr (buff, mem[?i := NUL])" by (simp add: terminate_def poke_def)
  moreover have "holds (mem[?i := NUL]) buff x" using assms i(1) by (simp add: holds_def)
  ultimately show ?thesis by simp
qed

lemma copied:
  assumes "holds mem buff s" "buff < length mem" "length bs \<le> length mem - buff"
    and "take (length mem - 1 - buff) (take (length t) bs) = take (length mem - 1 - buff) t" "min (length t) (length mem - 1 - buff) \<le> length bs"
  shows "\<exists>mem'. rbind (memcpy buff bs mem) (terminate (min (length mem) (buff + length t))) = Inr (min (length mem) (buff + length t), mem')
    \<and> length mem' = length mem \<and> holds mem' (min (length mem) (buff + length t)) (s @ t)"
proof -
  let ?m = "take buff mem @ bs @ drop (buff + length bs) mem" let ?b = "min (length mem) (buff + length t)"
  have h: "buff = length s" "take buff mem = s" using holds_cases(1) [OF assms(1,2)] by blast+
  have len: "length ?m = length mem" "memcpy buff bs mem = Inr ?m" using assms(2,3) by (simp_all add: memcpy_def)
  have le: "min ?b (length mem - 1) - buff \<le> length bs" using assms(2,5) by linarith
  have "take (min ?b (length mem - 1)) ?m = s @ take (min ?b (length mem - 1) - buff) bs"
    using h le assms(2) by simp
  also have "min ?b (length mem - 1) - buff = min (length t) (length mem - 1 - buff)" using assms(2) by linarith
  also have "take (min (length t) (length mem - 1 - buff)) bs = take (length mem - 1 - buff) t"
    using assms(4) by (simp add: take_take min.commute)
  finally have "take (min ?b (length mem - 1)) ?m = take (length mem - 1) (s @ t)" using h assms(2) by simp
  then show ?thesis
    using terminate_holds [of ?m ?b "s @ t"] len h assms(2) by (cases "mem = []") auto
qed

interpretation addc: appender "buff_addc c" "[char_of (nat (c mod 256))]" for c
proof
  fix mem buff s assume h: "holds mem buff s"
  let ?c = "char_of (nat (c mod 256)) :: char"
  show "\<exists>buff' mem'. buff_addc c buff mem = Inr (buff', mem') \<and> length mem' = length mem \<and> holds mem' buff' (s @ [?c])"
  proof (cases "buff < length mem")
    case True
    note f = holds_cases(1) [OF h True]
    show ?thesis
    proof (cases "buff + 1 = length mem")
      case one: True
      then have "buff_addc c buff mem = Inr (buff + 1, mem[buff := NUL])" by (simp add: buff_addc_def poke_def Let_def)
      moreover have "length mem - 1 = buff" using one by simp
      then have "holds (mem[buff := NUL]) (buff + 1) (s @ [?c])" using f one by (auto simp: holds_def)
      ultimately show ?thesis by auto
    next
      case False
      then have "buff_addc c buff mem = Inr (buff + 1, mem[buff := ?c, buff + 1 := NUL])"
        using True by (simp add: buff_addc_def poke_def Let_def nat_add_distrib)
      moreover have "take (buff + 1) (mem[buff := ?c, buff + 1 := NUL]) = take buff mem @ [?c]"
        using True False by (simp add: take_Suc_conv_app_nth)
      then have "take (buff + 1) (mem[buff := ?c, buff + 1 := NUL]) = s @ [?c]" using f by metis
      then have "holds (mem[buff := ?c, buff + 1 := NUL]) (buff + 1) (s @ [?c])" using f True False by (auto simp: holds_def min_def)
      ultimately show ?thesis by auto
    qed
  next
    case False
    then show ?thesis using holds_full [OF h False] by (simp add: buff_addc_def)
  qed
qed

lemma addb_appender:
  assumes "len \<le> length dat"
  shows "appender (buff_addb dat (int len)) (take len dat)"
proof
  fix mem buff s assume h: "holds mem buff s"
  show "\<exists>buff' mem'. buff_addb dat (int len) buff mem = Inr (buff', mem') \<and> length mem' = length mem \<and> holds mem' buff' (s @ take len dat)"
  proof (cases "buff < length mem \<and> 0 < len")
    case True
    let ?n = "min (length mem - buff) len"
    have n: "nat (if int (length mem) - int buff < int len then int (length mem) - int buff else int len) = ?n"
      using True by (auto simp: min_def)
    have e: "buff_addb dat (int len) buff mem = rbind (memcpy buff (take ?n dat) mem) (terminate (min (length mem) (buff + length (take len dat))))"
      using True assms by (simp add: buff_addb_def n Let_def) (auto simp: min_def)
    let ?k = "length mem - 1 - buff"
    have "min ?k (min len ?n) = min ?k len" "min len ?n = ?n" by linarith+
    then have "take ?k (take (length (take len dat)) (take ?n dat)) = take ?k (take len dat)" using assms by (simp add: take_take)
    moreover have "min (length (take len dat)) ?k \<le> length (take ?n dat)" "length (take ?n dat) \<le> length mem - buff" using assms by simp_all
    ultimately show ?thesis unfolding e using copied [OF h, of "take ?n dat" "take len dat"] True by blast
  next
    case False
    then show ?thesis using h holds_full [OF h] by (auto simp: buff_addb_def)
  qed
qed

interpretation adds: appender "buff_adds s" s for s
  using addb_appender [of "length s" s] by (simp add: buff_adds_def)

interpretation addt: appender "buff_add (Some t)" t for t
proof
  fix mem buff s assume h: "holds mem buff s"
  show "\<exists>buff' mem'. buff_add (Some t) buff mem = Inr (buff', mem') \<and> length mem' = length mem \<and> holds mem' buff' (s @ t)"
  proof (cases "buff < length mem")
    case True
    let ?bs = "snprintf (length mem - buff) t @ [NUL]"
    have a: "nat (int (length mem) - int buff) = length mem - buff" using True by simp
    have e: "buff_add (Some t) buff mem = rbind (memcpy buff ?bs mem) (terminate (min (length mem) (buff + length t)))"
      using True by (auto simp: buff_add_def a Let_def min_def intro!: arg_cong [where f = "rbind _"] ext arg_cong2 [where f = terminate])
    let ?k = "length mem - 1 - buff"
    have k: "length mem - buff - 1 = ?k" by simp
    have "take ?k (take (length t) ?bs) = take ?k t" by (cases "length t \<le> ?k") (simp_all add: snprintf_def k take_take)
    moreover have "min (length t) ?k \<le> length ?bs" "length ?bs \<le> length mem - buff" using True by (simp_all add: snprintf_def)
    ultimately show ?thesis unfolding e using copied [OF h True, of ?bs t] by blast
  next
    case False
    then show ?thesis using holds_full [OF h False] by (simp add: buff_add_def)
  qed
qed

section \<open>The path of the program\<close>

text \<open>\<^verbatim>\<open>get_my_path\<close>: \<open>link\<close> is what \<^verbatim>\<open>/proc/<pid>/exe\<close> points to, \<open>None\<close> if it cannot be read; \<^verbatim>\<open>readlink\<close> stores at most one byte
  less than the buffer has.\<close>

definition get_my_path :: "nat \<Rightarrow> string option \<Rightarrow> string" where
  "get_my_path maxLen link = (case link of None \<Rightarrow> [] | Some t \<Rightarrow> take (maxLen - 1) t)"

section \<open>The trace mask\<close>

text \<open>The flags of \<^verbatim>\<open>AdbTrace\<close> and the table of \<^verbatim>\<open>adb_trace_init\<close>; in the table 0 means everything.\<close>

definition trace_tags :: "(string \<times> nat) list" where
  "trace_tags = [(''1'', 0), (''all'', 0), (''adb'', 0), (''sockets'', 1), (''packets'', 2), (''rwx'', 4), (''usb'', 5), (''sync'', 6),
     (''sysdeps'', 7), (''transport'', 3), (''jdwp'', 8), (''services'', 9)]"

definition separator :: "char \<Rightarrow> bool" where
  "separator c \<longleftrightarrow> c \<in> set '' ,:;''"

text \<open>The loop; \<^verbatim>\<open>strpbrk\<close> finds the next separator, and the first entry of the table that matches counts.\<close>

function trace_loop :: "string \<Rightarrow> u32 \<Rightarrow> u32" where
  "trace_loop p adb_trace_mask =
     (if p = [] then adb_trace_mask
      else
        let q = dropWhile (\<lambda>c. \<not> separator c) p; rest = (if q = [] then [] else tl q) in
        case map_of trace_tags (takeWhile (\<lambda>c. \<not> separator c) p) of
          None \<Rightarrow> trace_loop rest adb_trace_mask
        | Some fl \<Rightarrow> if fl = 0 then NOT 0 else trace_loop rest (adb_trace_mask OR push_bit fl 1))"
  by pat_completeness auto
termination
proof (relation "measure (\<lambda>(p, m). length p)")
  have "length (if q = [] then [] else tl q) < length p" if "p \<noteq> []" "q = dropWhile (\<lambda>c. \<not> separator c) p" for p q :: string
  proof -
    have "length q \<le> length p" using that(2) length_dropWhile_le by blast
    then show ?thesis using that(1) by (cases q) simp_all
  qed
  then show "\<And>p m q rest fl. \<lbrakk>p \<noteq> []; q = dropWhile (\<lambda>c. \<not> separator c) p; rest = (if q = [] then [] else tl q);
      map_of trace_tags (takeWhile (\<lambda>c. \<not> separator c) p) = Some fl; fl \<noteq> 0\<rbrakk> \<Longrightarrow> ((rest, m OR push_bit fl 1), (p, m)) \<in> measure (\<lambda>(p, m). length p)"
    "\<And>p m q rest. \<lbrakk>p \<noteq> []; q = dropWhile (\<lambda>c. \<not> separator c) p; rest = (if q = [] then [] else tl q);
      map_of trace_tags (takeWhile (\<lambda>c. \<not> separator c) p) = None\<rbrakk> \<Longrightarrow> ((rest, m), (p, m)) \<in> measure (\<lambda>(p, m). length p)"
    by auto
qed simp

declare trace_loop.simps [simp del]

definition adb_trace_init :: "string option \<Rightarrow> u32 \<Rightarrow> u32" where
  "adb_trace_init env adb_trace_mask = (case env of None \<Rightarrow> adb_trace_mask | Some p \<Rightarrow> trace_loop p adb_trace_mask)"

text \<open>The fields of a list with separators.\<close>

fun fields :: "string \<Rightarrow> string list" where
  "fields [] = [[]]"
| "fields (c # cs) = (if separator c then [] # fields cs else case fields cs of [] \<Rightarrow> [[c]] | w # ws \<Rightarrow> (c # w) # ws)"

lemma fields_nonempty [simp]: "fields p \<noteq> []"
  by (induction p) (auto split: list.split)

lemma fields_unfold:
  "fields p = takeWhile (\<lambda>c. \<not> separator c) p
     # (let q = dropWhile (\<lambda>c. \<not> separator c) p in if q = [] then [] else fields (tl q))"
  by (induction p) (auto simp: Let_def split: list.split)

lemma trace_loop_bit:
  "i < 32 \<Longrightarrow> bit (trace_loop p m) i \<longleftrightarrow>
     (\<exists>w \<in> set (fields p). map_of trace_tags w = Some 0) \<or> bit m i \<or> (\<exists>w \<in> set (fields p). map_of trace_tags w = Some i)"
proof (induction p m rule: trace_loop.induct)
  case (1 p m)
  let ?q = "dropWhile (\<lambda>c. \<not> separator c) p" let ?w = "takeWhile (\<lambda>c. \<not> separator c) p"
  let ?rest = "if ?q = [] then [] else tl ?q"
  show ?case
  proof (cases "p = []")
    case True
    then show ?thesis by (simp add: trace_loop.simps [of "[]"] trace_tags_def)
  next
    case False
    have sp: "set (fields p) = insert ?w (if ?q = [] then {} else set (fields ?rest))" by (subst fields_unfold) (simp add: Let_def)
    have nil: "map_of trace_tags [] = None" by (simp add: trace_tags_def)
    show ?thesis
    proof (cases "map_of trace_tags ?w")
      case None
      have "trace_loop p m = trace_loop ?rest m" using False None by (subst trace_loop.simps) (simp add: Let_def)
      then show ?thesis using "1.IH"(1) [OF False refl refl None "1.prems"] None nil unfolding sp by (cases "?q = []") simp_all
    next
      case (Some fl)
      have e: "trace_loop p m = (if fl = 0 then NOT 0 else trace_loop ?rest (m OR push_bit fl 1))"
        using False Some by (subst trace_loop.simps) (simp add: Let_def)
      show ?thesis
      proof (cases "fl = 0")
        case True
        then show ?thesis using e Some "1.prems" unfolding sp by (simp add: bit_not_iff)
      next
        case nz: False
        have "bit (m OR push_bit fl 1) i \<longleftrightarrow> bit m i \<or> fl = i" using "1.prems" by (auto simp: bit_or_iff bit_exp_iff)
        then show ?thesis using "1.IH"(2) [OF False refl refl Some nz "1.prems"] e nz Some nil unfolding sp by (cases "?q = []") auto
      qed
    qed
  qed
qed

section \<open>Properties\<close>

text \<open>Appends in succession, as the header file recommends.\<close>

datatype append_op = Add_char int | Add_string string | Add_bytes bytes nat | Add_text string

fun append_run :: "append_op list \<Rightarrow> nat \<Rightarrow> bytes \<Rightarrow> (nat \<times> bytes) res" where
  "append_run [] buff mem = Inr (buff, mem)"
| "append_run (x # xs) buff mem =
     rbind (case x of
              Add_char c \<Rightarrow> buff_addc c buff mem
            | Add_string s \<Rightarrow> buff_adds s buff mem
            | Add_bytes dat len \<Rightarrow> buff_addb dat (int len) buff mem
            | Add_text t \<Rightarrow> buff_add (Some t) buff mem) (\<lambda>(buff', mem'). append_run xs buff' mem')"

fun appended :: "append_op \<Rightarrow> string" where
  "appended (Add_char c) = [char_of (nat (c mod 256))]"
| "appended (Add_string s) = s"
| "appended (Add_bytes dat len) = take len dat"
| "appended (Add_text t) = t"

definition op_ok :: "append_op \<Rightarrow> bool" where
  "op_ok x \<longleftrightarrow> (case x of Add_bytes dat len \<Rightarrow> len \<le> length dat | _ \<Rightarrow> True)"

lemma append_run_appender: "list_all op_ok xs \<Longrightarrow> appender (append_run xs) (concat (map appended xs))"
proof (induction xs)
  case Nil
  show ?case by unfold_locales simp
next
  case (Cons x xs)
  then have IH: "appender (append_run xs) (concat (map appended xs))" by simp
  have x: "appender (\<lambda>buff mem. case x of Add_char c \<Rightarrow> buff_addc c buff mem | Add_string s \<Rightarrow> buff_adds s buff mem
      | Add_bytes dat len \<Rightarrow> buff_addb dat (int len) buff mem | Add_text t \<Rightarrow> buff_add (Some t) buff mem) (appended x)"
    using Cons.prems addb_appender by (cases x) (simp_all add: op_ok_def addc.appender_axioms adds.appender_axioms addt.appender_axioms)
  have "append_run (x # xs) = (\<lambda>buff mem. rbind (case x of Add_char c \<Rightarrow> buff_addc c buff mem | Add_string s \<Rightarrow> buff_adds s buff mem
      | Add_bytes dat len \<Rightarrow> buff_addb dat (int len) buff mem | Add_text t \<Rightarrow> buff_add (Some t) buff mem) (\<lambda>(buff', mem'). append_run xs buff' mem'))"
    by (intro ext) simp
  with appender.then_adds [OF x IH] show ?case by simp
qed

text \<open>C34: Any succession of appends to a bounded buffer stays inside it: the buffer ends up with everything that was added, cut off at one byte
  less than its size, and a zero behind it; and the cursor has reached the end exactly if something had to be cut off.\<close>

theorem appends_stay_in_buffer:
  assumes "list_all op_ok xs" "mem \<noteq> []" "hd mem = NUL"
  shows "\<exists>buff mem'. append_run xs 0 mem = Inr (buff, mem') \<and> length mem' = length mem
    \<and> (let t = concat (map appended xs); n = length mem - 1 in
         take (length (take n t)) mem' = take n t \<and> mem' ! length (take n t) = NUL \<and> (buff = length mem \<longleftrightarrow> n < length t))"
proof -
  have "holds mem 0 []" using assms(2,3) by (simp add: holds_def hd_conv_nth)
  from appender.adds [OF append_run_appender [OF assms(1)] this] obtain buff mem' where r: "append_run xs 0 mem = Inr (buff, mem')"
    "length mem' = length mem" "holds mem' buff (concat (map appended xs))" by auto
  let ?t = "concat (map appended xs)"
  have l: "length (take (length mem - 1) ?t) = min buff (length mem - 1)" and b: "buff = length mem \<longleftrightarrow> length mem - 1 < length ?t"
    using r(2,3) assms(2) by (auto simp: holds_def min_def split: if_splits)
  have "take (min buff (length mem - 1)) mem' = take (length mem - 1) ?t" "mem' ! min buff (length mem - 1) = NUL"
    using r(3) unfolding holds_def r(2) by blast+
  then show ?thesis using r(1,2) b unfolding Let_def l by blast
qed

theorem appends_stay_in_buffer_witness:
  "\<exists>mem'. append_run [Add_char 91, Add_string ''emulator'', Add_text ''-5554''] 0 (replicate 8 NUL) = Inr (8, mem')
     \<and> take 7 mem' = ''[emulat'' \<and> mem' ! 7 = NUL"
proof -
  let ?xs = "[Add_char 91, Add_string ''emulator'', Add_text ''-5554'']"
  have t: "concat (map appended ?xs) = ''[emulator-5554''" by (simp add: char_of_eq_iff)
  have k: "(8 :: nat) - 1 = 7" "take 7 ''[emulator-5554'' = ''[emulat''" "length ''[emulat'' = 7" "length (replicate 8 NUL) = 8"
    "7 < length ''[emulator-5554''" by simp_all
  have "list_all op_ok ?xs" "replicate 8 NUL \<noteq> []" "hd (replicate 8 NUL) = NUL" by (simp_all add: op_ok_def)
  from appends_stay_in_buffer [OF this, unfolded Let_def t k(4), unfolded k(1), unfolded k(2), unfolded k(3)] k(5) obtain buff mem' where
    "append_run ?xs 0 (replicate 8 NUL) = Inr (buff, mem')" "take 7 mem' = ''[emulat''" "mem' ! 7 = NUL" "buff = 8" by blast
  then show ?thesis by blast
qed

text \<open>The trace mask that the environment asks for has a bit set exactly if a field of the list is the tag of this bit, or one of \<^verbatim>\<open>1\<close>,
  \<^verbatim>\<open>all\<close> and \<^verbatim>\<open>adb\<close>: the last one has the flag 0, which the loop takes for everything.\<close>

theorem trace_mask_bits:
  assumes "i < 32"
  shows "bit (adb_trace_init (Some p) 0) i \<longleftrightarrow>
    (\<exists>w \<in> set (fields p). w = ''1'' \<or> w = ''all'' \<or> w = ''adb'' \<or> (0 < i \<and> map_of trace_tags w = Some i))"
proof -
  have d: "distinct (map fst trace_tags)" by (simp add: trace_tags_def)
  have all: "map_of trace_tags w = Some 0 \<longleftrightarrow> w = ''1'' \<or> w = ''all'' \<or> w = ''adb''" for w
    unfolding map_of_eq_Some_iff [OF d] by (simp add: trace_tags_def)
  have "bit (adb_trace_init (Some p) 0) i \<longleftrightarrow>
      (\<exists>w \<in> set (fields p). map_of trace_tags w = Some 0) \<or> (\<exists>w \<in> set (fields p). map_of trace_tags w = Some i)"
    using trace_loop_bit [OF assms, of p 0] by (simp add: adb_trace_init_def)
  then show ?thesis using all by (cases "i = 0") (blast, metis gr0I)
qed

theorem trace_mask_bits_witness:
  "bit (adb_trace_init (Some ''usb,adb'') 0) 9 \<and> \<not> bit (adb_trace_init (Some ''usb'') 0) 9"
proof -
  have f: "fields ''usb,adb'' = [''usb'', ''adb'']" "fields ''usb'' = [''usb'']" by (simp_all add: separator_def)
  have t: "map_of trace_tags ''usb'' \<noteq> Some 9" by (simp add: trace_tags_def)
  have "bit (adb_trace_init (Some ''usb,adb'') 0) 9" by (subst trace_mask_bits) (simp_all add: f del: fields.simps)
  moreover have "\<not> bit (adb_trace_init (Some ''usb'') 0) 9" by (subst trace_mask_bits) (use t in \<open>simp_all add: f del: fields.simps\<close>)
  ultimately show ?thesis by blast
qed

end
