(* ===== verification/Fd_Io.thy ===== *)
theory Fd_Io
  imports Adb_Prelude
begin

text \<open>
  Blocking transfers over file descriptors: \<^verbatim>\<open>readx\<close> and \<^verbatim>\<open>writex\<close> of transport.c and the loops of
  the same shape in \<^verbatim>\<open>read_packet\<close>, \<^verbatim>\<open>write_packet\<close>, \<^verbatim>\<open>transport_read_action\<close> and
  \<^verbatim>\<open>transport_write_action\<close>. The kernel's side of a descriptor is a script, the list of the answers
  it will give to successive calls: a chunk of data or an errno to \<^verbatim>\<open>adb_read\<close>, a number of accepted
  bytes or an errno to \<^verbatim>\<open>adb_write\<close>. A finite script describes a connection up to the moment the
  peer has gone: after it, reads return 0 and writes fail. Interrupted calls, short reads and short
  writes are answers like any other.
\<close>

datatype errno = EINTR | EAGAIN | EOTHER

datatype rres = RData bytes | RErr errno
datatype wres = WOk nat | WErr errno

type_synonym rscript = "rres list"
type_synonym wscript = "wres list"

section \<open>The system calls\<close>

text \<open>
  \<^verbatim>\<open>adb_read(fd, p, len)\<close>: at most \<open>len\<close> bytes of the chunk that is there; the rest stays.
  \<open>Inr []\<close> is the return value 0, \<open>Inl e\<close> is -1 with \<^verbatim>\<open>errno = e\<close>.
\<close>

fun adb_read :: "nat \<Rightarrow> rscript \<Rightarrow> (errno + bytes) \<times> rscript" where
  "adb_read n [] = (Inr [], [])"
| "adb_read n (RData bs # q) =
     (Inr (take n bs), if n < length bs then RData (drop n bs) # q else q)"
| "adb_read n (RErr e # q) = (Inl e, q)"

text \<open>\<^verbatim>\<open>adb_write(fd, p, len)\<close>: the number of bytes taken, never more than offered.\<close>

fun adb_write :: "nat \<Rightarrow> wscript \<Rightarrow> (errno + nat) \<times> wscript" where
  "adb_write len [] = (Inl EOTHER, [])"
| "adb_write len (WOk n # q) = (Inr (min n len), q)"
| "adb_write len (WErr e # q) = (Inl e, q)"

section \<open>The loops\<close>

text \<open>
  The common loop: read until \<open>len\<close> bytes have come, retry on EINTR, give up on any other error and
  on end of file. The result is the C return value, the bytes stored so far and the rest of the script.
\<close>

function read_loop :: "nat \<Rightarrow> bytes \<Rightarrow> rscript \<Rightarrow> int \<times> bytes \<times> rscript" where
  "read_loop len got q =
     (if len = 0 then (0, got, q)
      else case adb_read len q of
          (Inr bs, q') \<Rightarrow> if bs = [] then (-1, got, q') else read_loop (len - length bs) (got @ bs) q'
        | (Inl e, q') \<Rightarrow> if e = EINTR then read_loop len got q' else (-1, got, q'))"
  by pat_completeness auto
termination
proof (relation "measure (\<lambda>(len, got, q). len + length q)"; clarsimp)
  fix len :: nat and q :: rscript and bs q'
  assume "0 < len" "(Inr bs, q') = adb_read len q" "bs \<noteq> []"
  then show "len - length bs + length q' < len + length q"
    by (cases "(len, q)" rule: adb_read.cases) (auto split: if_splits)
next
  fix len :: nat and q :: rscript and q'
  assume "0 < len" "(Inl EINTR, q') = adb_read len q"
  then show "length q' < length q"
    by (cases "(len, q)" rule: adb_read.cases) auto
qed

declare read_loop.simps [simp del]

function write_loop :: "bytes \<Rightarrow> bytes \<Rightarrow> wscript \<Rightarrow> int \<times> bytes \<times> wscript" where
  "write_loop bs sent q =
     (if bs = [] then (0, sent, q)
      else case adb_write (length bs) q of
          (Inr n, q') \<Rightarrow> if n = 0 then (-1, sent, q') else write_loop (drop n bs) (sent @ take n bs) q'
        | (Inl e, q') \<Rightarrow> if e = EINTR then write_loop bs sent q' else (-1, sent, q'))"
  by pat_completeness auto
termination
proof (relation "measure (\<lambda>(bs, sent, q). length q)"; clarsimp)
  fix bs :: bytes and q :: wscript and n q'
  assume "bs \<noteq> []" "(Inr n, q') = adb_write (length bs) q" "0 < n"
  then show "length q' < length q" by (cases "(length bs, q)" rule: adb_write.cases) auto
next
  fix bs :: bytes and q :: wscript and q'
  assume "bs \<noteq> []" "(Inl EINTR, q') = adb_write (length bs) q"
  then show "length q' < length q" by (cases "(length bs, q)" rule: adb_write.cases) auto
qed

declare write_loop.simps [simp del]

definition readx :: "nat \<Rightarrow> rscript \<Rightarrow> int \<times> bytes \<times> rscript" where
  "readx len q = read_loop len [] q"

definition writex :: "bytes \<Rightarrow> wscript \<Rightarrow> int \<times> bytes \<times> wscript" where
  "writex bs q = write_loop bs [] q"

text \<open>\<^verbatim>\<open>sizeof(apacket*)\<close> and \<^verbatim>\<open>sizeof(tmsg)\<close> on the 32-bit x86 build: what the two private
  socket pairs carry are pointers.\<close>

definition sizeof_ptr :: nat where "sizeof_ptr = 4"
definition sizeof_tmsg :: nat where "sizeof_tmsg = 8"

definition read_packet :: "rscript \<Rightarrow> int \<times> bytes \<times> rscript" where
  "read_packet q = read_loop sizeof_ptr [] q"

definition write_packet :: "bytes \<Rightarrow> wscript \<Rightarrow> int \<times> bytes \<times> wscript" where
  "write_packet p q = write_loop (take sizeof_ptr p) [] q"

definition transport_read_action :: "rscript \<Rightarrow> int \<times> bytes \<times> rscript" where
  "transport_read_action q = read_loop sizeof_tmsg [] q"

definition transport_write_action :: "bytes \<Rightarrow> wscript \<Rightarrow> int \<times> bytes \<times> wscript" where
  "transport_write_action m q = write_loop (take sizeof_tmsg m) [] q"

section \<open>What a script holds\<close>

text \<open>The bytes a reader that retries on EINTR can get before end of file or an error.\<close>

fun readable :: "rscript \<Rightarrow> bytes" where
  "readable [] = []"
| "readable (RData bs # q) = (if bs = [] then [] else bs @ readable q)"
| "readable (RErr e # q) = (if e = EINTR then readable q else [])"

text \<open>The number of writes' worth of bytes the kernel will take before it fails.\<close>

fun writable :: "wscript \<Rightarrow> nat \<Rightarrow> bool" where
  "writable q 0 = True"
| "writable [] (Suc n) = False"
| "writable (WOk k # q) (Suc n) = (if k = 0 then False else writable q (Suc n - k))"
| "writable (WErr e # q) (Suc n) = (if e = EINTR then writable q (Suc n) else False)"

lemma readable_chunks: "readable (map RData (filter (\<lambda>c. c \<noteq> []) cs)) = concat cs"
  by (induction cs) auto

lemma adb_read_readable:
  assumes "0 < n" "adb_read n q = (Inr bs, q')" "bs \<noteq> []"
  shows "readable q = bs @ readable q'" "length bs \<le> n"
  using assms by (cases "(n, q)" rule: adb_read.cases; auto split: if_splits)+

lemma adb_read_eintr:
  assumes "adb_read n q = (Inl EINTR, q')"
  shows "readable q = readable q'"
  using assms by (cases "(n, q)" rule: adb_read.cases) auto

lemma adb_read_stop:
  assumes "0 < n" "adb_read n q = (Inr [], q') \<or> adb_read n q = (Inl e, q') \<and> e \<noteq> EINTR"
  shows "readable q = []"
  using assms by (cases "(n, q)" rule: adb_read.cases) (auto split: if_splits)

lemma read_loop_ok:
  assumes "len \<le> length (readable q)"
  shows "\<exists>q'. read_loop len got q = (0, got @ take len (readable q), q')
            \<and> readable q' = drop len (readable q)"
  using assms
proof (induction len got q rule: read_loop.induct)
  case (1 len got q)
  show ?case
  proof (cases "len = 0")
    case True
    then show ?thesis by (simp add: read_loop.simps)
  next
    case False
    obtain r q' where rd: "adb_read len q = (r, q')" by (cases "adb_read len q")
    show ?thesis
    proof (cases r)
      case (Inr bs)
      then have "bs \<noteq> []"
        using adb_read_stop [of len q q'] rd "1.prems" False by auto
      note view = adb_read_readable [OF _ rd [unfolded Inr] this]
      with "1.IH"(2) [OF False rd [symmetric] Inr \<open>bs \<noteq> []\<close>] "1.prems" False
      obtain q'' where "read_loop (len - length bs) (got @ bs) q' =
          (0, (got @ bs) @ take (len - length bs) (readable q'), q'')"
        "readable q'' = drop (len - length bs) (readable q')" by fastforce
      with False rd Inr \<open>bs \<noteq> []\<close> view show ?thesis
        by (simp add: read_loop.simps [of len got q])
    next
      case (Inl e)
      then have "e = EINTR"
        using adb_read_stop [of len q q' e] rd "1.prems" False by (cases "e = EINTR") auto
      note view = adb_read_eintr [OF rd [unfolded Inl this]]
      with "1.IH"(1) [OF False rd [symmetric] Inl \<open>e = EINTR\<close>] "1.prems"
      obtain q'' where "read_loop len got q' = (0, got @ take len (readable q'), q'')"
        "readable q'' = drop len (readable q')" by auto
      with False rd Inl \<open>e = EINTR\<close> view show ?thesis
        by (simp add: read_loop.simps [of len got q])
    qed
  qed
qed

lemma read_loop_short:
  assumes "length (readable q) < len"
  shows "\<exists>q'. read_loop len got q = (-1, got @ readable q, q')"
  using assms
proof (induction len got q rule: read_loop.induct)
  case (1 len got q)
  then have False: "len \<noteq> 0" by simp
  obtain r q' where rd: "adb_read len q = (r, q')" by (cases "adb_read len q")
  show ?case
  proof (cases r)
    case (Inr bs)
    show ?thesis
    proof (cases "bs = []")
      case True
      then show ?thesis using adb_read_stop [of len q q'] rd Inr False
        by (simp add: read_loop.simps [of len got q])
    next
      case ne: False
      note view = adb_read_readable [OF _ rd [unfolded Inr] ne]
      with "1.IH"(2) [OF False rd [symmetric] Inr ne] "1.prems" False
      obtain q'' where "read_loop (len - length bs) (got @ bs) q' = (-1, (got @ bs) @ readable q', q'')"
        by fastforce
      with False rd Inr ne view show ?thesis by (simp add: read_loop.simps [of len got q])
    qed
  next
    case (Inl e)
    show ?thesis
    proof (cases "e = EINTR")
      case True
      note view = adb_read_eintr [OF rd [unfolded Inl True]]
      with "1.IH"(1) [OF False rd [symmetric] Inl True] "1.prems" False rd Inl True
      show ?thesis by (simp add: read_loop.simps [of len got q])
    next
      case other: False
      then show ?thesis using adb_read_stop [of len q q' e] rd Inl False
        by (simp add: read_loop.simps [of len got q])
    qed
  qed
qed

lemma write_loop_spec:
  "\<exists>k q'. write_loop bs sent q = (if writable q (length bs) then 0 else -1, sent @ take k bs, q')
        \<and> k \<le> length bs \<and> (writable q (length bs) \<longrightarrow> k = length bs)"
proof (induction bs sent q rule: write_loop.induct)
  case (1 bs sent q)
  show ?case
  proof (cases bs)
    case Nil
    then show ?thesis by (simp add: write_loop.simps)
  next
    case (Cons b cs)
    then have ne: "bs \<noteq> []" by simp
    show ?thesis
    proof (cases q)
      case Nil
      have "write_loop bs sent q = (-1, sent @ take 0 bs, [])"
        using ne by (simp add: Nil write_loop.simps [of bs sent "[]"])
      then show ?thesis using Cons Nil by (intro exI [of _ 0]) simp
    next
      case q: (Cons w q')
      show ?thesis
      proof (cases w)
        case (WOk n)
        show ?thesis
        proof (cases "n = 0")
          case True
          have "write_loop bs sent q = (-1, sent @ take 0 bs, q')"
            using ne by (simp add: q WOk True write_loop.simps [of bs sent "WOk 0 # q'"])
          then show ?thesis using Cons q WOk True by (intro exI [of _ 0]) simp
        next
          case pos: False
          let ?m = "min n (length bs)"
          have m: "adb_write (length bs) q = (Inr ?m, q')" "?m \<noteq> 0"
            using pos ne by (simp_all add: q WOk)
          have wr: "writable q (length bs) = writable q' (length bs - ?m)"
            using pos Cons by (cases "n \<le> length bs") (auto simp: q WOk min_def)
          from "1.IH"(2) [OF ne m(1) [symmetric] refl m(2)]
          obtain k q'' where k: "write_loop (drop ?m bs) (sent @ take ?m bs) q' =
              (if writable q' (length bs - ?m) then 0 else -1, (sent @ take ?m bs) @ take k (drop ?m bs), q'')"
            "k \<le> length bs - ?m" "writable q' (length bs - ?m) \<longrightarrow> k = length bs - ?m" by auto
          have "take ?m bs @ take k (drop ?m bs) = take (?m + k) bs" by (simp add: take_add)
          with k wr ne m show ?thesis
            by (intro exI [of _ "?m + k"] exI [of _ q'']) (simp add: write_loop.simps [of bs sent q])
        qed
      next
        case (WErr e)
        show ?thesis
        proof (cases "e = EINTR")
          case True
          have w: "adb_write (length bs) q = (Inl EINTR, q')" by (simp add: q WErr True)
          have step: "write_loop bs sent q = write_loop bs sent q'"
            using w ne by (simp add: write_loop.simps [of bs sent q])
          have same: "writable q (length bs) = writable q' (length bs)"
            by (simp add: Cons q WErr True)
          from "1.IH"(1) [OF ne w [symmetric] refl refl] show ?thesis
            unfolding step same .
        next
          case other: False
          have "write_loop bs sent q = (-1, sent @ take 0 bs, q')"
            using ne other by (simp add: q WErr write_loop.simps [of bs sent "WErr e # q'"])
          then show ?thesis using Cons q WErr other by (intro exI [of _ 0]) simp
        qed
      qed
    qed
  qed
qed

section \<open>Interfaces\<close>

text \<open>
  What the packet layer and the clients need from a reader and a writer: a request for \<open>n\<close> bytes
  succeeds exactly if \<open>n\<close> bytes are to be had and then consumes them; a request to write either
  transmits everything or reports failure after a prefix.
\<close>

locale byte_source =
  fixes rd :: "nat \<Rightarrow> 's \<Rightarrow> int \<times> bytes \<times> 's"
    and view :: "'s \<Rightarrow> bytes"
  assumes rd_ok: "n \<le> length (view s) \<Longrightarrow>
      \<exists>s'. rd n s = (0, take n (view s), s') \<and> view s' = drop n (view s)"
    and rd_short: "length (view s) < n \<Longrightarrow> fst (rd n s) = -1"
    and rd_none: "rd 0 s = (0, [], s)"
begin

lemma rd_zero_iff: "fst (rd n s) = 0 \<longleftrightarrow> n \<le> length (view s)"
  using rd_ok [of n s] rd_short [of s n] by (cases "n \<le> length (view s)") fastforce+

lemma rd_exact:
  assumes "view s = bs @ rest" "length bs = n"
  shows "\<exists>s'. rd n s = (0, bs, s') \<and> view s' = rest"
  using rd_ok [of n s] assms by simp

lemma rd_result:
  assumes "rd n s = (0, bs, s')"
  shows "bs = take n (view s)" "view s' = drop n (view s)" "length bs = n"
proof -
  have le: "n \<le> length (view s)" using assms rd_zero_iff [of n s] by simp
  from rd_ok [OF le] assms show "bs = take n (view s)" "view s' = drop n (view s)" by auto
  then show "length bs = n" using le by simp
qed

end

locale byte_sink =
  fixes wr :: "bytes \<Rightarrow> 's \<Rightarrow> int \<times> bytes \<times> 's"
  assumes wr_prefix: "wr bs s = (r, sent, s') \<Longrightarrow> \<exists>k. sent = take k bs"
    and wr_all: "wr bs s = (0, sent, s') \<Longrightarrow> sent = bs"
    and wr_code: "wr bs s = (r, sent, s') \<Longrightarrow> r = 0 \<or> r = -1"
begin

lemma wr_two:
  assumes "wr xs s = (0, a, s1)" "wr ys s1 = (0, b, s2)"
  shows "a @ b = xs @ ys"
  using assms wr_all by blast

end

interpretation rx: byte_source readx readable
proof
  fix n and s :: rscript
  assume "n \<le> length (readable s)"
  then show "\<exists>s'. readx n s = (0, take n (readable s), s') \<and> readable s' = drop n (readable s)"
    using read_loop_ok [of n s "[]"] by (simp add: readx_def)
next
  fix n and s :: rscript
  assume "length (readable s) < n"
  then show "fst (readx n s) = -1"
    using read_loop_short [of s n "[]"] by (auto simp: readx_def)
next
  fix s :: rscript
  show "readx 0 s = (0, [], s)" by (simp add: readx_def read_loop.simps)
qed

interpretation wx: byte_sink writex
proof
  fix bs s r sent and s' :: wscript
  assume w: "writex bs s = (r, sent, s')"
  from write_loop_spec [of bs "[]" s] w obtain k where "sent = take k bs"
    by (auto simp: writex_def)
  then show "\<exists>k. sent = take k bs" by blast
  from write_loop_spec [of bs "[]" s] w show "r = 0 \<or> r = -1"
    by (auto simp: writex_def)
next
  fix bs s sent and s' :: wscript
  assume "writex bs s = (0, sent, s')"
  with write_loop_spec [of bs "[]" s] show "sent = bs"
    by (auto simp: writex_def split: if_splits)
qed

lemma writex_code: "fst (writex bs q) = (if writable q (length bs) then 0 else -1)"
  using write_loop_spec [of bs "[]" q] by (auto simp: writex_def)

lemma packet_pointer_transfer:
  assumes "length p = sizeof_ptr" "write_packet p wq = (0, sent, wq')" "readable rq = sent @ rest"
  shows "\<exists>rq'. read_packet rq = (0, p, rq') \<and> readable rq' = rest"
proof -
  from assms(1,2) have "writex p wq = (0, sent, wq')" by (simp add: write_packet_def writex_def)
  then have "sent = p" by (rule wx.wr_all)
  with assms rx.rd_exact [of rq p rest sizeof_ptr] show ?thesis
    by (simp add: read_packet_def readx_def)
qed

section \<open>Properties\<close>

text \<open>However the kernel cuts up the data and however often a call is interrupted, \<^verbatim>\<open>readx\<close> returns 0 exactly if
  the requested number of bytes can be read before end of file or an error; then it has stored exactly these
  bytes and left the rest, and otherwise it returns -1.\<close>

theorem readx_exact:
  "case readx n q of (r, bs, q') \<Rightarrow>
     (r = 0 \<and> n \<le> length (readable q) \<and> bs = take n (readable q) \<and> readable q' = drop n (readable q))
   \<or> (r = -1 \<and> length (readable q) < n \<and> bs = readable q)"
proof (cases "n \<le> length (readable q)")
  case True
  with rx.rd_ok [OF True] show ?thesis by auto
next
  case False
  with read_loop_short [of q n "[]"] show ?thesis by (auto simp: readx_def)
qed

text \<open>\<^verbatim>\<open>writex\<close> returns 0 exactly if the kernel takes all bytes, and then every byte has been handed over
  once and in order; otherwise it returns -1 after a prefix. Partial writes and interruptions are absorbed.\<close>

theorem writex_all_or_prefix:
  "case writex bs q of (r, sent, q') \<Rightarrow>
     (r = 0 \<and> writable q (length bs) \<and> sent = bs)
   \<or> (r = -1 \<and> \<not> writable q (length bs) \<and> (\<exists>k. sent = take k bs))"
  using write_loop_spec [of bs "[]" q] by (cases "writable q (length bs)") (auto simp: writex_def)

end
