(* ===== verification/Packet.thy ===== *)
theory Packet
  imports Fd_Io
begin

text \<open>
  The wire protocol: messages and packets of adb.h, sealing and checking in transport.c
  (\<^verbatim>\<open>send_packet\<close>, \<^verbatim>\<open>check_header\<close>, \<^verbatim>\<open>check_data\<close>), and the two functions of transport_local.c that
  put a packet on a socket and take it off again. The build is little-endian, so \<^verbatim>\<open>fix_endians\<close> is
  the empty macro and a message goes out as six little-endian words. A packet's \<open>data\<close> holds the
  bytes of the 4096-byte array that have been stored; the rest of the array is uninitialised memory.
\<close>

section \<open>Messages and packets\<close>

definition MAX_PAYLOAD :: nat where "MAX_PAYLOAD = 4096"

definition A_SYNC :: u32 where "A_SYNC = 0x434e5953"
definition A_CNXN :: u32 where "A_CNXN = 0x4e584e43"
definition A_OPEN :: u32 where "A_OPEN = 0x4e45504f"
definition A_OKAY :: u32 where "A_OKAY = 0x59414b4f"
definition A_CLSE :: u32 where "A_CLSE = 0x45534c43"
definition A_WRTE :: u32 where "A_WRTE = 0x45545257"
definition A_VERSION :: u32 where "A_VERSION = 0x01000000"

lemmas command_defs = A_SYNC_def A_CNXN_def A_OPEN_def A_OKAY_def A_CLSE_def A_WRTE_def

record amessage =
  command :: u32
  arg0 :: u32
  arg1 :: u32
  data_length :: u32
  data_check :: u32
  magic :: u32

record apacket =
  p_len :: nat
  p_ptr :: nat
  msg :: amessage
  data :: bytes

definition zero_msg :: amessage where
  "zero_msg = \<lparr>command = 0, arg0 = 0, arg1 = 0, data_length = 0, data_check = 0, magic = 0\<rparr>"

text \<open>\<^verbatim>\<open>get_apacket\<close> clears everything but the data array.\<close>

definition get_apacket :: apacket where
  "get_apacket = \<lparr>p_len = 0, p_ptr = 0, msg = zero_msg, data = []\<rparr>"

definition payload :: "apacket \<Rightarrow> bytes" where
  "payload p = take (unat (data_length (msg p))) (data p)"

text \<open>The header's length field says how much of the array counts: a packet is well formed if
  those bytes have been stored and fit.\<close>

definition wf_packet :: "apacket \<Rightarrow> bool" where
  "wf_packet p \<longleftrightarrow> unat (data_length (msg p)) \<le> length (data p) \<and> unat (data_length (msg p)) \<le> MAX_PAYLOAD"

section \<open>Sealing and checking\<close>

text \<open>The checksum loop: \<^verbatim>\<open>while(count-- > 0) sum += *x++\<close>.\<close>

fun sum_loop :: "nat \<Rightarrow> bytes \<Rightarrow> u32 \<Rightarrow> u32" where
  "sum_loop 0 x acc = acc"
| "sum_loop (Suc count) [] acc = acc"
| "sum_loop (Suc count) (c # x) acc = sum_loop count x (acc + of_nat (of_char c))"

text \<open>What \<^verbatim>\<open>send_packet\<close> writes into the packet before it hands it to the transport.\<close>

definition seal_packet :: "apacket \<Rightarrow> apacket" where
  "seal_packet p =
     (let m = (msg p)\<lparr>magic := command (msg p) XOR 0xffffffff\<rparr>;
          s = sum_loop (unat (data_length m)) (data p) 0
      in p\<lparr>msg := m\<lparr>data_check := s\<rparr>\<rparr>)"

definition check_header :: "apacket \<Rightarrow> int" where
  "check_header p =
     (if magic (msg p) \<noteq> command (msg p) XOR 0xffffffff then -1
      else if of_nat MAX_PAYLOAD < data_length (msg p) then -1
      else 0)"

definition check_data :: "apacket \<Rightarrow> int" where
  "check_data p =
     (let s = sum_loop (unat (data_length (msg p))) (data p) 0
      in if s \<noteq> data_check (msg p) then -1 else 0)"

section \<open>The socket transport\<close>

definition sizeof_amessage :: nat where "sizeof_amessage = 24"

definition amessage_bytes :: "amessage \<Rightarrow> bytes" where
  "amessage_bytes m = le32 (command m) @ le32 (arg0 m) @ le32 (arg1 m)
     @ le32 (data_length m) @ le32 (data_check m) @ le32 (magic m)"

definition amessage_of_bytes :: "bytes \<Rightarrow> amessage" where
  "amessage_of_bytes bs =
     \<lparr>command = un_le32 bs, arg0 = un_le32 (drop 4 bs), arg1 = un_le32 (drop 8 bs),
      data_length = un_le32 (drop 12 bs), data_check = un_le32 (drop 16 bs),
      magic = un_le32 (drop 20 bs)\<rparr>"

text \<open>\<^verbatim>\<open>remote_write\<close> of transport_local.c: header and payload lie next to each other in the struct
  and go out in one \<^verbatim>\<open>writex\<close>.\<close>

definition remote_write :: "apacket \<Rightarrow> wscript \<Rightarrow> int \<times> bytes \<times> wscript" where
  "remote_write p q =
     (let len = unat (data_length (msg p));
          (r, sent, q') = writex (take (sizeof_amessage + len) (amessage_bytes (msg p) @ data p)) q
      in if r \<noteq> 0 then (-1, sent, q') else (0, sent, q'))"

definition remote_read :: "apacket \<Rightarrow> rscript \<Rightarrow> int \<times> apacket \<times> rscript" where
  "remote_read p q =
     (case readx sizeof_amessage q of
        (r, hd_bytes, q1) \<Rightarrow>
          if r \<noteq> 0 then (-1, p, q1)
          else let p1 = p\<lparr>msg := amessage_of_bytes hd_bytes\<rparr> in
            if check_header p1 \<noteq> 0 then (-1, p1, q1)
            else (case readx (unat (data_length (msg p1))) q1 of
                (r, bs, q2) \<Rightarrow>
                  let p2 = p1\<lparr>data := bs\<rparr> in
                  if r \<noteq> 0 then (-1, p2, q2)
                  else if check_data p2 \<noteq> 0 then (-1, p2, q2)
                  else (0, p2, q2)))"

section \<open>Encoding facts\<close>

lemma sum_loop_byte_sum [wire]: "sum_loop n x s = s + byte_sum (take n x)"
  by (induction n x s rule: sum_loop.induct) simp_all

lemma length_amessage_bytes [simp, wire]: "length (amessage_bytes m) = sizeof_amessage"
  by (simp add: amessage_bytes_def sizeof_amessage_def)

lemma drop_le32 [wire]:
  "drop 4 (le32 a @ r) = r" "4 \<le> n \<Longrightarrow> drop n (le32 a @ r) = drop (n - 4) r"
  by simp_all

lemma amessage_of_bytes_inverse [simp, wire]: "amessage_of_bytes (amessage_bytes m) = m"
  using un_le32_le32 [of "magic m" "[]"]
  by (simp add: amessage_of_bytes_def amessage_bytes_def drop_le32)

lemma amessage_bytes_inverse [wire]:
  assumes "length bs = sizeof_amessage"
  shows "amessage_bytes (amessage_of_bytes bs) = bs"
proof -
  have four: "le32 (un_le32 (drop k bs)) = take 4 (drop k bs)" if "k + 4 \<le> 24" for k
    using assms that by (intro le32_un_le32) (simp add: sizeof_amessage_def)
  have split: "take 4 (drop k bs) @ drop (k + 4) bs = drop k bs" for k
    by (metis add.commute append_take_drop_id drop_drop)
  have "drop 24 bs = []" using assms by (simp add: sizeof_amessage_def)
  with split [of 0] split [of 4] split [of 8] split [of 12] split [of 16] split [of 20]
  have "take 4 bs @ take 4 (drop 4 bs) @ take 4 (drop 8 bs) @ take 4 (drop 12 bs)
      @ take 4 (drop 16 bs) @ take 4 (drop 20 bs) = bs" by simp
  then show ?thesis
    using four [of 0] four [of 4] four [of 8] four [of 12] four [of 16] four [of 20]
    by (simp add: amessage_bytes_def amessage_of_bytes_def)
qed

lemma length_payload [simp]: "wf_packet p \<Longrightarrow> length (payload p) = unat (data_length (msg p))"
  by (simp add: wf_packet_def payload_def)

lemma seal_packet_simps [simp]:
  "command (msg (seal_packet p)) = command (msg p)"
  "arg0 (msg (seal_packet p)) = arg0 (msg p)"
  "arg1 (msg (seal_packet p)) = arg1 (msg p)"
  "data_length (msg (seal_packet p)) = data_length (msg p)"
  "magic (msg (seal_packet p)) = command (msg p) XOR 0xffffffff"
  "data_check (msg (seal_packet p)) = byte_sum (payload p)"
  "data (seal_packet p) = data p"
  "p_len (seal_packet p) = p_len p" "p_ptr (seal_packet p) = p_ptr p"
  "payload (seal_packet p) = payload p"
  by (simp_all add: seal_packet_def Let_def payload_def sum_loop_byte_sum)

lemma wf_seal_packet [simp]: "wf_packet (seal_packet p) = wf_packet p"
  by (simp add: wf_packet_def)

lemma check_header_zero_iff:
  "check_header p = 0 \<longleftrightarrow>
     magic (msg p) = command (msg p) XOR 0xffffffff \<and> unat (data_length (msg p)) \<le> MAX_PAYLOAD"
  by (auto simp: check_header_def MAX_PAYLOAD_def word_less_nat_alt)

lemma check_data_zero_iff: "check_data p = 0 \<longleftrightarrow> data_check (msg p) = byte_sum (payload p)"
  by (auto simp: check_data_def Let_def sum_loop_byte_sum payload_def)

lemma seal_passes_checks:
  assumes "wf_packet p"
  shows "check_header (seal_packet p) = 0" "check_data (seal_packet p) = 0"
  using assms by (simp_all add: check_header_zero_iff check_data_zero_iff wf_packet_def)

definition packet_bytes :: "apacket \<Rightarrow> bytes" where
  "packet_bytes p = amessage_bytes (msg p) @ payload p"

lemma remote_write_bytes:
  "remote_write p q = (r, sent, q') \<Longrightarrow> r = 0 \<Longrightarrow> sent = packet_bytes p"
  using wx.wr_all [of "packet_bytes p" q]
  by (auto simp: remote_write_def packet_bytes_def payload_def Let_def split: prod.splits if_splits)

section \<open>Decoding, over any byte source\<close>

text \<open>
  Decoding needs of its reader only the laws of the locale \<open>byte_source\<close>; what is proved here holds for the socket
  transport through the interpretation on \<^verbatim>\<open>readx\<close>. (A USB link is no byte source, a read ends with a transfer: theory
  \<open>Usb_Transfer\<close> treats its \<^verbatim>\<open>remote_read\<close>.)
\<close>

definition read_apacket :: "(nat \<Rightarrow> 's \<Rightarrow> int \<times> bytes \<times> 's) \<Rightarrow> apacket \<Rightarrow> 's \<Rightarrow> int \<times> apacket \<times> 's" where
  "read_apacket rd p s =
     (case rd sizeof_amessage s of
        (r, hd_bytes, s1) \<Rightarrow>
          if r \<noteq> 0 then (-1, p, s1)
          else let p1 = p\<lparr>msg := amessage_of_bytes hd_bytes\<rparr> in
            if check_header p1 \<noteq> 0 then (-1, p1, s1)
            else (case rd (unat (data_length (msg p1))) s1 of
                (r, bs, s2) \<Rightarrow>
                  let p2 = p1\<lparr>data := bs\<rparr> in
                  if r \<noteq> 0 then (-1, p2, s2)
                  else if check_data p2 \<noteq> 0 then (-1, p2, s2)
                  else (0, p2, s2)))"

lemma remote_read_eq: "remote_read p q = read_apacket readx p q"
  by (simp add: remote_read_def read_apacket_def)

context byte_source
begin

lemma decode_accepts:
  assumes wf: "wf_packet p" and hdr: "check_header p = 0" and chk: "check_data p = 0"
    and view: "view s = packet_bytes p @ rest"
  shows "\<exists>s'. read_apacket rd p0 s = (0, p0\<lparr>msg := msg p, data := payload p\<rparr>, s') \<and> view s' = rest"
proof -
  from rd_exact [of s "amessage_bytes (msg p)" "payload p @ rest" sizeof_amessage] view
  obtain s1 where s1: "rd sizeof_amessage s = (0, amessage_bytes (msg p), s1)"
    "view s1 = payload p @ rest" by (auto simp: packet_bytes_def)
  from rd_exact [OF s1(2), of "unat (data_length (msg p))"] wf
  obtain s2 where s2: "rd (unat (data_length (msg p))) s1 = (0, payload p, s2)" "view s2 = rest"
    by auto
  have "check_header (p0\<lparr>msg := msg p\<rparr>) = 0" using hdr by (simp add: check_header_zero_iff)
  moreover have "check_data (p0\<lparr>msg := msg p, data := payload p\<rparr>) = 0"
    using chk wf by (simp add: check_data_zero_iff payload_def)
  ultimately show ?thesis using s1 s2 by (simp add: read_apacket_def)
qed

lemma decode_sound_view:
  assumes "read_apacket rd p0 s = (0, p, s')"
  shows "check_header p = 0 \<and> check_data p = 0 \<and> length (data p) = unat (data_length (msg p))
    \<and> wf_packet p \<and> view s = packet_bytes p @ view s'"
proof -
  obtain r hb s1 where a: "rd sizeof_amessage s = (r, hb, s1)" by (metis prod_cases3)
  let ?p1 = "p0\<lparr>msg := amessage_of_bytes hb\<rparr>"
  from assms a have h: "r = 0" "check_header ?p1 = 0"
    by (auto simp: read_apacket_def Let_def split: if_splits prod.splits)
  obtain r2 bs s2 where b: "rd (unat (data_length (msg ?p1))) s1 = (r2, bs, s2)" by (metis prod_cases3)
  from assms a b h have d: "r2 = 0" "check_data (?p1\<lparr>data := bs\<rparr>) = 0" "p = ?p1\<lparr>data := bs\<rparr>" "s' = s2"
    by (auto simp: read_apacket_def Let_def split: if_splits)
  from rd_result [of sizeof_amessage s hb s1] a h(1)
  have hb: "view s = hb @ view s1" "length hb = sizeof_amessage"
    by (metis append_take_drop_id, metis)
  from rd_result [of "unat (data_length (msg ?p1))" s1 bs s2] b d(1)
  have bs: "view s1 = bs @ view s2" "length bs = unat (data_length (msg ?p1))"
    by (metis append_take_drop_id, metis)
  have "view s = packet_bytes p @ view s'"
    using hb bs d by (simp add: packet_bytes_def payload_def amessage_bytes_inverse)
  with bs(2) h d show ?thesis
    by (auto simp: check_header_zero_iff check_data_zero_iff wf_packet_def payload_def)
qed

lemma decode_short:
  assumes "length (view s) < sizeof_amessage"
  shows "fst (read_apacket rd p0 s) = -1"
  using rd_short [OF assms] by (cases "rd sizeof_amessage s") (simp add: read_apacket_def)

end

section \<open>Properties\<close>

lemma byte_sum_update:
  assumes "i < length bs"
  shows "byte_sum (bs[i := c]) = byte_sum bs - of_nat (of_char (bs ! i)) + of_nat (of_char c)"
  using assms
proof (induction bs arbitrary: i)
  case (Cons b bs)
  then show ?case by (cases i) simp_all
qed simp

lemma byte_word_inj:
  assumes "(of_nat (of_char a) :: u32) = of_nat (of_char b)"
  shows "a = (b :: char)"
proof -
  have "(of_char a :: nat) = of_char b"
    using arg_cong [OF assms, of unat] of_char_le_255 [of a] of_char_le_255 [of b]
    by (simp add: unat_of_nat)
  then show ?thesis by simp
qed

definition sample_packet :: apacket where
  "sample_packet = get_apacket\<lparr>data := ''host'',
     msg := \<lparr>command = A_WRTE, arg0 = 3, arg1 = 4, data_length = 4, data_check = 0, magic = 0\<rparr>\<rparr>"

lemma sample_packet_wf: "wf_packet sample_packet"
  by (simp add: sample_packet_def wf_packet_def MAX_PAYLOAD_def)

text \<open>C1: A packet that \<^verbatim>\<open>send_packet\<close> has sealed and \<^verbatim>\<open>remote_write\<close> has put on a socket comes out of \<^verbatim>\<open>remote_read\<close>
  at the other end with the same header and payload, whatever pieces the bytes arrive in, and what follows it
  on the socket is left for the next read.\<close>

theorem packet_roundtrip:
  assumes "wf_packet p" "remote_write (seal_packet p) wq = (0, sent, wq')" "readable q = sent @ rest"
  shows "\<exists>q'. remote_read p0 q = (0, p0\<lparr>msg := msg (seal_packet p), data := payload p\<rparr>, q') \<and> readable q' = rest"
proof -
  have "sent = packet_bytes (seal_packet p)" using remote_write_bytes assms(2) by blast
  then show ?thesis
    using rx.decode_accepts [of "seal_packet p" q rest p0] seal_passes_checks [OF assms(1)] assms
    by (simp add: remote_read_eq)
qed

theorem packet_roundtrip_witness:
  "\<exists>q'. remote_read get_apacket
       [RErr EINTR, RData (take 10 (packet_bytes (seal_packet sample_packet))),
        RData (drop 10 (packet_bytes (seal_packet sample_packet)))]
     = (0, get_apacket\<lparr>msg := msg (seal_packet sample_packet), data := ''host''\<rparr>, q')"
proof -
  let ?b = "packet_bytes (seal_packet sample_packet)"
  have len: "length ?b = 28" by (simp add: packet_bytes_def sizeof_amessage_def sample_packet_wf) (simp add: sample_packet_def)
  have "writex ?b [WOk 28] = (0, ?b, [])"
    using len by (simp add: writex_def write_loop.simps) (metis length_0_conv zero_neq_numeral)
  then have w: "remote_write (seal_packet sample_packet) [WOk 28] = (0, ?b, [])"
    by (simp add: remote_write_def packet_bytes_def payload_def)
  have nn: "take 10 ?b \<noteq> []" "drop 10 ?b \<noteq> []" using len by auto
  have "readable [RErr EINTR, RData (take 10 ?b), RData (drop 10 ?b)] = ?b @ []"
    using nn by (simp del: take_eq_Nil drop_eq_Nil)
  from packet_roundtrip [OF sample_packet_wf w this, of get_apacket]
  show ?thesis by (auto simp: payload_def sample_packet_def)
qed

text \<open>C23: \<^verbatim>\<open>remote_read\<close> accepts nothing else: if it returns 0, the bytes it consumed are exactly the encoding of the
  packet it delivers, the magic word is the complement of the command, the payload fits the data array and
  its byte sum is the checksum of the header.\<close>

theorem remote_read_sound:
  assumes "remote_read p0 q = (0, p, q')"
  shows "readable q = packet_bytes p @ readable q'
    \<and> magic (msg p) = command (msg p) XOR 0xffffffff
    \<and> length (data p) = unat (data_length (msg p)) \<and> length (data p) \<le> MAX_PAYLOAD
    \<and> unat (data_check (msg p)) = sum_list (map of_char (data p))"
proof -
  from rx.decode_sound_view [of p0 q p q'] assms
  have h: "check_header p = 0" "check_data p = 0" "length (data p) = unat (data_length (msg p))"
    "readable q = packet_bytes p @ readable q'" by (simp_all add: remote_read_eq)
  then have "data_check (msg p) = byte_sum (data p)" "length (data p) \<le> 4096"
    by (simp_all add: check_data_zero_iff check_header_zero_iff payload_def MAX_PAYLOAD_def)
  then show ?thesis using h byte_sum_bound [of "data p"]
    by (simp add: check_header_zero_iff MAX_PAYLOAD_def)
qed

theorem remote_read_sound_witness:
  "\<exists>p q'. remote_read get_apacket [RData (packet_bytes (seal_packet sample_packet))] = (0, p, q')
     \<and> unat (data_check (msg p)) = sum_list (map of_char (data p))"
proof -
  let ?b = "packet_bytes (seal_packet sample_packet)"
  have ne: "?b \<noteq> []" by (simp add: packet_bytes_def amessage_bytes_def le32_def Let_def)
  obtain q' where r: "remote_read get_apacket [RData ?b]
      = (0, get_apacket\<lparr>msg := msg (seal_packet sample_packet), data := payload sample_packet\<rparr>, q')"
    using rx.decode_accepts [of "seal_packet sample_packet" "[RData ?b]" "[]" get_apacket] ne
      seal_passes_checks [OF sample_packet_wf] sample_packet_wf by (auto simp: remote_read_eq)
  from remote_read_sound [OF r] r show ?thesis by blast
qed

text \<open>C24: The checksum catches any damage to a single payload byte: if one byte of a sealed packet's payload changes
  on the way, \<^verbatim>\<open>remote_read\<close> refuses the packet.\<close>

theorem corrupted_byte_rejected:
  assumes wf: "wf_packet p" and i: "i < length (payload p)" and c: "c \<noteq> payload p ! i"
    and q: "readable q = amessage_bytes (msg (seal_packet p)) @ (payload p)[i := c] @ rest"
  shows "fst (remote_read p0 q) = -1"
proof (rule ccontr)
  assume "fst (remote_read p0 q) \<noteq> -1"
  then have "fst (remote_read p0 q) = 0"
    by (auto simp: remote_read_def Let_def split: prod.splits if_splits)
  then obtain p' q' where r: "remote_read p0 q = (0, p', q')" by (cases "remote_read p0 q") auto
  from rx.decode_sound_view [of p0 q p' q'] r have d: "check_data p' = 0"
    "length (data p') = unat (data_length (msg p'))" "readable q = packet_bytes p' @ readable q'"
    by (simp_all add: remote_read_eq)
  have msg: "amessage_bytes (msg p') = amessage_bytes (msg (seal_packet p))"
    and rest: "payload p' @ readable q' = (payload p)[i := c] @ rest"
    using d(3) q by (simp_all add: packet_bytes_def append_eq_append_conv)
  then have m: "msg p' = msg (seal_packet p)" by (metis amessage_of_bytes_inverse)
  have "payload p' = (payload p)[i := c]"
    using rest d(2) wf by (simp add: payload_def m wf_packet_def append_eq_append_conv)
  then have "byte_sum ((payload p)[i := c]) = byte_sum (payload p)"
    using d(1) by (simp add: check_data_zero_iff m)
  then have "(of_nat (of_char c) :: u32) = of_nat (of_char (payload p ! i))"
    using byte_sum_update [OF i, of c] by (simp add: algebra_simps)
  with c byte_word_inj show False by blast
qed

theorem corrupted_byte_rejected_witness:
  "fst (remote_read get_apacket [RData (amessage_bytes (msg (seal_packet sample_packet)) @ ''hosT'')]) = -1"
proof -
  have pl: "payload sample_packet = ''host''" by (simp add: payload_def sample_packet_def)
  have ne: "amessage_bytes m \<noteq> []" for m by (simp add: amessage_bytes_def le32_def Let_def)
  show ?thesis
    by (rule corrupted_byte_rejected [OF sample_packet_wf, of 3 "CHR ''T''" _ "[]"])
      (simp_all add: pl ne)
qed

end
