(* ===== verification/Fdevent.thy ===== *)
theory Fdevent
  imports Intrusive_List Fd_Io
begin

text \<open>
  The event loop of fdevent.c in its \<^verbatim>\<open>select\<close> variant: fdevents with a 16-bit state word, the
  table from descriptors to fdevents, the list of pending fdevents and the three descriptor sets.
  The pending list is used through its list view (theory \<open>Intrusive_List\<close> has the pointer code).
  Every \<^verbatim>\<open>FATAL\<close> and every access outside an array is a fault of the model.
\<close>

section \<open>State\<close>

definition FDE_READ :: u16 where "FDE_READ = 0x0001"
definition FDE_WRITE :: u16 where "FDE_WRITE = 0x0002"
definition FDE_ERROR :: u16 where "FDE_ERROR = 0x0004"
definition FDE_TIMEOUT :: u16 where "FDE_TIMEOUT = 0x0008"
definition FDE_DONT_CLOSE :: u16 where "FDE_DONT_CLOSE = 0x0080"
definition FDE_EVENTMASK :: u16 where "FDE_EVENTMASK = 0x00ff"
definition FDE_STATEMASK :: u16 where "FDE_STATEMASK = 0xff00"
definition FDE_ACTIVE :: u16 where "FDE_ACTIVE = 0x0100"
definition FDE_PENDING :: u16 where "FDE_PENDING = 0x0200"
definition FDE_CREATED :: u16 where "FDE_CREATED = 0x0400"

text \<open>The callbacks the sources install.\<close>

datatype fd_func =
    Local_socket_event_func
  | Ss_listener_event_func
  | Listener_event_func
  | Transport_socket_events
  | Transport_registration_func
  | Fdevent_subproc_event_func

record fdevent =
  fde_fd :: int
  force_eof :: bool
  fde_state :: u16
  fde_events :: u16
  fde_func :: fd_func
  fde_arg :: addr

record fdstate =
  fdes :: "addr \<rightharpoonup> fdevent"
  pending :: "addr list"
  fd_table :: "addr option list"
  read_fds :: "nat set"
  write_fds :: "nat set"
  error_fds :: "nat set"
  select_n :: nat
  closed_fds :: "nat list"

definition fdstate_init :: fdstate where
  "fdstate_init = \<lparr>fdes = Map.empty, pending = [], fd_table = [], read_fds = {}, write_fds = {},
     error_fds = {}, select_n = 0, closed_fds = []\<rparr>"

definition has :: "u16 \<Rightarrow> u16 \<Rightarrow> bool" where
  "has w m \<longleftrightarrow> w AND m \<noteq> 0"

definition FD_SETSIZE :: nat where "FD_SETSIZE = 1024"

definition fetch :: "addr \<Rightarrow> fdstate \<Rightarrow> fdevent res" where
  "fetch a S = (case fdes S a of None \<Rightarrow> Inl (UseAfterFree a) | Some f \<Rightarrow> Inr f)"

definition store :: "addr \<Rightarrow> fdevent \<Rightarrow> fdstate \<Rightarrow> fdstate" where
  "store a f S = S\<lparr>fdes := (fdes S)(a \<mapsto> f)\<rparr>"

section \<open>The descriptor table\<close>

text \<open>\<^verbatim>\<open>while(fd_table_max <= fde->fd) fd_table_max *= 2\<close>.\<close>

function grow :: "nat \<Rightarrow> nat \<Rightarrow> nat" where
  "grow mx fd = (if 0 < mx \<and> mx \<le> fd then grow (2 * mx) fd else mx)"
  by pat_completeness auto
termination by (relation "measure (\<lambda>(mx, fd). fd + 1 - mx)") auto

declare grow.simps [simp del]

definition fdevent_register :: "addr \<Rightarrow> fdstate \<Rightarrow> fdstate res" where
  "fdevent_register a S =
     rbind (fetch a S) (\<lambda>f.
       if fde_fd f < 0 then Inl (Fatal ''bogus negative fd'')
       else
         let i = nat (fde_fd f); mx = length (fd_table S) in
         if mx \<le> i then
           if 32000 < fde_fd f then Inl (Fatal ''bogus huuuuge fd'')
           else
             let S1 = (if mx = 0 then S\<lparr>read_fds := {}, write_fds := {}, error_fds := {}\<rparr> else S);
                 mx' = grow (if mx = 0 then 256 else mx) i;
                 tab = fd_table S1 @ replicate (mx' - mx) None
             in Inr (S1\<lparr>fd_table := tab[i := Some a]\<rparr>)
         else Inr (S\<lparr>fd_table := (fd_table S)[i := Some a]\<rparr>))"

definition fdevent_unregister :: "addr \<Rightarrow> fdstate \<Rightarrow> fdstate res" where
  "fdevent_unregister a S =
     rbind (fetch a S) (\<lambda>f.
       if fde_fd f < 0 \<or> int (length (fd_table S)) \<le> fde_fd f then Inl (Fatal ''fd out of range'')
       else
         let i = nat (fde_fd f) in
         if fd_table S ! i \<noteq> Some a then Inl (Fatal ''fd_table out of sync'')
         else
           let S1 = S\<lparr>fd_table := (fd_table S)[i := None]\<rparr> in
           if \<not> has (fde_state f) FDE_DONT_CLOSE then Inr (S1\<lparr>closed_fds := closed_fds S1 @ [i]\<rparr>)
           else Inr S1)"

definition fdevent_connect :: "addr \<Rightarrow> fdstate \<Rightarrow> fdstate res" where
  "fdevent_connect a S =
     rbind (fetch a S) (\<lambda>f.
       if int (select_n S) \<le> fde_fd f then Inr (S\<lparr>select_n := nat (fde_fd f + 1)\<rparr>) else Inr S)"

text \<open>The scan \<^verbatim>\<open>for(n = 0, i = 0; i < select_n; i++) if(fd_table[i] != 0) n = i\<close>.\<close>

definition last_used :: "fdstate \<Rightarrow> nat" where
  "last_used S = fold (\<lambda>i n. if fd_table S ! i \<noteq> None then i else n) [0..<select_n S] 0"

definition fdevent_disconnect :: "addr \<Rightarrow> fdstate \<Rightarrow> fdstate res" where
  "fdevent_disconnect a S =
     rbind (fetch a S) (\<lambda>f.
       let i = nat (fde_fd f) in
       if FD_SETSIZE \<le> i then Inl BufferOverflow
       else
         let S1 = S\<lparr>read_fds := read_fds S - {i}, write_fds := write_fds S - {i},
                    error_fds := error_fds S - {i}\<rparr>
         in Inr (S1\<lparr>select_n := last_used S1 + 1\<rparr>))"

definition set_bit_in :: "bool \<Rightarrow> nat \<Rightarrow> nat set \<Rightarrow> nat set" where
  "set_bit_in b i X = (if b then insert i X else X - {i})"

definition fdevent_update :: "addr \<Rightarrow> u16 \<Rightarrow> fdstate \<Rightarrow> fdstate res" where
  "fdevent_update a ev S =
     rbind (fetch a S) (\<lambda>f.
       let i = nat (fde_fd f) in
       if FD_SETSIZE \<le> i then Inl BufferOverflow
       else
         let S1 = S\<lparr>read_fds := set_bit_in (has ev FDE_READ) i (read_fds S),
                    write_fds := set_bit_in (has ev FDE_WRITE) i (write_fds S),
                    error_fds := set_bit_in (has ev FDE_ERROR) i (error_fds S)\<rparr>
         in Inr (store a (f\<lparr>fde_state := (fde_state f AND FDE_STATEMASK) OR ev\<rparr>) S1))"

section \<open>Installing, removing, changing interest\<close>

definition fdevent_install :: "addr \<Rightarrow> int \<Rightarrow> fd_func \<Rightarrow> addr \<Rightarrow> fdstate \<Rightarrow> fdstate res" where
  "fdevent_install a fd func arg S =
     (let f = \<lparr>fde_fd = fd, force_eof = False, fde_state = FDE_ACTIVE, fde_events = 0,
               fde_func = func, fde_arg = arg\<rparr> in
      rbind (fdevent_register a (store a f S)) (\<lambda>S1.
      rbind (fdevent_connect a S1) (\<lambda>S2.
      rbind (fetch a S2) (\<lambda>f2.
        Inr (store a (f2\<lparr>fde_state := fde_state f2 OR FDE_ACTIVE\<rparr>) S2)))))"

definition fdevent_create :: "addr \<Rightarrow> int \<Rightarrow> fd_func \<Rightarrow> addr \<Rightarrow> fdstate \<Rightarrow> fdstate res" where
  "fdevent_create a fd func arg S =
     rbind (fdevent_install a fd func arg S) (\<lambda>S1.
     rbind (fetch a S1) (\<lambda>f.
       Inr (store a (f\<lparr>fde_state := fde_state f OR FDE_CREATED\<rparr>) S1)))"

definition fdevent_remove :: "addr \<Rightarrow> fdstate \<Rightarrow> fdstate res" where
  "fdevent_remove a S =
     rbind (fetch a S) (\<lambda>f.
       let S1 = (if has (fde_state f) FDE_PENDING then S\<lparr>pending := remove1 a (pending S)\<rparr> else S) in
       rbind (if has (fde_state f) FDE_ACTIVE
              then rbind (fdevent_disconnect a S1) (fdevent_unregister a) else Inr S1) (\<lambda>S2.
       Inr (store a (f\<lparr>fde_state := 0, fde_events := 0\<rparr>) S2)))"

definition fdevent_destroy :: "addr \<Rightarrow> fdstate \<Rightarrow> fdstate res" where
  "fdevent_destroy a S =
     rbind (fetch a S) (\<lambda>f.
       if \<not> has (fde_state f) FDE_CREATED then Inl (Fatal ''fde not created by fdevent_create()'')
       else fdevent_remove a S)"

definition fdevent_set :: "addr \<Rightarrow> u16 \<Rightarrow> fdstate \<Rightarrow> fdstate res" where
  "fdevent_set a evs S =
     (let ev = evs AND FDE_EVENTMASK in
      rbind (fetch a S) (\<lambda>f.
        if fde_state f AND FDE_EVENTMASK = ev then Inr S
        else
          rbind (if has (fde_state f) FDE_ACTIVE then fdevent_update a ev S else Inr S) (\<lambda>S1.
          rbind (fetch a S1) (\<lambda>f1.
            let f2 = f1\<lparr>fde_state := (fde_state f1 AND FDE_STATEMASK) OR ev\<rparr> in
            if has (fde_state f2) FDE_PENDING then
              let f3 = f2\<lparr>fde_events := fde_events f2 AND NOT ev\<rparr> in
              if fde_events f3 = 0 then
                Inr (store a (f3\<lparr>fde_state := fde_state f3 AND NOT FDE_PENDING\<rparr>)
                       (S1\<lparr>pending := remove1 a (pending S1)\<rparr>))
              else Inr (store a f3 S1)
            else Inr (store a f2 S1)))))"

definition fdevent_add :: "addr \<Rightarrow> u16 \<Rightarrow> fdstate \<Rightarrow> fdstate res" where
  "fdevent_add a ev S =
     rbind (fetch a S) (\<lambda>f.
       fdevent_set a ((fde_state f AND FDE_EVENTMASK) OR (ev AND FDE_EVENTMASK)) S)"

definition fdevent_del :: "addr \<Rightarrow> u16 \<Rightarrow> fdstate \<Rightarrow> fdstate res" where
  "fdevent_del a ev S =
     rbind (fetch a S) (\<lambda>f.
       fdevent_set a ((fde_state f AND FDE_EVENTMASK) AND NOT (ev AND FDE_EVENTMASK)) S)"

section \<open>One round of the loop\<close>

text \<open>\<^verbatim>\<open>fdevent_fd_check\<close>: the registered descriptors \<open>fcntl\<close> refuses.\<close>

definition fdevent_fd_check :: "(nat \<Rightarrow> bool) \<Rightarrow> nat set \<Rightarrow> fdstate \<Rightarrow> nat set \<times> nat" where
  "fdevent_fd_check bad fds S =
     fold (\<lambda>i (X, n). if fd_table S ! i \<noteq> None \<and> bad i then (insert i X, n + 1) else (X, n))
       [0..<select_n S] (fds, 0)"

definition events_at :: "nat set \<Rightarrow> nat set \<Rightarrow> nat set \<Rightarrow> nat \<Rightarrow> u16" where
  "events_at rfd wfd efd i =
     (if i \<in> rfd then FDE_READ else 0) OR (if i \<in> wfd then FDE_WRITE else 0)
       OR (if i \<in> efd then FDE_ERROR else 0)"

definition hits_at :: "nat set \<Rightarrow> nat set \<Rightarrow> nat set \<Rightarrow> nat \<Rightarrow> nat" where
  "hits_at rfd wfd efd i =
     (if i \<in> rfd then 1 else 0) + (if i \<in> wfd then 1 else 0) + (if i \<in> efd then 1 else 0)"

definition post_events :: "nat \<Rightarrow> u16 \<Rightarrow> fdstate \<Rightarrow> fdstate res" where
  "post_events i ev S =
     (case fd_table S ! i of
        None \<Rightarrow> Inl (Fatal ''missing fde for fd'')
      | Some a \<Rightarrow>
          rbind (fetch a S) (\<lambda>f.
            let f1 = f\<lparr>fde_events := fde_events f OR ev\<rparr> in
            if has (fde_state f1) FDE_PENDING then Inr (store a f1 S)
            else Inr (store a (f1\<lparr>fde_state := fde_state f1 OR FDE_PENDING\<rparr>)
                        (S\<lparr>pending := pending S @ [a]\<rparr>))))"

text \<open>\<^verbatim>\<open>for(i = 0; (i < select_n) && (n > 0); i++)\<close>; \<open>is\<close> are the indices still to come.\<close>

fun scan_fds :: "nat list \<Rightarrow> int \<Rightarrow> nat set \<Rightarrow> nat set \<Rightarrow> nat set \<Rightarrow> fdstate \<Rightarrow> fdstate res" where
  "scan_fds [] n rfd wfd efd S = Inr S"
| "scan_fds (i # is) n rfd wfd efd S =
     (if n \<le> 0 then Inr S
      else
        let ev = events_at rfd wfd efd i; n' = n - int (hits_at rfd wfd efd i) in
        rbind (if ev \<noteq> 0 then post_events i ev S else Inr S) (scan_fds is n' rfd wfd efd))"

text \<open>The answer of \<^verbatim>\<open>select\<close>: a count with the three sets cut down, or an error.\<close>

datatype select_result =
    Selected int "nat set" "nat set" "nat set"
  | Select_EINTR
  | Select_EBADF
  | Select_other

definition fdevent_process :: "select_result \<Rightarrow> (nat \<Rightarrow> bool) \<Rightarrow> fdstate \<Rightarrow> fdstate res" where
  "fdevent_process sel bad S =
     (if FD_SETSIZE < select_n S then Inl BufferOverflow
      else case sel of
        Select_EINTR \<Rightarrow> Inr S
      | Select_other \<Rightarrow> Inr S
      | Select_EBADF \<Rightarrow>
          (case fdevent_fd_check bad {} S of
             (rfd, n) \<Rightarrow> scan_fds [0..<select_n S] (int n) rfd {} {} S)
      | Selected n rfd wfd efd \<Rightarrow>
          (if n \<le> 0 then
             (case fdevent_fd_check bad rfd S of
                (rfd', n') \<Rightarrow> scan_fds [0..<select_n S] (int n') rfd' wfd efd S)
           else scan_fds [0..<select_n S] n rfd wfd efd S))"

definition fdevent_plist_dequeue :: "fdstate \<Rightarrow> addr option \<times> fdstate" where
  "fdevent_plist_dequeue S =
     (case pending S of [] \<Rightarrow> (None, S) | a # as \<Rightarrow> (Some a, S\<lparr>pending := as\<rparr>))"

text \<open>
  \<^verbatim>\<open>fdevent_call_fdfunc\<close> up to the call: the result says which callback is called with which
  descriptor, events and argument, if any.
\<close>

type_synonym fdcall = "fd_func \<times> int \<times> u16 \<times> addr"

definition fdevent_call_fdfunc :: "addr \<Rightarrow> fdstate \<Rightarrow> (fdcall option \<times> fdstate) res" where
  "fdevent_call_fdfunc a S =
     rbind (fetch a S) (\<lambda>f.
       let ev = fde_events f; f1 = f\<lparr>fde_events := 0\<rparr> in
       if \<not> has (fde_state f1) FDE_PENDING then Inr (None, store a f1 S)
       else Inr (Some (fde_func f, fde_fd f, ev, fde_arg f),
                 store a (f1\<lparr>fde_state := fde_state f1 AND NOT FDE_PENDING\<rparr>) S))"

text \<open>One turn of the inner loop of \<^verbatim>\<open>fdevent_loop\<close>; \<open>None\<close> when nothing is pending.\<close>

definition fdevent_next :: "fdstate \<Rightarrow> (fdcall option \<times> fdstate) option res" where
  "fdevent_next S =
     (case fdevent_plist_dequeue S of
        (None, S1) \<Rightarrow> Inr None
      | (Some a, S1) \<Rightarrow> rbind (fdevent_call_fdfunc a S1) (\<lambda>r. Inr (Some r)))"

text \<open>
  \<^verbatim>\<open>fdevent_subproc_event_func\<close>: a shell service has exited and says so through the notify socket.
  \<open>q\<close> is what the notify socket delivers, \<open>rcount\<close> what \<^verbatim>\<open>FIONREAD\<close> answers for a descriptor;
  the result names the callback that is called at the end, if one is.
\<close>

definition fdevent_subproc_event_func ::
    "int \<Rightarrow> u16 \<Rightarrow> rscript \<Rightarrow> (int \<Rightarrow> int) \<Rightarrow> fdstate \<Rightarrow> (fdcall option \<times> rscript \<times> fdstate) res" where
  "fdevent_subproc_event_func fd ev q rcount S =
     (if fd < 0 \<or> int (length (fd_table S)) \<le> fd then Inl (Fatal ''out of range for fd_table'')
      else case fd_table S ! nat fd of
        None \<Rightarrow> Inl NullDeref
      | Some a \<Rightarrow>
          rbind (fdevent_add a FDE_READ S) (\<lambda>S1.
            if \<not> has ev FDE_READ then Inr (None, q, S1)
            else case readx 4 q of
              (r, bs, q1) \<Rightarrow>
                if r \<noteq> 0 then Inl (Fatal ''Failed to read the subproc fd'')
                else
                  let sfd = sint (un_le32 bs) in
                  if sfd < 0 \<or> int (length (fd_table S1)) \<le> sfd then Inr (None, q1, S1)
                  else case fd_table S1 ! nat sfd of
                    None \<Rightarrow> Inr (None, q1, S1)
                  | Some b \<Rightarrow>
                      rbind (fetch b S1) (\<lambda>g.
                        if fde_fd g \<noteq> sfd then Inr (None, q1, S1)
                        else
                          let g1 = g\<lparr>force_eof := True\<rparr> in
                          if rcount sfd \<noteq> 0 then Inr (None, q1, store b g1 S1)
                          else
                            let g2 = g1\<lparr>fde_events := fde_events g1 OR FDE_READ\<rparr> in
                            if has (fde_state g2) FDE_PENDING then Inr (None, q1, store b g2 S1)
                            else
                              rbind (fdevent_call_fdfunc b
                                  (store b (g2\<lparr>fde_state := fde_state g2 OR FDE_PENDING\<rparr>) S1))
                                (\<lambda>(c, S2). Inr (c, q1, S2)))))"

text \<open>\<^verbatim>\<open>fdevent_subproc_setup\<close>: \<open>pair\<close> is what \<^verbatim>\<open>adb_socketpair\<close> yields, \<open>a\<close> the new fdevent.
  The first end becomes \<^verbatim>\<open>SHELL_EXIT_NOTIFY_FD\<close>.\<close>

definition fdevent_subproc_setup :: "(int \<times> int) option \<Rightarrow> addr \<Rightarrow> fdstate \<Rightarrow> (int \<times> fdstate) res" where
  "fdevent_subproc_setup pair a S =
     (case pair of
        None \<Rightarrow> Inl (Fatal ''cannot create shell-exit socket-pair'')
      | Some (s0, s1) \<Rightarrow>
          rbind (fdevent_create a s1 Fdevent_subproc_event_func 0 S) (\<lambda>S1.
          rbind (fdevent_add a FDE_READ S1) (\<lambda>S2. Inr (s0, S2))))"

section \<open>Bits of the state word\<close>

lemmas fde_consts = FDE_READ_def FDE_WRITE_def FDE_ERROR_def FDE_TIMEOUT_def FDE_DONT_CLOSE_def
  FDE_EVENTMASK_def FDE_STATEMASK_def FDE_ACTIVE_def FDE_PENDING_def FDE_CREATED_def

lemma has_bit:
  "has w FDE_READ \<longleftrightarrow> bit w 0" "has w FDE_WRITE \<longleftrightarrow> bit w 1" "has w FDE_ERROR \<longleftrightarrow> bit w 2"
  "has w FDE_DONT_CLOSE \<longleftrightarrow> bit w 7" "has w FDE_ACTIVE \<longleftrightarrow> bit w 8"
  "has w FDE_PENDING \<longleftrightarrow> bit w 9" "has w FDE_CREATED \<longleftrightarrow> bit w 10"
proof -
  have *: "has w (2 ^ n) \<longleftrightarrow> bit w n" for n
    by (simp add: has_def and_exp_eq_0_iff_not_bit)
  show "has w FDE_READ \<longleftrightarrow> bit w 0" "has w FDE_WRITE \<longleftrightarrow> bit w 1" "has w FDE_ERROR \<longleftrightarrow> bit w 2"
    "has w FDE_DONT_CLOSE \<longleftrightarrow> bit w 7" "has w FDE_ACTIVE \<longleftrightarrow> bit w 8"
    "has w FDE_PENDING \<longleftrightarrow> bit w 9" "has w FDE_CREATED \<longleftrightarrow> bit w 10"
    using * [of 0] * [of 1] * [of 2] * [of 7] * [of 8] * [of 9] * [of 10]
    by (simp_all add: fde_consts)
qed

lemma bit_fde_const:
  "bit FDE_READ n \<longleftrightarrow> n = 0" "bit FDE_WRITE n \<longleftrightarrow> n = 1" "bit FDE_ERROR n \<longleftrightarrow> n = 2"
  "bit FDE_ACTIVE n \<longleftrightarrow> n = 8" "bit FDE_PENDING n \<longleftrightarrow> n = 9" "bit FDE_CREATED n \<longleftrightarrow> n = 10"
  "bit FDE_EVENTMASK n \<longleftrightarrow> n < 8" "bit FDE_STATEMASK n \<longleftrightarrow> 8 \<le> n \<and> n < 16"
proof -
  have e: "FDE_READ = 2 ^ 0" "FDE_WRITE = 2 ^ 1" "FDE_ERROR = 2 ^ 2" "FDE_ACTIVE = 2 ^ 8"
    "FDE_PENDING = 2 ^ 9" "FDE_CREATED = 2 ^ 10" "FDE_EVENTMASK = mask 8"
    "FDE_STATEMASK = push_bit 8 (mask 8)"
    by (simp_all add: fde_consts mask_eq_exp_minus_1 push_bit_eq_mult)
  have *: "bit (2 ^ k :: u16) n \<longleftrightarrow> n = k" if "k < 16" for k
    using that by (auto simp: bit_exp_iff)
  show "bit FDE_READ n \<longleftrightarrow> n = 0" "bit FDE_WRITE n \<longleftrightarrow> n = 1" "bit FDE_ERROR n \<longleftrightarrow> n = 2"
    "bit FDE_ACTIVE n \<longleftrightarrow> n = 8" "bit FDE_PENDING n \<longleftrightarrow> n = 9" "bit FDE_CREATED n \<longleftrightarrow> n = 10"
    "bit FDE_EVENTMASK n \<longleftrightarrow> n < 8" "bit FDE_STATEMASK n \<longleftrightarrow> 8 \<le> n \<and> n < 16"
    unfolding e
    using * [of 0] * [of 1] * [of 2] * [of 8] * [of 9] * [of 10]
    by (auto simp: bit_mask_iff bit_push_bit_iff simp del: power_numeral power_0 power_one_right)
qed

lemmas fde_bits = has_bit bit_fde_const bit_simps

section \<open>The invariant\<close>

definition active :: "fdevent \<Rightarrow> bool" where
  "active f \<longleftrightarrow> has (fde_state f) FDE_ACTIVE"

definition is_pending :: "fdevent \<Rightarrow> bool" where
  "is_pending f \<longleftrightarrow> has (fde_state f) FDE_PENDING"

text \<open>What an active fdevent is promised: it sits in the table under its descriptor, \<^verbatim>\<open>select\<close> looks
  that far, and the three sets hold the descriptor exactly for the events in its state word.\<close>

definition fde_ok :: "fdstate \<Rightarrow> addr \<Rightarrow> fdevent \<Rightarrow> bool" where
  "fde_ok S a f \<longleftrightarrow>
     (let i = nat (fde_fd f) in
      0 \<le> fde_fd f \<and> i < FD_SETSIZE \<and> i < select_n S \<and> i < length (fd_table S)
      \<and> fd_table S ! i = Some a
      \<and> (i \<in> read_fds S \<longleftrightarrow> has (fde_state f) FDE_READ)
      \<and> (i \<in> write_fds S \<longleftrightarrow> has (fde_state f) FDE_WRITE)
      \<and> (i \<in> error_fds S \<longleftrightarrow> has (fde_state f) FDE_ERROR))"

definition used_fds :: "fdstate \<Rightarrow> nat set" where
  "used_fds S = {i. i < length (fd_table S) \<and> fd_table S ! i \<noteq> None}"

definition fd_inv :: "fdstate \<Rightarrow> bool" where
  "fd_inv S \<longleftrightarrow>
     (\<forall>a f. fdes S a = Some f \<longrightarrow> active f \<longrightarrow> fde_ok S a f)
   \<and> (\<forall>i \<in> used_fds S. \<exists>a f. fd_table S ! i = Some a \<and> fdes S a = Some f \<and> active f \<and> fde_fd f = int i)
   \<and> read_fds S \<subseteq> used_fds S \<and> write_fds S \<subseteq> used_fds S \<and> error_fds S \<subseteq> used_fds S
   \<and> select_n S \<le> min (length (fd_table S)) FD_SETSIZE
   \<and> distinct (pending S)
   \<and> (\<forall>a. a \<in> set (pending S) \<longleftrightarrow> (\<exists>f. fdes S a = Some f \<and> is_pending f))
   \<and> (\<forall>a f. fdes S a = Some f \<longrightarrow> is_pending f \<longrightarrow> active f)"

lemma fd_inv_init: "fd_inv fdstate_init"
  by (simp add: fd_inv_def fdstate_init_def used_fds_def)

lemma fd_invD:
  assumes "fd_inv S"
  shows "fdes S a = Some f \<Longrightarrow> active f \<Longrightarrow> fde_ok S a f"
    and "i \<in> used_fds S \<Longrightarrow> \<exists>a f. fd_table S ! i = Some a \<and> fdes S a = Some f \<and> active f \<and> fde_fd f = int i"
    and "read_fds S \<subseteq> used_fds S" "write_fds S \<subseteq> used_fds S" "error_fds S \<subseteq> used_fds S"
    and "select_n S \<le> min (length (fd_table S)) FD_SETSIZE" "distinct (pending S)"
    and "a \<in> set (pending S) \<longleftrightarrow> (\<exists>f. fdes S a = Some f \<and> is_pending f)"
    and "fdes S a = Some f \<Longrightarrow> is_pending f \<Longrightarrow> active f"
  using assms unfolding fd_inv_def by blast+

lemma active_same_fd:
  assumes "fd_inv S" "fdes S a = Some f" "active f" "fdes S b = Some g" "active g" "fde_fd g = fde_fd f"
  shows "b = a"
  using fd_invD(1) [OF assms(1,2,3)] fd_invD(1) [OF assms(1,4,5)] assms(6)
  by (simp add: fde_ok_def Let_def)

text \<open>An active fdevent changes its event bits or its pending flag, the sets and the list follow.\<close>

lemma fd_inv_change:
  assumes inv: "fd_inv S" and f: "fdes S a = Some f" "active f"
    and S': "fdes S' = (fdes S)(a \<mapsto> f')" "fd_table S' = fd_table S" "select_n S' = select_n S"
    and f': "fde_fd f' = fde_fd f" "active f'"
    and sets: "read_fds S' = set_bit_in (has (fde_state f') FDE_READ) (nat (fde_fd f)) (read_fds S)"
      "write_fds S' = set_bit_in (has (fde_state f') FDE_WRITE) (nat (fde_fd f)) (write_fds S)"
      "error_fds S' = set_bit_in (has (fde_state f') FDE_ERROR) (nat (fde_fd f)) (error_fds S)"
    and pend: "pending S' = (if is_pending f' then if a \<in> set (pending S) then pending S
                 else pending S @ [a] else remove1 a (pending S))"
  shows "fd_inv S'"
proof -
  note D = fd_invD [OF inv]
  have ok: "fde_ok S a f" using D(1) f by blast
  have used: "used_fds S' = used_fds S" by (simp add: used_fds_def S')
  have here: "nat (fde_fd f) \<in> used_fds S" using ok by (simp add: fde_ok_def used_fds_def Let_def)
  have "fde_ok S' b g" if "fdes S' b = Some g" "active g" for b g
  proof (cases "b = a")
    case True
    with that have "g = f'" by (simp add: S')
    then show ?thesis using True ok by (simp add: S' f' sets fde_ok_def set_bit_in_def Let_def)
  next
    case False
    then have g: "fdes S b = Some g" using that by (simp add: S')
    have "nat (fde_fd g) \<noteq> nat (fde_fd f)"
      using D(1) [OF g that(2)] ok False by (auto simp: fde_ok_def Let_def)
    then show ?thesis
      using D(1) [OF g that(2)] by (simp add: fde_ok_def S' sets set_bit_in_def Let_def)
  qed
  moreover have "\<exists>b g. fd_table S' ! i = Some b \<and> fdes S' b = Some g \<and> active g \<and> fde_fd g = int i"
    if "i \<in> used_fds S'" for i
    using D(2) [of i] that f f' by (auto simp: used S')
  moreover have "read_fds S' \<subseteq> used_fds S'" "write_fds S' \<subseteq> used_fds S'" "error_fds S' \<subseteq> used_fds S'"
    using D(3,4,5) here by (auto simp: used sets set_bit_in_def)
  moreover have "distinct (pending S')" using D(7) by (simp add: pend)
  moreover have "b \<in> set (pending S') \<longleftrightarrow> (\<exists>g. fdes S' b = Some g \<and> is_pending g)" for b
    using D(7) D(8) [of b] f(1) by (auto simp: pend S')
  moreover have "active g" if "fdes S' b = Some g" "is_pending g" for b g
    using that D(9) f' by (auto simp: S' split: if_splits)
  ultimately show ?thesis using D(6) unfolding fd_inv_def by (simp add: S')
qed

lemma set_bit_in_same:
  assumes "fd_inv S" "fdes S a = Some f" "active f"
  shows "set_bit_in (has (fde_state f) FDE_READ) (nat (fde_fd f)) (read_fds S) = read_fds S"
    "set_bit_in (has (fde_state f) FDE_WRITE) (nat (fde_fd f)) (write_fds S) = write_fds S"
    "set_bit_in (has (fde_state f) FDE_ERROR) (nat (fde_fd f)) (error_fds S) = error_fds S"
  using fd_invD(1) [OF assms] by (auto simp: fde_ok_def set_bit_in_def Let_def)

lemma store_fields [simp]:
  "fdes (store a f S) = (fdes S)(a \<mapsto> f)" "fd_table (store a f S) = fd_table S"
  "select_n (store a f S) = select_n S" "pending (store a f S) = pending S"
  "read_fds (store a f S) = read_fds S" "write_fds (store a f S) = write_fds S"
  "error_fds (store a f S) = error_fds S" "closed_fds (store a f S) = closed_fds S"
  by (simp_all add: store_def)

lemma store_store [simp]: "store a g (store a f S) = store a g S"
  by (simp add: store_def)

lemma fetch_Some [simp]: "fdes S a = Some f \<Longrightarrow> fetch a S = Inr f"
  by (simp add: fetch_def)

text \<open>An inactive fdevent is nowhere else, so its words may change freely.\<close>

lemma fd_inv_inactive:
  assumes inv: "fd_inv S" and f: "\<And>f. fdes S a = Some f \<Longrightarrow> \<not> active f"
    and f': "\<not> active f'" "\<not> is_pending f'"
  shows "fd_inv (store a f' S)"
proof -
  note D = fd_invD [OF inv]
  have np: "a \<notin> set (pending S)" using D(8,9) f by blast
  have used: "used_fds (store a f' S) = used_fds S" by (simp add: used_fds_def)
  have ok: "fde_ok (store a f' S) b g = fde_ok S b g" for b g by (simp add: fde_ok_def Let_def)
  have tab: "\<exists>b g. fd_table S ! i = Some b \<and> ((fdes S)(a \<mapsto> f')) b = Some g \<and> active g \<and> fde_fd g = int i"
    if "i \<in> used_fds S" for i
    using D(2) [OF that] f by (metis fun_upd_other)
  show ?thesis
    unfolding fd_inv_def ok used
    using D np f' tab by (auto split: if_splits)
qed

section \<open>Every operation keeps the invariant\<close>

lemma fdevent_update_eq:
  assumes "fd_inv S" "fdes S a = Some f" "active f"
  shows "fdevent_update a ev S =
    Inr (store a (f\<lparr>fde_state := (fde_state f AND FDE_STATEMASK) OR ev\<rparr>)
      (S\<lparr>read_fds := set_bit_in (has ev FDE_READ) (nat (fde_fd f)) (read_fds S),
         write_fds := set_bit_in (has ev FDE_WRITE) (nat (fde_fd f)) (write_fds S),
         error_fds := set_bit_in (has ev FDE_ERROR) (nat (fde_fd f)) (error_fds S)\<rparr>))"
  using fd_invD(1) [OF assms] assms(2)
  by (simp add: fdevent_update_def fde_ok_def Let_def)

lemma state_word_events:
  assumes "ev AND FDE_EVENTMASK = ev"
  shows "has ((w AND FDE_STATEMASK) OR ev) FDE_READ = has ev FDE_READ"
    "has ((w AND FDE_STATEMASK) OR ev) FDE_WRITE = has ev FDE_WRITE"
    "has ((w AND FDE_STATEMASK) OR ev) FDE_ERROR = has ev FDE_ERROR"
    "has ((w AND FDE_STATEMASK) OR ev) FDE_ACTIVE = has w FDE_ACTIVE"
    "has ((w AND FDE_STATEMASK) OR ev) FDE_PENDING = has w FDE_PENDING"
    "((w AND FDE_STATEMASK) OR ev) AND FDE_STATEMASK OR ev = (w AND FDE_STATEMASK) OR ev"
    "((w AND FDE_STATEMASK) OR ev) AND FDE_EVENTMASK = ev"
proof -
  have hi: "\<not> bit ev n" if "8 \<le> n" for n
  proof -
    have "bit ev n = bit (ev AND FDE_EVENTMASK) n" by (simp add: assms)
    then show ?thesis using that by (simp add: fde_bits)
  qed
  show "has ((w AND FDE_STATEMASK) OR ev) FDE_READ = has ev FDE_READ"
    "has ((w AND FDE_STATEMASK) OR ev) FDE_WRITE = has ev FDE_WRITE"
    "has ((w AND FDE_STATEMASK) OR ev) FDE_ERROR = has ev FDE_ERROR"
    "has ((w AND FDE_STATEMASK) OR ev) FDE_ACTIVE = has w FDE_ACTIVE"
    "has ((w AND FDE_STATEMASK) OR ev) FDE_PENDING = has w FDE_PENDING"
    using hi by (simp_all add: fde_bits)
  show "((w AND FDE_STATEMASK) OR ev) AND FDE_STATEMASK OR ev = (w AND FDE_STATEMASK) OR ev"
    by (rule bit_eqI) (auto simp: fde_bits)
  show "((w AND FDE_STATEMASK) OR ev) AND FDE_EVENTMASK = ev"
  proof (rule bit_eqI)
    fix n
    show "bit (((w AND FDE_STATEMASK) OR ev) AND FDE_EVENTMASK) n = bit ev n"
      using hi [of n] by (cases "n < 8") (auto simp: fde_bits)
  qed
qed

lemma has_clear_pending:
  "has (w AND NOT FDE_PENDING) FDE_READ = has w FDE_READ"
  "has (w AND NOT FDE_PENDING) FDE_WRITE = has w FDE_WRITE"
  "has (w AND NOT FDE_PENDING) FDE_ERROR = has w FDE_ERROR"
  "has (w AND NOT FDE_PENDING) FDE_ACTIVE = has w FDE_ACTIVE"
  "\<not> has (w AND NOT FDE_PENDING) FDE_PENDING"
  "has (w OR FDE_PENDING) FDE_READ = has w FDE_READ"
  "has (w OR FDE_PENDING) FDE_WRITE = has w FDE_WRITE"
  "has (w OR FDE_PENDING) FDE_ERROR = has w FDE_ERROR"
  "has (w OR FDE_PENDING) FDE_ACTIVE = has w FDE_ACTIVE"
  "has (w OR FDE_PENDING) FDE_PENDING"
  by (simp_all add: fde_bits)

text \<open>The result of \<^verbatim>\<open>fdevent_set\<close> on an active fdevent, in one equation.\<close>

definition set_fde :: "u16 \<Rightarrow> fdevent \<Rightarrow> fdevent" where
  "set_fde ev f =
     (let f2 = f\<lparr>fde_state := (fde_state f AND FDE_STATEMASK) OR ev\<rparr> in
      if is_pending f then
        let f3 = f2\<lparr>fde_events := fde_events f AND NOT ev\<rparr> in
        if fde_events f3 = 0 then f3\<lparr>fde_state := fde_state f3 AND NOT FDE_PENDING\<rparr> else f3
      else f2)"

lemma mask_idem: "(evs AND FDE_EVENTMASK) AND FDE_EVENTMASK = evs AND FDE_EVENTMASK" for evs :: u16
  by (simp add: and.assoc)

lemma fdevent_set_active:
  assumes inv: "fd_inv S" and f: "fdes S a = Some f" "active f"
    and ne: "fde_state f AND FDE_EVENTMASK \<noteq> evs AND FDE_EVENTMASK"
  defines "ev \<equiv> evs AND FDE_EVENTMASK"
  shows "\<exists>S'. fdevent_set a evs S = Inr S' \<and> fdes S' = (fdes S)(a \<mapsto> set_fde ev f) \<and> fd_inv S'
    \<and> closed_fds S' = closed_fds S \<and> fd_table S' = fd_table S"
proof -
  have m: "ev AND FDE_EVENTMASK = ev" by (simp add: ev_def mask_idem)
  note w = state_word_events [OF m]
  let ?f2 = "f\<lparr>fde_state := (fde_state f AND FDE_STATEMASK) OR ev\<rparr>"
  let ?S1 = "store a ?f2
      (S\<lparr>read_fds := set_bit_in (has ev FDE_READ) (nat (fde_fd f)) (read_fds S),
         write_fds := set_bit_in (has ev FDE_WRITE) (nat (fde_fd f)) (write_fds S),
         error_fds := set_bit_in (has ev FDE_ERROR) (nat (fde_fd f)) (error_fds S)\<rparr>)"
  let ?S' = "store a (set_fde ev f) (?S1\<lparr>pending :=
      (if is_pending f \<and> \<not> is_pending (set_fde ev f) then remove1 a (pending S) else pending S)\<rparr>)"
  have pend: "a \<in> set (pending S) \<longleftrightarrow> is_pending f" using fd_invD(8) [OF inv] f by auto
  have act: "active (set_fde ev f)" "fde_fd (set_fde ev f) = fde_fd f"
    using f(2) by (auto simp: set_fde_def Let_def active_def w has_clear_pending)
  have bits: "has (fde_state (set_fde ev f)) FDE_READ = has ev FDE_READ"
    "has (fde_state (set_fde ev f)) FDE_WRITE = has ev FDE_WRITE"
    "has (fde_state (set_fde ev f)) FDE_ERROR = has ev FDE_ERROR"
    by (auto simp: set_fde_def Let_def w has_clear_pending)
  have np: "is_pending (set_fde ev f) \<Longrightarrow> is_pending f"
    by (auto simp: set_fde_def Let_def is_pending_def w has_clear_pending split: if_splits)
  have "fdevent_set a evs S = Inr ?S'"
    using ne f m
    by (auto simp: fdevent_set_def ev_def [symmetric] Let_def active_def [symmetric]
        fdevent_update_eq [OF inv f] set_fde_def is_pending_def w has_clear_pending store_def)
  moreover have "fd_inv ?S'"
  proof (rule fd_inv_change [OF inv f _ _ _ act(2) act(1)])
    show "pending ?S' = (if is_pending (set_fde ev f) then if a \<in> set (pending S) then pending S
        else pending S @ [a] else remove1 a (pending S))"
      using pend np by (auto simp: remove1_idem)
  qed (simp_all add: bits)
  ultimately show ?thesis by auto
qed

text \<open>The interest set after a change, and everything the change leaves alone.\<close>

definition same_wiring :: "fdevent \<Rightarrow> fdevent \<Rightarrow> bool" where
  "same_wiring f g \<longleftrightarrow> active g \<and> fde_fd g = fde_fd f \<and> force_eof g = force_eof f \<and> fde_func g = fde_func f
     \<and> fde_arg g = fde_arg f"

lemma fdevent_set_result:
  assumes inv: "fd_inv S" and f: "fdes S a = Some f" "active f"
  shows "\<exists>S' f'. fdevent_set a evs S = Inr S' \<and> fd_inv S' \<and> fdes S' = (fdes S)(a \<mapsto> f') \<and> same_wiring f f'
    \<and> fde_state f' AND FDE_EVENTMASK = evs AND FDE_EVENTMASK
    \<and> closed_fds S' = closed_fds S \<and> fd_table S' = fd_table S"
proof (cases "fde_state f AND FDE_EVENTMASK = evs AND FDE_EVENTMASK")
  case True
  with assms show ?thesis
    by (intro exI [of _ S] exI [of _ f]) (simp add: fdevent_set_def same_wiring_def fun_upd_idem)
next
  case False
  let ?ev = "evs AND FDE_EVENTMASK"
  note w = state_word_events [OF mask_idem [of evs]]
  have "same_wiring f (set_fde ?ev f)"
    using f(2) by (auto simp: same_wiring_def set_fde_def Let_def active_def w has_clear_pending)
  moreover have "fde_state (set_fde ?ev f) AND FDE_EVENTMASK = ?ev"
  proof -
    have "(x AND NOT FDE_PENDING) AND FDE_EVENTMASK = x AND FDE_EVENTMASK" for x
      by (rule bit_eqI) (auto simp: fde_bits)
    then show ?thesis by (simp add: set_fde_def Let_def w)
  qed
  ultimately show ?thesis using fdevent_set_active [OF inv f False] by blast
qed

lemma fdevent_add_result:
  assumes "fd_inv S" "fdes S a = Some f" "active f"
  shows "\<exists>S' f'. fdevent_add a ev S = Inr S' \<and> fd_inv S' \<and> fdes S' = (fdes S)(a \<mapsto> f') \<and> same_wiring f f'
    \<and> fde_state f' AND FDE_EVENTMASK = (fde_state f OR ev) AND FDE_EVENTMASK
    \<and> closed_fds S' = closed_fds S \<and> fd_table S' = fd_table S"
proof -
  have m: "((x AND FDE_EVENTMASK) OR (ev AND FDE_EVENTMASK)) AND FDE_EVENTMASK = (x OR ev) AND FDE_EVENTMASK" for x
    by (rule bit_eqI) (auto simp: fde_bits)
  have e: "fdevent_add a ev S = fdevent_set a ((fde_state f AND FDE_EVENTMASK) OR (ev AND FDE_EVENTMASK)) S"
    using assms(2) by (simp add: fdevent_add_def)
  show ?thesis unfolding e
    using fdevent_set_result [OF assms, of "(fde_state f AND FDE_EVENTMASK) OR (ev AND FDE_EVENTMASK)"]
    unfolding m .
qed

lemma fdevent_del_result:
  assumes "fd_inv S" "fdes S a = Some f" "active f"
  shows "\<exists>S' f'. fdevent_del a ev S = Inr S' \<and> fd_inv S' \<and> fdes S' = (fdes S)(a \<mapsto> f') \<and> same_wiring f f'
    \<and> fde_state f' AND FDE_EVENTMASK = (fde_state f AND NOT ev) AND FDE_EVENTMASK
    \<and> closed_fds S' = closed_fds S \<and> fd_table S' = fd_table S"
proof -
  have m: "((x AND FDE_EVENTMASK) AND NOT (ev AND FDE_EVENTMASK)) AND FDE_EVENTMASK
      = (x AND NOT ev) AND FDE_EVENTMASK" for x
    by (rule bit_eqI) (auto simp: fde_bits)
  have e: "fdevent_del a ev S = fdevent_set a ((fde_state f AND FDE_EVENTMASK) AND NOT (ev AND FDE_EVENTMASK)) S"
    using assms(2) by (simp add: fdevent_del_def)
  show ?thesis unfolding e
    using fdevent_set_result [OF assms, of "(fde_state f AND FDE_EVENTMASK) AND NOT (ev AND FDE_EVENTMASK)"]
    unfolding m .
qed

lemma event_bits:
  assumes "x AND FDE_EVENTMASK = y AND FDE_EVENTMASK"
  shows "has x FDE_READ = has y FDE_READ" "has x FDE_WRITE = has y FDE_WRITE" "has x FDE_DONT_CLOSE = has y FDE_DONT_CLOSE"
proof -
  have "bit x n = bit y n" if "n < 8" for n
  proof -
    have "bit (x AND FDE_EVENTMASK) n = bit (y AND FDE_EVENTMASK) n" using assms by simp
    then show ?thesis using that by (simp add: fde_bits)
  qed
  then show "has x FDE_READ = has y FDE_READ" "has x FDE_WRITE = has y FDE_WRITE"
    "has x FDE_DONT_CLOSE = has y FDE_DONT_CLOSE" by (simp_all add: fde_bits)
qed

lemma fdevent_set_inv:
  assumes "fd_inv S" "fdes S a = Some f" "active f"
  shows "\<exists>S'. fdevent_set a evs S = Inr S' \<and> fd_inv S' \<and> closed_fds S' = closed_fds S"
proof (cases "fde_state f AND FDE_EVENTMASK = evs AND FDE_EVENTMASK")
  case True
  with assms show ?thesis by (simp add: fdevent_set_def)
next
  case False
  from fdevent_set_active [OF assms this] show ?thesis by blast
qed

lemma fdevent_add_inv:
  assumes "fd_inv S" "fdes S a = Some f" "active f"
  shows "\<exists>S'. fdevent_add a ev S = Inr S' \<and> fd_inv S' \<and> closed_fds S' = closed_fds S"
    "\<exists>S'. fdevent_del a ev S = Inr S' \<and> fd_inv S' \<and> closed_fds S' = closed_fds S"
  using fdevent_set_inv [OF assms] assms(2) by (simp_all add: fdevent_add_def fdevent_del_def)

lemma grow_bounds:
  assumes "0 < mx"
  shows "mx \<le> grow mx i" "i < grow mx i"
  using assms
proof (induction mx i rule: grow.induct)
  case (1 mx fd)
  {
    case 1
    then show ?case using "1.IH" by (cases "mx \<le> fd") (simp_all add: grow.simps [of mx fd])
  next
    case 2
    then show ?case using "1.IH" by (cases "mx \<le> fd") (simp_all add: grow.simps [of mx fd])
  }
qed

text \<open>Registering puts the fdevent into its slot, grows the table if need be and touches no other slot.\<close>

lemma fdevent_register_spec:
  assumes f: "fdes S a = Some f" "0 \<le> fde_fd f" "fde_fd f \<le> 32000"
    and empty: "fd_table S = [] \<Longrightarrow> read_fds S = {} \<and> write_fds S = {} \<and> error_fds S = {}"
  shows "\<exists>tab. fdevent_register a S = Inr (S\<lparr>fd_table := tab\<rparr>) \<and> nat (fde_fd f) < length tab
    \<and> length (fd_table S) \<le> length tab \<and> tab ! nat (fde_fd f) = Some a
    \<and> (\<forall>j < length tab. j \<noteq> nat (fde_fd f) \<longrightarrow>
         tab ! j = (if j < length (fd_table S) then fd_table S ! j else None))"
proof (cases "length (fd_table S) \<le> nat (fde_fd f)")
  case True
  let ?mx = "length (fd_table S)" and ?i = "nat (fde_fd f)"
  let ?m = "grow (if ?mx = 0 then 256 else ?mx) ?i"
  have m: "?mx \<le> ?m" "?i < ?m"
    using grow_bounds [of "if ?mx = 0 then 256 else ?mx" ?i] by (auto split: if_splits)
  let ?tab = "(fd_table S @ replicate (?m - ?mx) None)[?i := Some a]"
  have "fdevent_register a S = Inr (S\<lparr>fd_table := ?tab\<rparr>)"
    using True f empty by (auto simp: fdevent_register_def Let_def)
  moreover have "length ?tab = ?m" using m by simp
  ultimately show ?thesis using m
    by (intro exI [of _ ?tab]) (auto simp: nth_append)
next
  case False
  with f show ?thesis
    by (intro exI [of _ "(fd_table S)[nat (fde_fd f) := Some a]"]) (auto simp: fdevent_register_def Let_def)
qed

lemma fd_inv_empty_table:
  assumes "fd_inv S" "fd_table S = []"
  shows "read_fds S = {} \<and> write_fds S = {} \<and> error_fds S = {}"
  using fd_invD(3,4,5) [OF assms(1)] assms(2) by (simp add: used_fds_def)

text \<open>A descriptor is fresh if no fdevent is installed on it: the kernel hands out no open descriptor twice.\<close>

definition fresh_fd :: "int \<Rightarrow> fdstate \<Rightarrow> bool" where
  "fresh_fd fd S \<longleftrightarrow> 0 \<le> fd \<and> fd < int FD_SETSIZE \<and> nat fd \<notin> used_fds S"

lemma fdevent_install_inv:
  assumes inv: "fd_inv S" and fresh: "fresh_fd fd S"
    and a: "\<And>f. fdes S a = Some f \<Longrightarrow> \<not> active f"
  shows "\<exists>S'. fdevent_install a fd func arg S = Inr S' \<and> fd_inv S' \<and> closed_fds S' = closed_fds S
    \<and> pending S' = pending S \<and> used_fds S' = insert (nat fd) (used_fds S)
    \<and> fdes S' = (fdes S)(a \<mapsto> \<lparr>fde_fd = fd, force_eof = False, fde_state = FDE_ACTIVE,
         fde_events = 0, fde_func = func, fde_arg = arg\<rparr>)"
proof -
  note D = fd_invD [OF inv]
  let ?f = "\<lparr>fde_fd = fd, force_eof = False, fde_state = FDE_ACTIVE, fde_events = 0,
      fde_func = func, fde_arg = arg\<rparr>"
  let ?i = "nat fd"
  from fresh have i: "0 \<le> fd" "?i < FD_SETSIZE" "?i \<notin> used_fds S" "fd \<le> 32000"
    by (auto simp: fresh_fd_def FD_SETSIZE_def)
  from fdevent_register_spec [of "store a ?f S" a ?f] i fd_inv_empty_table [OF inv]
  obtain tab where tab: "fdevent_register a (store a ?f S) = Inr ((store a ?f S)\<lparr>fd_table := tab\<rparr>)"
    "?i < length tab" "length (fd_table S) \<le> length tab" "tab ! ?i = Some a"
    "\<And>j. j < length tab \<Longrightarrow> j \<noteq> ?i \<Longrightarrow> tab ! j = (if j < length (fd_table S) then fd_table S ! j else None)"
    by auto
  let ?n = "if int (select_n S) \<le> fd then nat (fd + 1) else select_n S"
  let ?S = "(store a ?f S)\<lparr>fd_table := tab, select_n := ?n\<rparr>"
  have n: "select_n S \<le> ?n" "?i < ?n" "?n \<le> length tab" "?n \<le> FD_SETSIZE"
    using i tab(2,3) D(6) by auto
  have "fdevent_install a fd func arg S = Inr ?S"
    using tab(1) by (simp add: fdevent_install_def fdevent_connect_def store_def)
  moreover have used: "used_fds ?S = insert ?i (used_fds S)"
  proof (rule set_eqI)
    fix j
    show "j \<in> used_fds ?S \<longleftrightarrow> j \<in> insert ?i (used_fds S)"
      using tab(2,3,4) tab(5) [of j] by (cases "j = ?i"; cases "fd_table S ! j") (auto simp: used_fds_def split: if_splits)
  qed
  moreover have act: "active ?f" "\<not> is_pending ?f" "\<not> has FDE_ACTIVE FDE_READ"
    "\<not> has FDE_ACTIVE FDE_WRITE" "\<not> has FDE_ACTIVE FDE_ERROR"
    by (simp_all add: active_def is_pending_def fde_bits)
  have np: "a \<notin> set (pending S)" using D(8,9) a by blast
  have keep: "fde_ok ?S b g" if "fdes S b = Some g" "active g" for b g
  proof -
    have "nat (fde_fd g) \<noteq> ?i" "fde_ok S b g"
      using D(1) [OF that] i by (auto simp: fde_ok_def used_fds_def Let_def)
    then show ?thesis using n tab(3,5) by (auto simp: fde_ok_def Let_def)
  qed
  have self: "fde_ok ?S a ?f"
    using i n tab(2,4) D(3,4,5) act by (auto simp: fde_ok_def Let_def)
  have "fd_inv ?S"
    unfolding fd_inv_def used
  proof (intro conjI allI ballI impI)
    fix b g assume "fdes ?S b = Some g" "active g"
    then show "fde_ok ?S b g" using keep self by (auto split: if_splits)
  next
    fix j assume "j \<in> insert ?i (used_fds S)"
    then show "\<exists>b g. fd_table ?S ! j = Some b \<and> fdes ?S b = Some g \<and> active g \<and> fde_fd g = int j"
    proof (cases "j = ?i")
      case True
      then show ?thesis using tab(4) act i(1) by simp
    next
      case False
      with \<open>j \<in> insert ?i (used_fds S)\<close> have j: "j \<in> used_fds S" by simp
      then obtain b g where b: "fd_table S ! j = Some b" "fdes S b = Some g" "active g" "fde_fd g = int j"
        using D(2) by blast
      moreover have "b \<noteq> a" using a b by blast
      moreover have "tab ! j = fd_table S ! j"
        using tab(3) tab(5) [of j] j False by (simp add: used_fds_def)
      ultimately show ?thesis by auto
    qed
  next
    fix b show "b \<in> set (pending ?S) \<longleftrightarrow> (\<exists>g. fdes ?S b = Some g \<and> is_pending g)"
      using D(8) [of b] np act by auto
  next
    fix b g assume "fdes ?S b = Some g" "is_pending g"
    then show "active g" using D(9) act by (auto split: if_splits)
  qed (use D(3,4,5,7) n in auto)
  ultimately show ?thesis by auto
qed

lemma fold_last:
  fixes P :: "nat \<Rightarrow> bool"
  defines "r k \<equiv> fold (\<lambda>i n. if P i then i else n) [0..<k] 0"
  shows "j < k \<Longrightarrow> P j \<Longrightarrow> j \<le> r k" and "r k < max 1 k"
proof -
  have both: "(\<forall>j < k. P j \<longrightarrow> j \<le> r k) \<and> r k < max 1 k"
    by (induction k) (auto simp: r_def less_Suc_eq)
  then show "j < k \<Longrightarrow> P j \<Longrightarrow> j \<le> r k" "r k < max 1 k" by blast+
qed

lemma fdevent_remove_inv:
  assumes inv: "fd_inv S" and f: "fdes S a = Some f" "active f"
  shows "\<exists>S'. fdevent_remove a S = Inr S' \<and> fd_inv S'
    \<and> used_fds S' = used_fds S - {nat (fde_fd f)}
    \<and> pending S' = remove1 a (pending S)
    \<and> closed_fds S' = closed_fds S
        @ (if has (fde_state f) FDE_DONT_CLOSE then [] else [nat (fde_fd f)])
    \<and> fdes S' = (fdes S)(a \<mapsto> f\<lparr>fde_state := 0, fde_events := 0\<rparr>)"
proof -
  note D = fd_invD [OF inv]
  let ?i = "nat (fde_fd f)" and ?f = "f\<lparr>fde_state := 0, fde_events := 0\<rparr>"
  from D(1) [OF f] have i: "0 \<le> fde_fd f" "?i < FD_SETSIZE" "?i < select_n S" "?i < length (fd_table S)"
    "fd_table S ! ?i = Some a" by (simp_all add: fde_ok_def Let_def)
  have pend: "a \<in> set (pending S) \<longleftrightarrow> is_pending f" using D(8) f by auto
  let ?n = "last_used S + 1"
  let ?S = "store a ?f (S\<lparr>pending := remove1 a (pending S), fd_table := (fd_table S)[?i := None],
      read_fds := read_fds S - {?i}, write_fds := write_fds S - {?i}, error_fds := error_fds S - {?i},
      select_n := ?n, closed_fds := closed_fds S
        @ (if has (fde_state f) FDE_DONT_CLOSE then [] else [?i])\<rparr>)"
  have lu: "last_used (T\<lparr>read_fds := A, write_fds := B, error_fds := C\<rparr>) = last_used T"
    "last_used (T\<lparr>pending := p\<rparr>) = last_used T" for T A B C p
    by (simp_all add: last_used_def)
  have "fdevent_remove a S = Inr ?S"
    using f i pend by (auto simp: fdevent_remove_def active_def is_pending_def fdevent_disconnect_def
        fdevent_unregister_def Let_def lu store_def remove1_idem)
  moreover have used: "used_fds ?S = used_fds S - {?i}"
    using i(4) by (auto simp: used_fds_def nth_list_update split: if_splits)
  have n: "j < ?n" if "j \<in> used_fds S" for j
  proof -
    from D(2) [OF that] D(1) have "j < select_n S" by (fastforce simp: fde_ok_def Let_def)
    moreover have "fd_table S ! j \<noteq> None" using that by (simp add: used_fds_def)
    ultimately show ?thesis
      using fold_last(1) [of j "select_n S" "\<lambda>i. fd_table S ! i \<noteq> None"] by (simp add: last_used_def)
  qed
  have "?n \<le> select_n S"
    using fold_last(2) [of "\<lambda>i. fd_table S ! i \<noteq> None" "select_n S"] i(3) by (simp add: last_used_def)
  then have nle: "?n \<le> length (fd_table S)" "?n \<le> FD_SETSIZE" using D(6) by auto
  have off: "\<not> active ?f" "\<not> is_pending ?f" by (simp_all add: active_def is_pending_def fde_bits)
  have keep: "fde_ok ?S b g" if "fdes S b = Some g" "active g" "b \<noteq> a" for b g
  proof -
    have ok: "fde_ok S b g" using D(1) that by blast
    then have "nat (fde_fd g) \<noteq> ?i" "nat (fde_fd g) \<in> used_fds S"
      using i that(3) by (auto simp: fde_ok_def used_fds_def Let_def)
    with ok n show ?thesis by (simp add: fde_ok_def Let_def)
  qed
  have "fd_inv ?S"
    unfolding fd_inv_def used
  proof (intro conjI allI ballI impI)
    fix b g assume "fdes ?S b = Some g" "active g"
    then show "fde_ok ?S b g" using keep off by (auto split: if_splits)
  next
    fix j assume j: "j \<in> used_fds S - {?i}"
    then obtain b g where "fd_table S ! j = Some b" "fdes S b = Some g" "active g" "fde_fd g = int j"
      using D(2) by blast
    moreover have "b \<noteq> a" using calculation f(1) j by auto
    ultimately show "\<exists>b g. fd_table ?S ! j = Some b \<and> fdes ?S b = Some g \<and> active g \<and> fde_fd g = int j"
      using j by auto
  next
    fix b show "b \<in> set (pending ?S) \<longleftrightarrow> (\<exists>g. fdes ?S b = Some g \<and> is_pending g)"
      using D(7) D(8) [of b] off by auto
  next
    fix b g assume "fdes ?S b = Some g" "is_pending g"
    then show "active g" using D(9) off by (auto split: if_splits)
  qed (use D(3,4,5,7) nle in auto)
  ultimately show ?thesis using used by auto
qed

section \<open>A round of select\<close>

definition mark :: "u16 \<Rightarrow> fdevent \<Rightarrow> fdevent" where
  "mark ev f = (if ev = 0 then f
     else f\<lparr>fde_events := fde_events f OR ev, fde_state := fde_state f OR FDE_PENDING\<rparr>)"

lemma events_at_zero_iff: "events_at r w e i = 0 \<longleftrightarrow> hits_at r w e i = 0"
  by (auto simp: events_at_def hits_at_def fde_consts)

lemma or_pending_id: "has w FDE_PENDING \<Longrightarrow> w OR FDE_PENDING = w"
  by (rule bit_eqI) (auto simp: fde_bits)

lemma post_events_spec:
  assumes inv: "fd_inv S" and i: "i \<in> used_fds S" and ev: "ev \<noteq> 0"
  shows "\<exists>S' a f. post_events i ev S = Inr S' \<and> fd_inv S' \<and> fdes S a = Some f \<and> active f
    \<and> fde_fd f = int i \<and> fdes S' = (fdes S)(a \<mapsto> mark ev f)
    \<and> fd_table S' = fd_table S \<and> select_n S' = select_n S \<and> closed_fds S' = closed_fds S
    \<and> read_fds S' = read_fds S \<and> write_fds S' = write_fds S \<and> error_fds S' = error_fds S"
proof -
  note D = fd_invD [OF inv]
  from D(2) [OF i] obtain a f where a: "fd_table S ! i = Some a" "fdes S a = Some f" "active f"
    "fde_fd f = int i" by blast
  have pend: "a \<in> set (pending S) \<longleftrightarrow> is_pending f" using D(8) a by auto
  let ?S = "store a (mark ev f) (S\<lparr>pending := if is_pending f then pending S else pending S @ [a]\<rparr>)"
  have "post_events i ev S = Inr ?S"
    using a ev by (auto simp: post_events_def mark_def Let_def is_pending_def or_pending_id store_def)
  moreover have "fd_inv ?S"
  proof (rule fd_inv_change [OF inv a(2,3)])
    have "is_pending (mark ev f)" using ev by (simp add: mark_def is_pending_def has_clear_pending)
    then show "pending ?S = (if is_pending (mark ev f) then if a \<in> set (pending S) then pending S
        else pending S @ [a] else remove1 a (pending S))" using pend by auto
    show "active (mark ev f)" using a(3) by (simp add: mark_def active_def has_clear_pending)
  qed (use set_bit_in_same [OF inv a(2,3)] ev in \<open>simp_all add: mark_def has_clear_pending\<close>)
  ultimately show ?thesis using a by (intro exI [of _ ?S] exI [of _ a] exI [of _ f]) auto
qed

lemma scan_fds_spec:
  assumes inv: "fd_inv S" and used: "\<And>i. i \<in> set is \<Longrightarrow> 0 < hits_at r w e i \<Longrightarrow> i \<in> used_fds S"
    and d: "distinct is" and n: "n = int (\<Sum>i\<leftarrow>is. hits_at r w e i)"
  shows "\<exists>S'. scan_fds is n r w e S = Inr S' \<and> fd_inv S' \<and> closed_fds S' = closed_fds S
    \<and> fd_table S' = fd_table S
    \<and> (\<forall>a f. fdes S a = Some f \<longrightarrow> active f \<longrightarrow>
         fdes S' a = Some (if nat (fde_fd f) \<in> set is then mark (events_at r w e (nat (fde_fd f))) f else f))"
  using assms
proof (induction "is" arbitrary: n S)
  case Nil
  then show ?case by simp
next
  case (Cons i "is")
  show ?case
  proof (cases "n \<le> 0")
    case True
    with Cons.prems(4) have "\<forall>j \<in> set (i # is). hits_at r w e j = 0"
      by (simp add: sum_list_nonneg_eq_0_iff del: of_nat_add)
    then have "\<forall>j \<in> set (i # is). events_at r w e j = 0" by (simp add: events_at_zero_iff)
    then show ?thesis using True Cons.prems(1) by (simp add: mark_def)
  next
    case False
    let ?ev = "events_at r w e i" and ?n = "n - int (hits_at r w e i)"
    show ?thesis
    proof (cases "?ev = 0")
      case True
      with Cons.prems have "\<exists>S'. scan_fds is ?n r w e S = Inr S' \<and> fd_inv S' \<and> closed_fds S' = closed_fds S
        \<and> fd_table S' = fd_table S
        \<and> (\<forall>a f. fdes S a = Some f \<longrightarrow> active f \<longrightarrow>
         fdes S' a = Some (if nat (fde_fd f) \<in> set is then mark (events_at r w e (nat (fde_fd f))) f else f))"
        by (intro Cons.IH) auto
      with True False show ?thesis by (auto simp: mark_def)
    next
      case ev: False
      then have "i \<in> used_fds S" using Cons.prems(2) by (simp add: events_at_zero_iff)
      from post_events_spec [OF Cons.prems(1) this ev] obtain T a f where
        T: "post_events i ?ev S = Inr T" "fd_inv T" "fdes S a = Some f" "active f" "fde_fd f = int i"
          "fdes T = (fdes S)(a \<mapsto> mark ?ev f)" "fd_table T = fd_table S" "closed_fds T = closed_fds S"
        by blast
      have "\<exists>S'. scan_fds is ?n r w e T = Inr S' \<and> fd_inv S' \<and> closed_fds S' = closed_fds T
        \<and> fd_table S' = fd_table T
        \<and> (\<forall>a f. fdes T a = Some f \<longrightarrow> active f \<longrightarrow>
         fdes S' a = Some (if nat (fde_fd f) \<in> set is then mark (events_at r w e (nat (fde_fd f))) f else f))"
        using Cons.prems T by (intro Cons.IH) (auto simp: used_fds_def)
      then obtain S' where S': "scan_fds is ?n r w e T = Inr S'" "fd_inv S'" "closed_fds S' = closed_fds T"
        "fd_table S' = fd_table T" "\<And>b g. fdes T b = Some g \<Longrightarrow> active g \<Longrightarrow>
           fdes S' b = Some (if nat (fde_fd g) \<in> set is then mark (events_at r w e (nat (fde_fd g))) g else g)"
        by blast
      have "fdes S' b = Some (if nat (fde_fd g) \<in> set (i # is)
          then mark (events_at r w e (nat (fde_fd g))) g else g)"
        if g: "fdes S b = Some g" "active g" for b g
      proof (cases "b = a")
        case True
        then have "g = f" using g T(3) by simp
        have "active (mark ?ev f)" "fde_fd (mark ?ev f) = int i"
          using T(4,5) by (simp_all add: mark_def active_def has_clear_pending)
        then show ?thesis
          using S'(5) [of a "mark ?ev f"] T(5,6) True \<open>g = f\<close> Cons.prems(3) by simp
      next
        case other: False
        have "fde_fd g \<noteq> int i"
          using active_same_fd [OF Cons.prems(1) T(3,4) g] other T(5) by auto
        moreover have "0 \<le> fde_fd g"
          using fd_invD(1) [OF Cons.prems(1) g] by (simp add: fde_ok_def Let_def)
        ultimately have "nat (fde_fd g) \<noteq> i" by auto
        then show ?thesis using S'(5) [of b g] T(6) g other by auto
      qed
      then show ?thesis using S' T False ev by (simp add: Let_def)
    qed
  qed
qed

lemma fdevent_next_inv:
  assumes inv: "fd_inv S"
  shows "case pending S of
      [] \<Rightarrow> fdevent_next S = Inr None
    | a # as \<Rightarrow> \<exists>f S'. fdes S a = Some f \<and> fd_inv S' \<and> pending S' = as
        \<and> fdevent_next S = Inr (Some (Some (fde_func f, fde_fd f, fde_events f, fde_arg f), S'))
        \<and> fdes S' = (fdes S)(a \<mapsto> f\<lparr>fde_events := 0, fde_state := fde_state f AND NOT FDE_PENDING\<rparr>)"
proof (cases "pending S")
  case Nil
  then show ?thesis by (simp add: fdevent_next_def fdevent_plist_dequeue_def)
next
  case (Cons a as)
  note D = fd_invD [OF inv]
  from D(8) [of a] Cons obtain f where f: "fdes S a = Some f" "is_pending f" by auto
  let ?f = "f\<lparr>fde_events := 0, fde_state := fde_state f AND NOT FDE_PENDING\<rparr>"
  let ?S = "store a ?f (S\<lparr>pending := as\<rparr>)"
  have act: "active f" using D(9) f by blast
  have "fd_inv ?S"
  proof (rule fd_inv_change [OF inv f(1) act])
    show "pending ?S = (if is_pending ?f then if a \<in> set (pending S) then pending S
        else pending S @ [a] else remove1 a (pending S))"
      by (simp add: is_pending_def has_clear_pending Cons)
    show "active ?f" using act by (simp add: active_def has_clear_pending)
  qed (use set_bit_in_same [OF inv f(1) act] in \<open>simp_all add: has_clear_pending\<close>)
  moreover have "fdevent_next S = Inr (Some (Some (fde_func f, fde_fd f, fde_events f, fde_arg f), ?S))"
    using f by (simp add: fdevent_next_def fdevent_plist_dequeue_def Cons fdevent_call_fdfunc_def
        is_pending_def Let_def store_def)
  ultimately show ?thesis using f by (simp add: Cons) (metis store_fields(1,4) fdstate.simps)?
qed

section \<open>What one round of select does\<close>

definition select_ok :: "fdstate \<Rightarrow> select_result \<Rightarrow> bool" where
  "select_ok S sel \<longleftrightarrow>
     (case sel of
        Selected n r w e \<Rightarrow> r \<subseteq> read_fds S \<and> w \<subseteq> write_fds S \<and> e \<subseteq> error_fds S
          \<and> n = int (card r + card w + card e)
      | _ \<Rightarrow> True)"

lemma used_below:
  assumes "fd_inv S" "i \<in> used_fds S"
  shows "i < select_n S"
  using fd_invD(2) [OF assms] fd_invD(1) [OF assms(1)] by (fastforce simp: fde_ok_def Let_def)

lemma hits_sum:
  assumes "r \<subseteq> {..<n}" "w \<subseteq> {..<n}" "e \<subseteq> {..<n}"
  shows "(\<Sum>i\<leftarrow>[0..<n]. hits_at r w e i) = card r + card w + card e"
proof -
  have one: "(\<Sum>i\<in>{..<n}. if i \<in> A then 1 else 0) = card A" if "A \<subseteq> {..<n}" for A
    using that by (simp add: sum.If_cases inf_absorb2)
  have "(\<Sum>i\<leftarrow>[0..<n]. hits_at r w e i) = (\<Sum>i\<in>{..<n}. hits_at r w e i)"
    by (simp add: interv_sum_list_conv_sum_set_nat atLeast0LessThan)
  then show ?thesis by (simp add: hits_at_def sum.distrib one assms)
qed

lemma fd_check_spec:
  "fdevent_fd_check bad X S =
     (X \<union> {i. i < select_n S \<and> fd_table S ! i \<noteq> None \<and> bad i},
      card {i. i < select_n S \<and> fd_table S ! i \<noteq> None \<and> bad i})"
proof -
  have "fold (\<lambda>i (Y, k). if fd_table S ! i \<noteq> None \<and> bad i then (insert i Y, k + 1) else (Y, k)) [0..<n] (X, 0)
      = (X \<union> {i. i < n \<and> fd_table S ! i \<noteq> None \<and> bad i}, card {i. i < n \<and> fd_table S ! i \<noteq> None \<and> bad i})"
    for n
  proof (induction n)
    case (Suc n)
    let ?B = "\<lambda>n. {i. i < n \<and> fd_table S ! i \<noteq> None \<and> bad i}"
    have "?B (Suc n) = (if fd_table S ! n \<noteq> None \<and> bad n then insert n (?B n) else ?B n)"
      by (auto simp: less_Suc_eq)
    moreover have "n \<notin> ?B n" "finite (?B n)" by auto
    ultimately show ?case using Suc by (auto simp: card_insert_if)
  qed simp
  then show ?thesis by (simp add: fdevent_fd_check_def)
qed

text \<open>The descriptors a round reports on: those of the three sets, or the closed ones instead.\<close>

definition reported :: "select_result \<Rightarrow> (nat \<Rightarrow> bool) \<Rightarrow> fdstate \<Rightarrow> nat set \<times> nat set \<times> nat set" where
  "reported sel bad S =
     (let broken = {i \<in> used_fds S. bad i} in
      case sel of
        Selected n r w e \<Rightarrow> if r = {} \<and> w = {} \<and> e = {} then (broken, {}, {}) else (r, w, e)
      | Select_EBADF \<Rightarrow> (broken, {}, {})
      | _ \<Rightarrow> ({}, {}, {}))"

definition round_post :: "fdstate \<Rightarrow> nat set \<times> nat set \<times> nat set \<Rightarrow> fdstate \<Rightarrow> bool" where
  "round_post S rwe S' \<longleftrightarrow> (case rwe of (r, w, e) \<Rightarrow>
     fd_inv S' \<and> closed_fds S' = closed_fds S \<and> fd_table S' = fd_table S
     \<and> (\<forall>a f. fdes S a = Some f \<longrightarrow> active f \<longrightarrow>
          fdes S' a = Some (mark (events_at r w e (nat (fde_fd f))) f)))"

lemma scan_round:
  assumes inv: "fd_inv S" and sub: "r \<subseteq> used_fds S" "w \<subseteq> used_fds S" "e \<subseteq> used_fds S"
    and n: "n = int (card r + card w + card e)"
  shows "\<exists>S'. scan_fds [0..<select_n S] n r w e S = Inr S' \<and> round_post S (r, w, e) S'"
proof -
  have lt: "r \<subseteq> {..<select_n S}" "w \<subseteq> {..<select_n S}" "e \<subseteq> {..<select_n S}"
    using sub used_below [OF inv] by auto
  have "\<exists>S'. scan_fds [0..<select_n S] n r w e S = Inr S' \<and> fd_inv S' \<and> closed_fds S' = closed_fds S
    \<and> fd_table S' = fd_table S
    \<and> (\<forall>a f. fdes S a = Some f \<longrightarrow> active f \<longrightarrow> fdes S' a = Some (if nat (fde_fd f) \<in> set [0..<select_n S]
         then mark (events_at r w e (nat (fde_fd f))) f else f))"
  proof (rule scan_fds_spec [OF inv])
    show "i \<in> used_fds S" if "0 < hits_at r w e i" for i
      using that sub by (auto simp: hits_at_def split: if_splits)
  qed (simp_all add: n hits_sum [OF lt])
  moreover have "nat (fde_fd f) < select_n S" if "fdes S a = Some f" "active f" for a f
    using fd_invD(1) [OF inv that] by (simp add: fde_ok_def Let_def)
  ultimately show ?thesis by (fastforce simp: round_post_def)
qed

lemma broken_eq:
  assumes "fd_inv S"
  shows "{i. i < select_n S \<and> fd_table S ! i \<noteq> None \<and> bad i} = {i \<in> used_fds S. bad i}"
  using fd_invD(6) [OF assms] used_below [OF assms] by (auto simp: used_fds_def)

lemma process_round:
  assumes inv: "fd_inv S" and ok: "select_ok S sel"
  shows "\<exists>S'. fdevent_process sel bad S = Inr S' \<and> round_post S (reported sel bad S) S'"
proof -
  note D = fd_invD [OF inv]
  have none: "round_post S ({}, {}, {}) S" using inv by (simp add: round_post_def events_at_def mark_def)
  let ?B = "{i \<in> used_fds S. bad i}"
  have n: "\<not> FD_SETSIZE < select_n S" using D(6) by simp
  have broken: "\<exists>S'. scan_fds [0..<select_n S] (int (card ?B)) ?B {} {} S = Inr S' \<and> round_post S (?B, {}, {}) S'"
    by (rule scan_round [OF inv]) auto
  have chk: "fdevent_fd_check bad {} S = (?B, card ?B)"
    by (simp only: fd_check_spec broken_eq [OF inv] Un_empty_left)
  show ?thesis
  proof (cases sel)
    case (Selected k r w e)
    have sub: "r \<subseteq> used_fds S" "w \<subseteq> used_fds S" "e \<subseteq> used_fds S" and k: "k = int (card r + card w + card e)"
      using ok D(3,4,5) by (auto simp: Selected select_ok_def)
    have fin: "finite (used_fds S)" by (simp add: used_fds_def)
    show ?thesis
    proof (cases "k \<le> 0")
      case True
      then have "card r = 0" "card w = 0" "card e = 0" using k by linarith+
      then have "r = {}" "w = {}" "e = {}" using sub [THEN finite_subset, OF fin] by simp_all
      then show ?thesis using True n broken chk by (simp add: fdevent_process_def Selected reported_def)
    next
      case False
      then have "\<not> (r = {} \<and> w = {} \<and> e = {})" using k by auto
      then show ?thesis using scan_round [OF inv sub k] False n
        by (auto simp: fdevent_process_def Selected reported_def)
    qed
  next
    case Select_EBADF
    then show ?thesis using n broken chk by (simp add: fdevent_process_def reported_def)
  qed (use none n in \<open>simp_all add: fdevent_process_def reported_def\<close>)
qed

section \<open>Runs of the event loop\<close>

lemma fdevent_create_inv:
  assumes "fd_inv S" "fresh_fd fd S" "\<And>f. fdes S a = Some f \<Longrightarrow> \<not> active f"
  shows "\<exists>S'. fdevent_create a fd func arg S = Inr S' \<and> fd_inv S' \<and> closed_fds S' = closed_fds S
    \<and> pending S' = pending S \<and> used_fds S' = insert (nat fd) (used_fds S)
    \<and> fdes S' = (fdes S)(a \<mapsto> \<lparr>fde_fd = fd, force_eof = False, fde_state = FDE_ACTIVE OR FDE_CREATED,
         fde_events = 0, fde_func = func, fde_arg = arg\<rparr>)"
proof -
  let ?f = "\<lparr>fde_fd = fd, force_eof = False, fde_state = FDE_ACTIVE, fde_events = 0,
      fde_func = func, fde_arg = arg\<rparr>"
  let ?f' = "?f\<lparr>fde_state := FDE_ACTIVE OR FDE_CREATED\<rparr>"
  from fdevent_install_inv [OF assms] obtain T where T: "fdevent_install a fd func arg S = Inr T" "fd_inv T"
    "closed_fds T = closed_fds S" "pending T = pending S" "used_fds T = insert (nat fd) (used_fds S)"
    "fdes T = (fdes S)(a \<mapsto> ?f)" by blast
  have fa: "fdes T a = Some ?f" "active ?f" using T by (simp_all add: active_def fde_bits)
  have np: "a \<notin> set (pending T)" using fd_invD(8) [OF T(2), of a] fa by (simp add: is_pending_def fde_bits)
  have w: "has (w OR FDE_CREATED) FDE_READ = has w FDE_READ" "has (w OR FDE_CREATED) FDE_WRITE = has w FDE_WRITE"
    "has (w OR FDE_CREATED) FDE_ERROR = has w FDE_ERROR" "has (w OR FDE_CREATED) FDE_ACTIVE = has w FDE_ACTIVE"
    "has (w OR FDE_CREATED) FDE_PENDING = has w FDE_PENDING" for w
    by (simp_all add: fde_bits)
  have act: "has FDE_ACTIVE FDE_ACTIVE" "\<not> has FDE_ACTIVE FDE_PENDING" by (simp_all add: fde_bits)
  have "fd_inv (store a ?f' T)"
    by (rule fd_inv_change [OF T(2) fa, where f' = "?f'"])
      (use set_bit_in_same [OF T(2) fa] np act in \<open>simp_all add: active_def is_pending_def w remove1_idem\<close>)
  moreover have "fdevent_create a fd func arg S = Inr (store a ?f' T)"
    using T(1) fa by (simp add: fdevent_create_def)
  ultimately show ?thesis using T by (auto simp: used_fds_def)
qed

lemma fdevent_subproc_inv:
  assumes inv: "fd_inv S" and fd: "nat fd \<in> used_fds S" "0 \<le> fd" and q: "has ev FDE_READ \<Longrightarrow> 4 \<le> length (readable q)"
  shows "\<exists>c q' S'. fdevent_subproc_event_func fd ev q rcount S = Inr (c, q', S') \<and> fd_inv S'"
proof -
  from fd_invD(2) [OF inv fd(1)] obtain a f where a: "fd_table S ! nat fd = Some a" "fdes S a = Some f" "active f"
    by blast
  from fdevent_add_inv(1) [OF inv a(2,3)] obtain T where T: "fdevent_add a FDE_READ S = Inr T" "fd_inv T" by blast
  have lt: "\<not> (fd < 0 \<or> int (length (fd_table S)) \<le> fd)" using fd by (auto simp: used_fds_def)
  have change: "fd_inv (store b g' T)" if "fdes T b = Some g" "active g" "fde_fd g' = fde_fd g" "fde_state g' = fde_state g"
    for b g g'
  proof (rule fd_inv_change [OF T(2) that(1,2)])
    have "b \<in> set (pending T) \<longleftrightarrow> is_pending g" using fd_invD(8) [OF T(2)] that(1) by auto
    then show "pending (store b g' T) = (if is_pending g' then if b \<in> set (pending T) then pending T
        else pending T @ [b] else remove1 b (pending T))"
      using that(4) by (auto simp: is_pending_def remove1_idem)
  qed (use set_bit_in_same [OF T(2) that(1,2)] that(2,3,4) in \<open>simp_all add: active_def\<close>)
  have unpend: "(w OR FDE_PENDING) AND NOT FDE_PENDING = w" if "\<not> has w FDE_PENDING" for w
    by (rule bit_eqI) (use that in \<open>auto simp: fde_bits\<close>)
  show ?thesis
  proof (cases "has ev FDE_READ")
    case False
    then show ?thesis using a lt T by (simp add: fdevent_subproc_event_func_def)
  next
    case True
    from rx.rd_ok [OF q [OF True]] obtain bs q1 where r: "readx 4 q = (0, bs, q1)" by blast
    let ?s = "sint (un_le32 bs)"
    show ?thesis
    proof (cases "?s < 0 \<or> int (length (fd_table T)) \<le> ?s")
      case True
      then show ?thesis using a lt T r \<open>has ev FDE_READ\<close> by (simp add: fdevent_subproc_event_func_def)
    next
      case range: False
      show ?thesis
      proof (cases "fd_table T ! nat ?s")
        case None
        then show ?thesis using a lt T r \<open>has ev FDE_READ\<close> range by (simp add: fdevent_subproc_event_func_def)
      next
        case (Some b)
        then have "nat ?s \<in> used_fds T" using range by (auto simp: used_fds_def)
        from fd_invD(2) [OF T(2) this] Some obtain g where g: "fdes T b = Some g" "active g" "fde_fd g = ?s"
          using range by auto
        show ?thesis
          using a lt T r \<open>has ev FDE_READ\<close> range Some g
          by (auto simp: fdevent_subproc_event_func_def Let_def fdevent_call_fdfunc_def
              has_clear_pending unpend intro: change [OF g(1,2)])
      qed
    qed
  qed
qed

text \<open>
  The steps a program takes that uses this interface properly: it installs fdevents on descriptors
  the kernel has just handed out, changes and removes fdevents that are installed, and runs the loop.
\<close>

inductive fd_step :: "fdstate \<Rightarrow> fdstate \<Rightarrow> bool" where
  install: "\<lbrakk>fresh_fd fd S; \<forall>f. fdes S a = Some f \<longrightarrow> \<not> active f; fdevent_install a fd func arg S = Inr S'\<rbrakk>
    \<Longrightarrow> fd_step S S'"
| create: "\<lbrakk>fresh_fd fd S; \<forall>f. fdes S a = Some f \<longrightarrow> \<not> active f; fdevent_create a fd func arg S = Inr S'\<rbrakk>
    \<Longrightarrow> fd_step S S'"
| remove: "\<lbrakk>fdes S a = Some f; active f; fdevent_remove a S = Inr S'\<rbrakk> \<Longrightarrow> fd_step S S'"
| set: "\<lbrakk>fdes S a = Some f; active f; fdevent_set a evs S = Inr S'\<rbrakk> \<Longrightarrow> fd_step S S'"
| add: "\<lbrakk>fdes S a = Some f; active f; fdevent_add a evs S = Inr S'\<rbrakk> \<Longrightarrow> fd_step S S'"
| del: "\<lbrakk>fdes S a = Some f; active f; fdevent_del a evs S = Inr S'\<rbrakk> \<Longrightarrow> fd_step S S'"
| process: "\<lbrakk>select_ok S sel; fdevent_process sel bad S = Inr S'\<rbrakk> \<Longrightarrow> fd_step S S'"
| dispatch: "\<lbrakk>fdevent_next S = Inr (Some (c, S'))\<rbrakk> \<Longrightarrow> fd_step S S'"
| subproc: "\<lbrakk>nat fd \<in> used_fds S; 0 \<le> fd; has ev FDE_READ \<longrightarrow> 4 \<le> length (readable q);
      fdevent_subproc_event_func fd ev q rcount S = Inr (c, q', S')\<rbrakk> \<Longrightarrow> fd_step S S'"

inductive fd_reachable :: "fdstate \<Rightarrow> bool" where
  start: "fd_reachable fdstate_init"
| step: "fd_reachable S \<Longrightarrow> fd_step S S' \<Longrightarrow> fd_reachable S'"

lemma fd_step_inv: "fd_step S S' \<Longrightarrow> fd_inv S \<Longrightarrow> fd_inv S'"
proof (induction rule: fd_step.induct)
  case (install fd S a func arg S')
  then show ?case using fdevent_install_inv [of S fd a func arg] by fastforce
next
  case (create fd S a func arg S')
  then show ?case using fdevent_create_inv [of S fd a func arg] by fastforce
next
  case (remove S a f S')
  then show ?case using fdevent_remove_inv [of S a f] by fastforce
next
  case (set S a f evs S')
  then show ?case using fdevent_set_inv [of S a f evs] by fastforce
next
  case (add S a f evs S')
  then show ?case using fdevent_add_inv(1) [of S a f evs] by fastforce
next
  case (del S a f evs S')
  then show ?case using fdevent_add_inv(2) [of S a f evs] by fastforce
next
  case (process S sel bad S')
  then show ?case using process_round [of S sel bad] by (auto simp: round_post_def split: prod.splits)
next
  case (dispatch S c S')
  then show ?case using fdevent_next_inv [of S] by (auto split: list.splits)
next
  case (subproc fd S ev q rcount c q' S')
  then show ?case using fdevent_subproc_inv [of S fd ev q rcount] by fastforce
qed

lemma fd_reachable_fd_inv: "fd_reachable S \<Longrightarrow> fd_inv S"
  by (induction rule: fd_reachable.induct) (auto intro: fd_inv_init fd_step_inv)

section \<open>Properties\<close>

text \<open>
  A state with two fdevents, used to run the statements below: descriptor 5 wants to read and has a
  pending read event, descriptor 7 wants to write.
\<close>

definition sample_fds :: fdstate where
  "sample_fds = \<lparr>fdes = [1 \<mapsto> \<lparr>fde_fd = 5, force_eof = False, fde_state = 0x0301, fde_events = 0x0001,
        fde_func = Local_socket_event_func, fde_arg = 1\<rparr>,
      2 \<mapsto> \<lparr>fde_fd = 7, force_eof = False, fde_state = 0x0102, fde_events = 0,
        fde_func = Ss_listener_event_func, fde_arg = 2\<rparr>],
    pending = [1], fd_table = [None, None, None, None, None, Some 1, None, Some 2],
    read_fds = {5}, write_fds = {7}, error_fds = {}, select_n = 8, closed_fds = []\<rparr>"

lemma sample_simps:
  "fdes sample_fds a = Some f \<longleftrightarrow>
     a = 1 \<and> f = \<lparr>fde_fd = 5, force_eof = False, fde_state = 0x0301, fde_events = 0x0001,
        fde_func = Local_socket_event_func, fde_arg = 1\<rparr>
   \<or> a = 2 \<and> f = \<lparr>fde_fd = 7, force_eof = False, fde_state = 0x0102, fde_events = 0,
        fde_func = Ss_listener_event_func, fde_arg = 2\<rparr>"
  "pending sample_fds = [1]" "read_fds sample_fds = {5}" "write_fds sample_fds = {7}"
  "error_fds sample_fds = {}" "select_n sample_fds = 8"
  "fd_table sample_fds = [None, None, None, None, None, Some 1, None, Some 2]"
  by (auto simp: sample_fds_def split: if_splits)

lemma sample_used: "used_fds sample_fds = {5, 7}"
  by (auto simp: used_fds_def sample_simps less_Suc_eq nth_Cons' split: if_splits)

lemma sample_words:
  "has 0x0301 FDE_READ" "\<not> has 0x0301 FDE_WRITE" "\<not> has 0x0301 FDE_ERROR" "has 0x0301 FDE_ACTIVE"
  "has 0x0301 FDE_PENDING" "\<not> has 0x0102 FDE_READ" "has 0x0102 FDE_WRITE" "\<not> has 0x0102 FDE_ERROR"
  "has 0x0102 FDE_ACTIVE" "\<not> has 0x0102 FDE_PENDING"
  by (simp_all add: has_def fde_consts)

lemma sample_fd_inv: "fd_inv sample_fds"
  unfolding fd_inv_def sample_used
proof (intro conjI allI impI)
  fix a f assume "fdes sample_fds a = Some f" "active f"
  then show "fde_ok sample_fds a f"
    by (auto simp: sample_simps fde_ok_def sample_words FD_SETSIZE_def)
next
  show "\<forall>i\<in>{5, 7}. \<exists>a f. fd_table sample_fds ! i = Some a \<and> fdes sample_fds a = Some f \<and> active f \<and> fde_fd f = int i"
    by (simp add: sample_simps active_def sample_words)
next
  fix a show "a \<in> set (pending sample_fds) \<longleftrightarrow> (\<exists>f. fdes sample_fds a = Some f \<and> is_pending f)"
    by (cases "a = 1"; cases "a = 2") (simp_all add: sample_simps is_pending_def sample_words)
next
  fix a f assume "fdes sample_fds a = Some f" "is_pending f"
  then show "active f" by (auto simp: sample_simps active_def sample_words)
qed (simp_all add: sample_simps FD_SETSIZE_def)

text \<open>C11: In every state the event loop can reach from its start by calls within the rules (fresh descriptors below 1024, fdevents that are installed), the descriptor table, the three select sets, the
  pending list and the state words agree: an installed fdevent sits in the table under its own descriptor
  and is selected for exactly the events in its state word, and the pending list holds exactly the fdevents
  whose state word says so, each once.\<close>

theorem fd_reachable_consistent:
  assumes "fd_reachable S"
  shows "fd_inv S"
  using assms by (rule fd_reachable_fd_inv)

theorem fd_reachable_consistent_witness:
  "\<exists>S. fdevent_install 1 5 Local_socket_event_func 11 fdstate_init = Inr S \<and> fd_reachable S \<and> fd_inv S"
proof -
  have fresh: "fresh_fd 5 fdstate_init" by (simp add: fresh_fd_def fdstate_init_def FD_SETSIZE_def used_fds_def)
  from fdevent_install_inv [OF fd_inv_init this, of 1 Local_socket_event_func 11]
  obtain S where S: "fdevent_install 1 5 Local_socket_event_func 11 fdstate_init = Inr S"
    by (auto simp: fdstate_init_def)
  then have "fd_step fdstate_init S"
    using fresh by (intro fd_step.install [of 5 _ 1]) (simp_all add: fdstate_init_def)
  then have "fd_reachable S" by (intro fd_reachable.step [OF fd_reachable.start])
  with S fd_reachable_consistent show ?thesis by blast
qed

text \<open>C28: The event loop never aborts on a program that uses it properly: in a reachable state installing on a
  fresh descriptor below 1024, changing the interest set of an installed fdevent, removing it, a round of
  select and the dispatch of the next pending fdevent all succeed; none of the FATAL branches is taken.\<close>

theorem fd_operations_succeed:
  assumes "fd_reachable S"
  shows "(\<forall>b fd func arg. fresh_fd fd S \<and> (\<forall>f. fdes S b = Some f \<longrightarrow> \<not> active f) \<longrightarrow>
          is_ok (fdevent_install b fd func arg S) \<and> is_ok (fdevent_create b fd func arg S))
    \<and> (\<forall>a f evs. fdes S a = Some f \<and> active f \<longrightarrow>
          is_ok (fdevent_set a evs S) \<and> is_ok (fdevent_add a evs S) \<and> is_ok (fdevent_del a evs S)
          \<and> is_ok (fdevent_remove a S))
    \<and> (\<forall>sel bad. select_ok S sel \<longrightarrow> is_ok (fdevent_process sel bad S))
    \<and> is_ok (fdevent_next S)"
proof (intro conjI allI impI)
  note inv = fd_reachable_fd_inv [OF assms]
  fix b fd func arg assume "fresh_fd fd S \<and> (\<forall>f. fdes S b = Some f \<longrightarrow> \<not> active f)"
  then show "is_ok (fdevent_install b fd func arg S)" "is_ok (fdevent_create b fd func arg S)"
    using fdevent_install_inv [OF inv, of fd b func arg] fdevent_create_inv [OF inv, of fd b func arg]
    by (auto simp: is_ok_iff)
next
  note inv = fd_reachable_fd_inv [OF assms]
  fix a f evs assume "fdes S a = Some f \<and> active f"
  then show "is_ok (fdevent_set a evs S)" "is_ok (fdevent_add a evs S)" "is_ok (fdevent_del a evs S)"
    "is_ok (fdevent_remove a S)"
    using fdevent_set_inv [OF inv, of a f evs] fdevent_add_inv [OF inv, of a f evs]
      fdevent_remove_inv [OF inv, of a f] by (auto simp: is_ok_iff)
next
  note inv = fd_reachable_fd_inv [OF assms]
  show "is_ok (fdevent_next S)"
    using fdevent_next_inv [OF inv] by (auto simp: is_ok_iff split: list.splits)
  fix sel bad assume "select_ok S sel"
  then show "is_ok (fdevent_process sel bad S)"
    using process_round [OF inv] by (auto simp: is_ok_iff)
qed

theorem fd_operations_succeed_witness:
  "is_ok (fdevent_install 3 9 Listener_event_func 4 fdstate_init) \<and> is_ok (fdevent_next fdstate_init)"
proof -
  have "fresh_fd 9 fdstate_init \<and> (\<forall>f. fdes fdstate_init 3 = Some f \<longrightarrow> \<not> active f)"
    by (simp add: fresh_fd_def fdstate_init_def FD_SETSIZE_def used_fds_def)
  with fd_operations_succeed [OF fd_reachable.start] show ?thesis by blast
qed

text \<open>One round of select: every installed fdevent gets exactly the read, write and error events select reported
  for its descriptor added to its event word and becomes pending if there is any, and nothing else about it
  changes; after an EBADF, or a count of zero, the descriptors that are no longer open get a read event.\<close>

theorem fdevent_process_posts_events:
  assumes "fd_inv S" "select_ok S sel"
  shows "\<exists>S'. fdevent_process sel bad S = Inr S' \<and> fd_inv S' \<and> closed_fds S' = closed_fds S
    \<and> fd_table S' = fd_table S
    \<and> (case reported sel bad S of (r, w, e) \<Rightarrow>
         \<forall>a f. fdes S a = Some f \<longrightarrow> active f \<longrightarrow>
           fdes S' a = Some (mark (events_at r w e (nat (fde_fd f))) f))"
  using process_round [OF assms, of bad] by (auto simp: round_post_def split: prod.splits)

theorem fdevent_process_posts_events_witness:
  "\<exists>S'. fdevent_process (Selected 1 {} {7} {}) (\<lambda>_. False) sample_fds = Inr S'
     \<and> fdes S' 2 = Some \<lparr>fde_fd = 7, force_eof = False, fde_state = 0x0302, fde_events = 0x0002,
         fde_func = Ss_listener_event_func, fde_arg = 2\<rparr>"
proof -
  have "select_ok sample_fds (Selected 1 {} {7} {})" by (simp add: select_ok_def sample_simps)
  from fdevent_process_posts_events [OF sample_fd_inv this, of "\<lambda>_. False"] obtain S' where
    S': "fdevent_process (Selected 1 {} {7} {}) (\<lambda>_. False) sample_fds = Inr S'"
    and post: "\<And>a f. fdes sample_fds a = Some f \<Longrightarrow> active f \<Longrightarrow>
           fdes S' a = Some (mark (events_at {} {7} {} (nat (fde_fd f))) f)"
    by (auto simp: reported_def)
  have two: "fdes sample_fds 2 = Some \<lparr>fde_fd = 7, force_eof = False, fde_state = 0x0102, fde_events = 0,
        fde_func = Ss_listener_event_func, fde_arg = 2\<rparr>" by (simp add: sample_simps)
  show ?thesis
    using S' post [OF two] by (simp add: active_def has_def mark_def events_at_def fde_consts)
qed

text \<open>Changing the interest set of a pending fdevent clears from its event word the events that are now wanted and
  keeps the others (the comment in the source says the opposite is meant); if no event is left the fdevent
  leaves the pending list and its callback is not called for the events already reported.\<close>

theorem fdevent_set_drops_wanted_events:
  assumes "fd_inv S" "fdes S a = Some f" "active f" "is_pending f"
    and "fde_state f AND FDE_EVENTMASK \<noteq> evs AND FDE_EVENTMASK"
  shows "\<exists>S' f'. fdevent_set a evs S = Inr S' \<and> fdes S' a = Some f'
    \<and> fde_events f' = fde_events f AND NOT (evs AND FDE_EVENTMASK)
    \<and> (a \<in> set (pending S') \<longleftrightarrow> fde_events f' \<noteq> 0)"
proof -
  let ?ev = "evs AND FDE_EVENTMASK"
  from fdevent_set_active [OF assms(1,2,3,5)] obtain S' where S': "fdevent_set a evs S = Inr S'"
    "fdes S' = (fdes S)(a \<mapsto> set_fde ?ev f)" "fd_inv S'" by blast
  note w = state_word_events [OF mask_idem [of evs]]
  have "is_pending (set_fde ?ev f) \<longleftrightarrow> fde_events (set_fde ?ev f) \<noteq> 0"
    using assms(4) by (auto simp: set_fde_def Let_def is_pending_def w has_clear_pending)
  moreover have "fde_events (set_fde ?ev f) = fde_events f AND NOT ?ev"
    using assms(4) by (simp add: set_fde_def Let_def)
  moreover have "a \<in> set (pending S') \<longleftrightarrow> is_pending (set_fde ?ev f)"
    using fd_invD(8) [OF S'(3), of a] S'(2) by simp
  ultimately show ?thesis using S' by simp
qed

theorem fdevent_set_drops_wanted_events_witness:
  "\<exists>S' f'. fdevent_set 1 (FDE_READ OR FDE_WRITE) sample_fds = Inr S' \<and> fdes S' 1 = Some f'
     \<and> fde_events f' = 0 \<and> 1 \<notin> set (pending S')"
proof -
  let ?f = "\<lparr>fde_fd = 5, force_eof = False, fde_state = 0x0301, fde_events = 0x0001,
        fde_func = Local_socket_event_func, fde_arg = 1\<rparr>"
  have f: "fdes sample_fds 1 = Some ?f" "active ?f" "is_pending ?f"
    by (simp_all add: sample_simps active_def is_pending_def sample_words)
  have "fde_state ?f AND FDE_EVENTMASK \<noteq> (FDE_READ OR FDE_WRITE) AND FDE_EVENTMASK"
    by (simp add: fde_consts)
  from fdevent_set_drops_wanted_events [OF sample_fd_inv f this] show ?thesis
    by (auto simp: fde_consts)
qed

text \<open>A descriptor from 1024 to 32000 passes the check of the table, so installing an fdevent on it succeeds, but
  as soon as any event is asked for, the select sets are written out of bounds.\<close>

theorem fdevent_above_FD_SETSIZE:
  assumes "1024 \<le> fd" "fd \<le> 32000" and "has ev FDE_READ"
  shows "\<exists>S. fdevent_install a fd func arg fdstate_init = Inr S \<and> fdevent_add a ev S = Inl BufferOverflow"
proof -
  let ?f = "\<lparr>fde_fd = fd, force_eof = False, fde_state = FDE_ACTIVE, fde_events = 0,
      fde_func = func, fde_arg = arg\<rparr>"
  let ?S0 = "store a ?f fdstate_init"
  from assms(1,2) fdevent_register_spec [of ?S0 a ?f] obtain tab
    where "fdevent_register a ?S0 = Inr (?S0\<lparr>fd_table := tab\<rparr>)" by (auto simp: fdstate_init_def)
  then have inst: "fdevent_install a fd func arg fdstate_init = Inr (?S0\<lparr>fd_table := tab, select_n := nat (fd + 1)\<rparr>)"
    using assms(1) by (simp add: fdevent_install_def fdevent_connect_def store_def fdstate_init_def)
  have z: "FDE_ACTIVE AND FDE_EVENTMASK = 0" by (simp add: fde_consts)
  have "bit (ev AND FDE_EVENTMASK) 0" using assms(3) by (simp add: fde_bits)
  then have nz: "ev AND FDE_EVENTMASK \<noteq> 0" by fastforce
  have act: "has FDE_ACTIVE FDE_ACTIVE" by (simp add: fde_bits)
  have "fdevent_add a ev (?S0\<lparr>fd_table := tab, select_n := nat (fd + 1)\<rparr>) = Inl BufferOverflow"
    using assms(1) nz act by (simp add: fdevent_add_def fdevent_set_def fetch_def store_def z fdevent_update_def
        FD_SETSIZE_def and.assoc Let_def)
  with inst show ?thesis by blast
qed

theorem fdevent_above_FD_SETSIZE_witness:
  "\<exists>S. fdevent_install 1 1024 Listener_event_func 2 fdstate_init = Inr S \<and> fdevent_add 1 FDE_READ S = Inl BufferOverflow"
  by (rule fdevent_above_FD_SETSIZE) (simp_all add: has_def fde_consts)

end
