(* ===== verification/Adb_World.thy ===== *)
theory Adb_World
  imports Packet Fdevent
begin

text \<open>
  The state of the adb server (adb.h): asockets, transports and listeners on a heap of addresses with the
  global lists, counters and tables of sockets.c, transport.c, transport_local.c and adb.c, the event loop's
  state and the descriptors. A function pointer is a value of a datatype with one constructor per function
  the sources store there. The fdevent and the adisconnect embedded in a struct have the struct's address.
  The lists are in their list view (theory \<open>Intrusive_List\<close>), except for the device list: the sources unlink a transport from it
  more than once, and what that does depends on the pointers. \<open>dev_nxt\<close> and \<open>dev_prv\<close> are the fields \<^verbatim>\<open>next\<close> and \<^verbatim>\<open>prev\<close> of the
  transports and of the list head (address 0; an absent entry is a null pointer), and \<open>transport_list\<close> is what a walk along the \<^verbatim>\<open>next\<close>
  pointers visits. The socket pair between the event loop and a
  transport's threads carries packets in both directions and is two queues; \<open>pair_broken\<close> says that the
  kernel refuses a write to it.
\<close>

section \<open>Sockets\<close>

datatype enqueue_fn =
    Local_socket_enqueue | Remote_socket_enqueue | Smart_socket_enqueue | Device_tracker_enqueue

datatype ready_fn =
    Local_socket_ready | Local_socket_ready_notify | Remote_socket_ready | Smart_socket_ready
  | Device_tracker_ready

datatype close_fn =
    Local_socket_close | Local_socket_close_notify | Remote_socket_close | Smart_socket_close
  | Device_tracker_close

record asocket =
  s_id :: u32
  closing :: bool
  exit_on_close :: bool
  peer :: "addr option"
  s_fd :: int
  pkts :: "apacket list"
  enqueue :: enqueue_fn
  ready :: ready_fn
  close :: close_fn
  s_transport :: "addr option"
  update_needed :: bool

section \<open>Transports\<close>

datatype connection_state =
    CS_OFFLINE | CS_BOOTLOADER | CS_DEVICE | CS_HOST | CS_RECOVERY | CS_NOPERM | CS_SIDELOAD

datatype transport_type = KTransportUsb | KTransportLocal | KTransportAny | KTransportHost

text \<open>The four function pointers of a transport are set together, by \<^verbatim>\<open>init_socket_transport\<close> or by
  \<^verbatim>\<open>init_usb_transport\<close>.\<close>

datatype transport_ops = Socket_ops | Usb_ops

datatype adisconnect = Remote_socket_disconnect addr | Listener_disconnect addr

record atransport =
  t_ops :: transport_ops
  t_fd :: int
  transport_socket :: int
  ref_count :: int
  sync_token :: u32
  connection_state :: connection_state
  t_type :: transport_type
  t_usb :: "addr option"
  sfd :: int
  serial :: "string option"
  product :: "string option"
  adb_port :: int
  kicked :: bool
  disconnects :: "adisconnect list"
  to_threads :: "apacket list"
  to_loop :: "apacket list"
  pair_broken :: bool

record alistener =
  l_fd :: int
  local_name :: string
  connect_to :: string
  l_transport :: "addr option"

text \<open>Threads of services.c: what runs on the far end of a service socket.\<close>

datatype service = Dns_service string | Wait_for_state transport_type "string option"

section \<open>The whole\<close>

record world =
  sockets :: "addr \<rightharpoonup> asocket"
  local_socket_list :: "addr list"
  local_socket_closing_list :: "addr list"
  local_socket_next_id :: u32
  socket_list_lock :: bool
  transports :: "addr \<rightharpoonup> atransport"
  dev_nxt :: "addr \<rightharpoonup> addr"
  dev_prv :: "addr \<rightharpoonup> addr"
  transport_list :: "addr list"
  device_tracker_list :: "addr list"
  listeners :: "addr \<rightharpoonup> alistener"
  listener_list :: "addr list"
  local_transports :: "addr option list"
  registration :: "(addr \<times> bool) list"
  fds :: fdstate
  incoming :: "int \<Rightarrow> rscript"
  outgoing :: "int \<Rightarrow> wscript"
  written :: "int \<Rightarrow> bytes"
  shut_fds :: "int list"
  usb_kicked :: "addr list"
  usb_closed :: "addr list"
  HOST :: bool
  spawned :: "(int \<times> service) list"
  next_addr :: addr

definition ADB_LOCAL_TRANSPORT_MAX :: nat where "ADB_LOCAL_TRANSPORT_MAX = 16"

definition world_init :: world where
  "world_init = \<lparr>sockets = Map.empty, local_socket_list = [], local_socket_closing_list = [],
     local_socket_next_id = 1, socket_list_lock = False, transports = Map.empty,
     dev_nxt = [0 \<mapsto> 0], dev_prv = [0 \<mapsto> 0], transport_list = [],
     device_tracker_list = [], listeners = Map.empty, listener_list = [],
     local_transports = replicate ADB_LOCAL_TRANSPORT_MAX None, registration = [], fds = fdstate_init,
     incoming = (\<lambda>_. []), outgoing = (\<lambda>_. []), written = (\<lambda>_. []), shut_fds = [], usb_kicked = [],
     usb_closed = [], HOST = True, spawned = [], next_addr = 1\<rparr>"

section \<open>Access\<close>

definition getS :: "addr \<Rightarrow> world \<Rightarrow> asocket res" where
  "getS a W = (case sockets W a of None \<Rightarrow> Inl (UseAfterFree a) | Some s \<Rightarrow> Inr s)"

definition setS :: "addr \<Rightarrow> asocket \<Rightarrow> world \<Rightarrow> world" where
  "setS a s W = W\<lparr>sockets := (sockets W)(a \<mapsto> s)\<rparr>"

definition updS :: "addr \<Rightarrow> (asocket \<Rightarrow> asocket) \<Rightarrow> world \<Rightarrow> world res" where
  "updS a f W = rbind (getS a W) (\<lambda>s. Inr (setS a (f s) W))"

definition freeS :: "addr \<Rightarrow> world \<Rightarrow> world" where
  "freeS a W = W\<lparr>sockets := (sockets W)(a := None)\<rparr>"

definition getT :: "addr \<Rightarrow> world \<Rightarrow> atransport res" where
  "getT a W = (case transports W a of None \<Rightarrow> Inl (UseAfterFree a) | Some t \<Rightarrow> Inr t)"

definition updT :: "addr \<Rightarrow> (atransport \<Rightarrow> atransport) \<Rightarrow> world \<Rightarrow> world res" where
  "updT a f W = rbind (getT a W) (\<lambda>t. Inr (W\<lparr>transports := (transports W)(a \<mapsto> f t)\<rparr>))"

definition getL :: "addr \<Rightarrow> world \<Rightarrow> alistener res" where
  "getL a W = (case listeners W a of None \<Rightarrow> Inl (UseAfterFree a) | Some l \<Rightarrow> Inr l)"

definition deref :: "addr option \<Rightarrow> addr res" where
  "deref p = (case p of None \<Rightarrow> Inl NullDeref | Some a \<Rightarrow> Inr a)"

text \<open>An operation of the event loop on the embedded fdevents.\<close>

definition on_fds :: "(fdstate \<Rightarrow> fdstate res) \<Rightarrow> world \<Rightarrow> world res" where
  "on_fds f W = rbind (f (fds W)) (\<lambda>F. Inr (W\<lparr>fds := F\<rparr>))"

text \<open>One \<^verbatim>\<open>adb_write\<close>, and one \<^verbatim>\<open>writex\<close>, on a descriptor.\<close>

definition w_write :: "int \<Rightarrow> bytes \<Rightarrow> world \<Rightarrow> (errno + nat) \<times> world" where
  "w_write fd bs W =
     (case adb_write (length bs) (outgoing W fd) of
        (r, q) \<Rightarrow>
          (r, W\<lparr>outgoing := (outgoing W)(fd := q),
                written := (written W)(fd := written W fd @ (case r of Inr n \<Rightarrow> take n bs | Inl _ \<Rightarrow> []))\<rparr>))"

definition w_writex :: "int \<Rightarrow> bytes \<Rightarrow> world \<Rightarrow> int \<times> world" where
  "w_writex fd bs W =
     (case writex bs (outgoing W fd) of
        (r, sent, q) \<Rightarrow>
          (r, W\<lparr>outgoing := (outgoing W)(fd := q), written := (written W)(fd := written W fd @ sent)\<rparr>))"

definition w_read :: "int \<Rightarrow> nat \<Rightarrow> world \<Rightarrow> (errno + bytes) \<times> world" where
  "w_read fd n W =
     (case adb_read n (incoming W fd) of (r, q) \<Rightarrow> (r, W\<lparr>incoming := (incoming W)(fd := q)\<rparr>))"

lemma getS_Some [simp]: "sockets W a = Some s \<Longrightarrow> getS a W = Inr s"
  by (simp add: getS_def)

lemma getT_Some [simp]: "transports W a = Some t \<Longrightarrow> getT a W = Inr t"
  by (simp add: getT_def)

lemma getL_Some [simp]: "listeners W a = Some l \<Longrightarrow> getL a W = Inr l"
  by (simp add: getL_def)

lemma deref_simps [simp]: "deref None = Inl NullDeref" "deref (Some a) = Inr a"
  by (simp_all add: deref_def)

lemma updS_Some [simp]: "sockets W a = Some s \<Longrightarrow> updS a f W = Inr (setS a (f s) W)"
  by (simp add: updS_def)

lemma updT_Some [simp]:
  "transports W a = Some t \<Longrightarrow> updT a f W = Inr (W\<lparr>transports := (transports W)(a \<mapsto> f t)\<rparr>)"
  by (simp add: updT_def)

end
