(* ===== verification/Transport.thy ===== *)
theory Transport
  imports Adb_World
begin

text \<open>
  Transports: the device list of transport.c with its pointers, acquiring, listing, reference counting, kicking and
  registration, and the table of local transports of transport_local.c. Registration and removal are
  messages to the event loop (the queue \<open>registration\<close>); what the loop does with them is in theory
  \<open>Adb_Server\<close>. A loop over the device list reads freed
  memory if it comes to a transport that has been freed. Name resolution and connecting (\<^verbatim>\<open>socket_network_client\<close>, \<^verbatim>\<open>socket_loopback_client\<close> of
  libcutils) are parameters. The sections under \<^verbatim>\<open>transport_lock\<close> are atomic.
\<close>

section \<open>Sending a packet\<close>

definition send_packet :: "apacket \<Rightarrow> addr option \<Rightarrow> world \<Rightarrow> world res" where
  "send_packet p t W =
     (let p1 = seal_packet p in
      case t of
        None \<Rightarrow> Inl (Fatal ''Transport is null'')
      | Some a \<Rightarrow>
          rbind (getT a W) (\<lambda>tr.
            if pair_broken tr then Inl (Fatal ''cannot enqueue packet on transport socket'')
            else updT a (\<lambda>tr. tr\<lparr>to_threads := to_threads tr @ [p1]\<rparr>) W))"

section \<open>The transport list\<close>

fun fetch_all :: "addr list \<Rightarrow> world \<Rightarrow> (addr \<times> atransport) list res" where
  "fetch_all [] W = Inr []"
| "fetch_all (a # as) W =
     rbind (getT a W) (\<lambda>t. rbind (fetch_all as W) (\<lambda>ts. Inr ((a, t) # ts)))"

text \<open>The same for a loop that may end early: the transports up to the first freed one, and that one.\<close>

fun fetch_live :: "addr list \<Rightarrow> world \<Rightarrow> (addr \<times> atransport) list \<times> addr option" where
  "fetch_live [] W = ([], None)"
| "fetch_live (a # as) W =
     (case transports W a of
        None \<Rightarrow> ([], Some a)
      | Some t \<Rightarrow> (case fetch_live as W of (ts, bad) \<Rightarrow> ((a, t) # ts, bad)))"

definition walked :: "addr option \<Rightarrow> bool \<Rightarrow> 'a \<Rightarrow> 'a res" where
  "walked bad stopped x = (case bad of None \<Rightarrow> Inr x | Some b \<Rightarrow> if stopped then Inr x else Inl (UseAfterFree b))"

text \<open>\<^verbatim>\<open>for (t = transport_list.next; t != &transport_list; t = t->next)\<close>. The number of steps is bounded by the number of
  objects; that this is enough, and that no null pointer is met, is part of the invariant of the server.\<close>

fun walk :: "nat \<Rightarrow> (addr \<rightharpoonup> addr) \<Rightarrow> addr \<Rightarrow> addr list" where
  "walk 0 nx a = []"
| "walk (Suc n) nx a = (case nx a of None \<Rightarrow> [] | Some b \<Rightarrow> if b = 0 then [] else b # walk n nx b)"

definition relist :: "world \<Rightarrow> world" where
  "relist W = W\<lparr>transport_list := walk (next_addr W) (dev_nxt W) 0\<rparr>"

definition node :: "addr \<Rightarrow> world \<Rightarrow> unit res" where
  "node a W = (if a = 0 \<or> transports W a \<noteq> None then Inr () else Inl (UseAfterFree a))"

text \<open>Appending at the tail (in \<^verbatim>\<open>transport_registration_func\<close>).\<close>

definition link_transport :: "addr \<Rightarrow> world \<Rightarrow> world res" where
  "link_transport a W =
     rbind (getT a W) (\<lambda>t.
     rbind (deref (dev_prv W 0)) (\<lambda>p.
     rbind (node p W) (\<lambda>_.
       Inr (relist (W\<lparr>dev_nxt := (dev_nxt W)(a \<mapsto> 0, p \<mapsto> a), dev_prv := (dev_prv W)(a \<mapsto> p, 0 \<mapsto> a)\<rparr>)))))"

text \<open>
  \<^verbatim>\<open>t->next->prev = t->prev; t->prev->next = t->next\<close>. The pointers of \<open>t\<close> itself stay as they are, also when it is unlinked again later:
  the assignments then go to its old neighbours, whatever has become of them, and fail only if one has been freed.
\<close>

definition unlink_transport :: "addr \<Rightarrow> world \<Rightarrow> world res" where
  "unlink_transport a W =
     rbind (getT a W) (\<lambda>t.
     rbind (deref (dev_nxt W a)) (\<lambda>n.
     rbind (deref (dev_prv W a)) (\<lambda>p.
     rbind (node n W) (\<lambda>_.
     rbind (node p W) (\<lambda>_.
       Inr (relist (W\<lparr>dev_prv := (dev_prv W)(n \<mapsto> p), dev_nxt := (dev_nxt W)(p \<mapsto> n)\<rparr>)))))))"

section \<open>Kicking and closing\<close>

fun clear_slot :: "addr \<Rightarrow> addr option list \<Rightarrow> addr option list" where
  "clear_slot a [] = []"
| "clear_slot a (x # xs) = (if x = Some a then None # xs else x # clear_slot a xs)"

definition remote_kick :: "addr \<Rightarrow> world \<Rightarrow> world res" where
  "remote_kick a W =
     rbind (getT a W) (\<lambda>t.
     rbind (updT a (\<lambda>t. t\<lparr>sfd := -1\<rparr>) W) (\<lambda>W1.
       let W2 = W1\<lparr>shut_fds := shut_fds W1 @ [sfd t]\<rparr> in
       Inr (if HOST W2 then W2\<lparr>local_transports := clear_slot a (local_transports W2)\<rparr> else W2)))"

definition usb_remote_kick :: "addr \<Rightarrow> world \<Rightarrow> world res" where
  "usb_remote_kick a W =
     rbind (getT a W) (\<lambda>t. rbind (deref (t_usb t)) (\<lambda>h. Inr (W\<lparr>usb_kicked := usb_kicked W @ [h]\<rparr>)))"

definition t_kick :: "addr \<Rightarrow> world \<Rightarrow> world res" where
  "t_kick a W =
     rbind (getT a W) (\<lambda>t. case t_ops t of Socket_ops \<Rightarrow> remote_kick a W | Usb_ops \<Rightarrow> usb_remote_kick a W)"

definition remote_close :: "addr \<Rightarrow> world \<Rightarrow> world res" where
  "remote_close a W = rbind (getT a W) (\<lambda>t. Inr (W\<lparr>shut_fds := shut_fds W @ [t_fd t]\<rparr>))"

definition usb_remote_close :: "addr \<Rightarrow> world \<Rightarrow> world res" where
  "usb_remote_close a W =
     rbind (getT a W) (\<lambda>t. rbind (deref (t_usb t)) (\<lambda>h.
       updT a (\<lambda>t. t\<lparr>t_usb := None\<rparr>) (W\<lparr>usb_closed := usb_closed W @ [h]\<rparr>)))"

definition t_close :: "addr \<Rightarrow> world \<Rightarrow> world res" where
  "t_close a W =
     rbind (getT a W) (\<lambda>t. case t_ops t of Socket_ops \<Rightarrow> remote_close a W | Usb_ops \<Rightarrow> usb_remote_close a W)"

text \<open>The section of \<^verbatim>\<open>kick_transport\<close> under \<^verbatim>\<open>transport_lock\<close>: the first caller marks the transport and is told to go on. The call of
  \<^verbatim>\<open>t->kick\<close> comes after the lock has been released; for the threads of a transport the two are separate steps.\<close>

definition kick_mark :: "addr \<Rightarrow> world \<Rightarrow> (bool \<times> world) res" where
  "kick_mark a W =
     rbind (getT a W) (\<lambda>t.
       if kicked t then Inr (False, W)
       else rbind (updT a (\<lambda>t. t\<lparr>kicked := True\<rparr>) W) (\<lambda>W1. Inr (True, W1)))"

definition kick_transport :: "addr option \<Rightarrow> world \<Rightarrow> world res" where
  "kick_transport p W =
     (case p of
        None \<Rightarrow> Inr W
      | Some a \<Rightarrow> rbind (kick_mark a W) (\<lambda>(first, W1). if first then t_kick a W1 else Inr W1))"

section \<open>Registration messages and reference counts\<close>

definition register_transport :: "addr \<Rightarrow> world \<Rightarrow> world" where
  "register_transport a W = W\<lparr>registration := registration W @ [(a, True)]\<rparr>"

definition remove_transport :: "addr \<Rightarrow> world \<Rightarrow> world" where
  "remove_transport a W = W\<lparr>registration := registration W @ [(a, False)]\<rparr>"

definition transport_unref_locked :: "addr \<Rightarrow> world \<Rightarrow> world res" where
  "transport_unref_locked a W =
     rbind (updT a (\<lambda>t. t\<lparr>ref_count := ref_count t - 1\<rparr>) W) (\<lambda>W1.
     rbind (getT a W1) (\<lambda>t.
       if ref_count t = 0 then
         rbind (if kicked t then Inr W1
                else rbind (updT a (\<lambda>t. t\<lparr>kicked := True\<rparr>) W1) (t_kick a)) (\<lambda>W2.
         rbind (t_close a W2) (\<lambda>W3. Inr (remove_transport a W3)))
       else Inr W1))"

definition transport_unref :: "addr option \<Rightarrow> world \<Rightarrow> world res" where
  "transport_unref p W = (case p of None \<Rightarrow> Inr W | Some a \<Rightarrow> transport_unref_locked a W)"

definition add_transport_disconnect :: "addr option \<Rightarrow> adisconnect \<Rightarrow> world \<Rightarrow> world res" where
  "add_transport_disconnect t d W =
     rbind (deref t) (\<lambda>a. updT a (\<lambda>t. t\<lparr>disconnects := disconnects t @ [d]\<rparr>) W)"

definition remove_transport_disconnect :: "addr option \<Rightarrow> adisconnect \<Rightarrow> world \<Rightarrow> world res" where
  "remove_transport_disconnect t d W =
     rbind (deref t) (\<lambda>a. updT a (\<lambda>t. t\<lparr>disconnects := remove1 d (disconnects t)\<rparr>) W)"

section \<open>Choosing a transport\<close>

text \<open>The loop over the list: the candidate, whether the choice is ambiguous, and the error text so far.\<close>

fun acquire_scan ::
    "transport_type \<Rightarrow> string option \<Rightarrow> (addr \<times> atransport) list \<Rightarrow> (addr \<times> atransport) option \<Rightarrow> string
       \<Rightarrow> (addr \<times> atransport) option \<times> bool \<times> string" where
  "acquire_scan ttype ser [] result err = (result, False, err)"
| "acquire_scan ttype ser ((a, t) # ts) result err =
     (if connection_state t = CS_NOPERM
      then acquire_scan ttype ser ts result ''insufficient permissions for device''
      else case ser of
        Some s \<Rightarrow> if serial t = Some s then (Some (a, t), False, err) else acquire_scan ttype ser ts result err
      | None \<Rightarrow>
          if ttype = KTransportUsb \<and> t_type t = KTransportUsb then
            if result \<noteq> None then (None, True, ''more than one device'')
            else acquire_scan ttype ser ts (Some (a, t)) err
          else if ttype = KTransportLocal \<and> t_type t = KTransportLocal then
            if result \<noteq> None then (None, True, ''more than one emulator'')
            else acquire_scan ttype ser ts (Some (a, t)) err
          else if ttype = KTransportAny then
            if result \<noteq> None then (None, True, ''more than one device and emulator'')
            else acquire_scan ttype ser ts (Some (a, t)) err
          else acquire_scan ttype ser ts result err)"

text \<open>One pass; the required state \<open>None\<close> is \<^verbatim>\<open>CS_ANY\<close>. The result is the transport, whether the choice
  was ambiguous, and the error text.\<close>

definition acquire_pass ::
    "connection_state option \<Rightarrow> transport_type \<Rightarrow> string option \<Rightarrow> (addr \<times> atransport) list
       \<Rightarrow> addr option \<times> bool \<times> string" where
  "acquire_pass st ttype ser ts =
     (case acquire_scan ttype ser ts None ''device not found'' of
        (None, amb, err) \<Rightarrow> (None, amb, err)
      | (Some (a, t), amb, err) \<Rightarrow>
          if connection_state t = CS_OFFLINE then (None, amb, ''device offline'')
          else if st \<noteq> None \<and> st \<noteq> Some (connection_state t) then (None, amb, ''invalid device state'')
          else (Some a, amb, err))"

text \<open>
  The retry loop; between two passes the thread sleeps, so that each pass sees another list. The argument
  are the lists it would see; the result is \<open>None\<close> if it is still waiting after the last of them.
\<close>

fun acquire_loop ::
    "connection_state option \<Rightarrow> transport_type \<Rightarrow> string option \<Rightarrow> (addr \<times> atransport) list list
       \<Rightarrow> (addr option \<times> string option) option" where
  "acquire_loop st ttype ser [] = None"
| "acquire_loop st ttype ser (ts # tss) =
     (case acquire_pass st ttype ser ts of
        (Some a, amb, err) \<Rightarrow> Some (Some a, None)
      | (None, amb, err) \<Rightarrow>
          if st \<noteq> None \<and> (ser \<noteq> None \<or> \<not> amb) then acquire_loop st ttype ser tss
          else Some (None, Some err))"

text \<open>The calls of the event loop ask for \<^verbatim>\<open>CS_ANY\<close> and so never wait. The loop is left early when the serial number is found or the
  choice is ambiguous.\<close>

definition scan_stops :: "transport_type \<Rightarrow> string option \<Rightarrow> (addr \<times> atransport) list \<Rightarrow> bool" where
  "scan_stops ttype ser ts =
     (case acquire_scan ttype ser ts None [] of (r, amb, err) \<Rightarrow> amb \<or> ser \<noteq> None \<and> r \<noteq> None)"

definition acquire_one_transport ::
    "transport_type \<Rightarrow> string option \<Rightarrow> world \<Rightarrow> (addr option \<times> string) res" where
  "acquire_one_transport ttype ser W =
     (case fetch_live (transport_list W) W of
        (ts, bad) \<Rightarrow>
          (case acquire_pass None ttype ser ts of (r, amb, err) \<Rightarrow> walked bad (scan_stops ttype ser ts) (r, err)))"

fun find_serial :: "string \<Rightarrow> (addr \<times> atransport) list \<Rightarrow> addr option" where
  "find_serial s [] = None"
| "find_serial s ((a, t) # ts) = (if serial t = Some s then Some a else find_serial s ts)"

definition find_transport :: "string \<Rightarrow> world \<Rightarrow> addr option res" where
  "find_transport s W =
     (case fetch_live (transport_list W) W of (ts, bad) \<Rightarrow> walked bad (find_serial s ts \<noteq> None) (find_serial s ts))"

section \<open>Listing\<close>

definition statename :: "atransport \<Rightarrow> string" where
  "statename t =
     (case connection_state t of
        CS_OFFLINE \<Rightarrow> ''offline''
      | CS_BOOTLOADER \<Rightarrow> ''bootloader''
      | CS_DEVICE \<Rightarrow> ''device''
      | CS_HOST \<Rightarrow> ''host''
      | CS_RECOVERY \<Rightarrow> ''recovery''
      | CS_SIDELOAD \<Rightarrow> ''sideload''
      | CS_NOPERM \<Rightarrow> ''no permissions'')"

definition transport_line :: "atransport \<Rightarrow> string" where
  "transport_line t =
     (case serial t of None \<Rightarrow> ''????????????'' | Some s \<Rightarrow> if s = [] then ''????????????'' else s)
       @ [TAB] @ statename t @ [NL]"

fun list_loop :: "nat \<Rightarrow> string list \<Rightarrow> string" where
  "list_loop room [] = []"
| "list_loop room (l # ls) = (if room \<le> length l then [] else l @ list_loop (room - length l) ls)"

fun list_full :: "nat \<Rightarrow> string list \<Rightarrow> bool" where
  "list_full room [] = False"
| "list_full room (l # ls) = (room \<le> length l \<or> list_full (room - length l) ls)"

definition list_transports :: "nat \<Rightarrow> world \<Rightarrow> string res" where
  "list_transports bufsize W =
     (case fetch_live (transport_list W) W of
        (ts, bad) \<Rightarrow>
          let ls = map (transport_line \<circ> snd) ts in walked bad (list_full bufsize ls) (list_loop bufsize ls))"

text \<open>The bytes of the buffer that count.\<close>

definition list_transports_msg :: "nat \<Rightarrow> world \<Rightarrow> bytes res" where
  "list_transports_msg bufferlen W =
     rbind (list_transports (bufferlen - 4) W) (\<lambda>body. Inr (take 4 (fmt_04x (length body)) @ body))"

section \<open>Local transports\<close>

fun find_port :: "int \<Rightarrow> addr option list \<Rightarrow> world \<Rightarrow> addr option res" where
  "find_port port [] W = Inr None"
| "find_port port (x # xs) W =
     (case x of
        None \<Rightarrow> find_port port xs W
      | Some a \<Rightarrow> rbind (getT a W) (\<lambda>t. if adb_port t = port then Inr (Some a) else find_port port xs W))"

definition find_emulator_transport_by_adb_port :: "int \<Rightarrow> world \<Rightarrow> addr option res" where
  "find_emulator_transport_by_adb_port port W = find_port port (local_transports W) W"

fun free_slot :: "addr option list \<Rightarrow> nat \<Rightarrow> int" where
  "free_slot [] i = -1"
| "free_slot (x # xs) i = (if x = None then int i else free_slot xs (i + 1))"

definition get_available_local_transport_index :: "world \<Rightarrow> int" where
  "get_available_local_transport_index W = free_slot (local_transports W) 0"

definition blank_transport :: atransport where
  "blank_transport = \<lparr>t_ops = Socket_ops, t_fd = 0, transport_socket = 0, ref_count = 0, sync_token = 0,
     connection_state = CS_OFFLINE, t_type = KTransportUsb, t_usb = None, sfd = 0, serial = None,
     product = None, adb_port = 0, kicked = False, disconnects = [], to_threads = [], to_loop = [],
     pair_broken = False\<rparr>"

text \<open>\<open>a\<close> is the transport being initialised; the result is the value returned, the transport and the table.\<close>

definition init_socket_transport ::
    "addr \<Rightarrow> atransport \<Rightarrow> int \<Rightarrow> int \<Rightarrow> bool \<Rightarrow> world \<Rightarrow> (int \<times> atransport \<times> world) res" where
  "init_socket_transport a t s port is_local W =
     (let t1 = t\<lparr>t_ops := Socket_ops, sfd := s, sync_token := 1, connection_state := CS_OFFLINE,
                 t_type := KTransportLocal, adb_port := 0\<rparr> in
      if HOST W \<and> is_local then
        rbind (find_emulator_transport_by_adb_port port W) (\<lambda>existing.
          let t2 = t1\<lparr>adb_port := port\<rparr>; i = get_available_local_transport_index W in
          if existing \<noteq> None then Inr (-1, t2, W)
          else if i < 0 then Inr (-1, t2, W)
          else Inr (0, t2, W\<lparr>local_transports := (local_transports W)[nat i := Some a]\<rparr>))
      else Inr (0, t1, W))"

definition register_socket_transport :: "int \<Rightarrow> string option \<Rightarrow> int \<Rightarrow> bool \<Rightarrow> world \<Rightarrow> world res" where
  "register_socket_transport s ser port is_local W =
     (let a = next_addr W; W0 = W\<lparr>next_addr := a + 1\<rparr>;
          ser' = (case ser of None \<Rightarrow> snprintf 32 (''T-0x'' @ digits 16 a) | Some x \<Rightarrow> x) in
      rbind (init_socket_transport a blank_transport s port is_local W0) (\<lambda>(r, t, W1).
        if r < 0 then Inr (W1\<lparr>shut_fds := shut_fds W1 @ [s]\<rparr>)
        else Inr (register_transport a
               (W1\<lparr>transports := (transports W1)(a \<mapsto> t\<lparr>serial := Some ser'\<rparr>)\<rparr>))))"

definition init_usb_transport :: "atransport \<Rightarrow> addr \<Rightarrow> connection_state \<Rightarrow> atransport" where
  "init_usb_transport t h st =
     t\<lparr>t_ops := Usb_ops, sync_token := 1, connection_state := st, t_type := KTransportUsb, t_usb := Some h\<rparr>"

definition register_usb_transport :: "addr \<Rightarrow> string option \<Rightarrow> bool \<Rightarrow> world \<Rightarrow> world" where
  "register_usb_transport h ser writeable W =
     (let a = next_addr W;
          t = init_usb_transport blank_transport h (if writeable then CS_OFFLINE else CS_NOPERM)
      in register_transport a
           (W\<lparr>next_addr := a + 1, HOST := True, transports := (transports W)(a \<mapsto> t\<lparr>serial := ser\<rparr>)\<rparr>))"

definition unregister_transport :: "addr \<Rightarrow> world \<Rightarrow> world res" where
  "unregister_transport a W =
     rbind (unlink_transport a W) (\<lambda>W1.
     rbind (kick_transport (Some a) W1) (\<lambda>W2.
       transport_unref (Some a) W2))"

text \<open>The loop of \<^verbatim>\<open>unregister_all_tcp_transports\<close>; the successor is read before the body runs, and no pointer behind it is
  changed by the body (lemma \<open>unlink_keeps_later\<close> of theory \<open>Server_Run\<close>).\<close>

fun unregister_tcp_loop :: "addr list \<Rightarrow> world \<Rightarrow> world res" where
  "unregister_tcp_loop [] W = Inr W"
| "unregister_tcp_loop (a # as) W =
     rbind (getT a W) (\<lambda>t.
     rbind (if t_type t = KTransportLocal \<and> adb_port t = 0 then
              rbind (unlink_transport a W) (\<lambda>W1.
              rbind (if kicked t then Inr W1
                     else rbind (updT a (\<lambda>t. t\<lparr>kicked := True\<rparr>) W1) (t_kick a)) (\<lambda>W2.
                transport_unref_locked a W2))
            else Inr W) (unregister_tcp_loop as))"

definition unregister_all_tcp_transports :: "world \<Rightarrow> world res" where
  "unregister_all_tcp_transports W = unregister_tcp_loop (transport_list W) W"

fun find_usb :: "addr \<Rightarrow> (addr \<times> atransport) list \<Rightarrow> addr option" where
  "find_usb h [] = None"
| "find_usb h ((a, t) # ts) =
     (if t_usb t = Some h \<and> connection_state t = CS_NOPERM then Some a else find_usb h ts)"

definition unregister_usb_transport :: "addr \<Rightarrow> world \<Rightarrow> world res" where
  "unregister_usb_transport h W =
     (case fetch_live (transport_list W) W of
        (ts, bad) \<Rightarrow>
          (case find_usb h ts of None \<Rightarrow> walked bad False W | Some a \<Rightarrow> unlink_transport a W))"

fun kick_loop :: "addr list \<Rightarrow> world \<Rightarrow> world res" where
  "kick_loop [] W = Inr W"
| "kick_loop (a # as) W =
     rbind (getT a W) (\<lambda>t.
     rbind (if kicked t then Inr W else rbind (updT a (\<lambda>t. t\<lparr>kicked := True\<rparr>) W) (t_kick a)) (kick_loop as))"

definition close_usb_devices :: "world \<Rightarrow> world res" where
  "close_usb_devices W = kick_loop (transport_list W) W"

section \<open>Connecting to emulators\<close>

definition LOCAL_CLIENT_PREFIX :: string where "LOCAL_CLIENT_PREFIX = ''emulator-''"
definition DEFAULT_ADB_LOCAL_TRANSPORT_PORT :: int where "DEFAULT_ADB_LOCAL_TRANSPORT_PORT = 5555"

text \<open>The environment: \<^verbatim>\<open>ADBHOST\<close>, the descriptors (or -1) that the connect and bind functions of libcutils
  yield, what \<^verbatim>\<open>adb_socketpair\<close> yields for a service thread and whether the thread can be started.\<close>

datatype namespace = Ns_reserved | Ns_abstract | Ns_filesystem

record net_env =
  adbhost :: "string option"
  network_client :: "string \<Rightarrow> int \<Rightarrow> int"
  loopback_client :: "int \<Rightarrow> int"
  local_client :: "string \<Rightarrow> namespace \<Rightarrow> int"
  loopback_server :: "int \<Rightarrow> int"
  local_server :: "string \<Rightarrow> namespace \<Rightarrow> int"
  service_pair :: "(int \<times> int) option"
  thread_ok :: bool

definition local_connect_arbitrary_ports :: "net_env \<Rightarrow> int \<Rightarrow> int \<Rightarrow> world \<Rightarrow> (int \<times> world) res" where
  "local_connect_arbitrary_ports E console_port port W =
     (let fd0 = (case adbhost E of None \<Rightarrow> -1 | Some h \<Rightarrow> network_client E h port);
          fd = (if fd0 < 0 then loopback_client E port else fd0) in
      if 0 \<le> fd then
        rbind (register_socket_transport fd (Some (snprintf 64 (LOCAL_CLIENT_PREFIX @ fmt_d console_port)))
                 port True W) (\<lambda>W1. Inr (0, W1))
      else Inr (-1, W))"

definition local_connect :: "net_env \<Rightarrow> int \<Rightarrow> world \<Rightarrow> (int \<times> world) res" where
  "local_connect E port W = local_connect_arbitrary_ports E (port - 1) port W"

fun client_socket_loop :: "net_env \<Rightarrow> nat \<Rightarrow> int \<Rightarrow> world \<Rightarrow> world res" where
  "client_socket_loop E 0 port W = Inr W"
| "client_socket_loop E (Suc count) port W =
     rbind (local_connect E port W) (\<lambda>(r, W1). client_socket_loop E count (port + 2) W1)"

definition client_socket_thread :: "net_env \<Rightarrow> world \<Rightarrow> world res" where
  "client_socket_thread E W =
     client_socket_loop E ADB_LOCAL_TRANSPORT_MAX DEFAULT_ADB_LOCAL_TRANSPORT_PORT W"

section \<open>Choosing: what the scan computes\<close>

definition accessible :: "atransport \<Rightarrow> bool" where
  "accessible t \<longleftrightarrow> connection_state t \<noteq> CS_NOPERM"

definition candidate :: "transport_type \<Rightarrow> addr \<times> atransport \<Rightarrow> bool" where
  "candidate ttype x \<longleftrightarrow> accessible (snd x)
     \<and> (ttype = KTransportAny \<or> ttype \<in> {KTransportUsb, KTransportLocal} \<and> t_type (snd x) = ttype)"

definition ambiguous_text :: "transport_type \<Rightarrow> string" where
  "ambiguous_text ttype =
     (if ttype = KTransportUsb then ''more than one device''
      else if ttype = KTransportLocal then ''more than one emulator''
      else ''more than one device and emulator'')"

definition not_found_text :: "(addr \<times> atransport) list \<Rightarrow> string" where
  "not_found_text ts = (if \<forall>x \<in> set ts. accessible (snd x) then ''device not found''
     else ''insufficient permissions for device'')"

lemma scan_serial:
  "\<exists>err. acquire_scan ttype (Some s) ts None e =
     (find (\<lambda>x. accessible (snd x) \<and> serial (snd x) = Some s) ts, False, err)"
proof (induction ts arbitrary: e)
  case (Cons x ts)
  then show ?case by (cases x) (auto simp: accessible_def)
qed simp

lemma scan_found:
  assumes "r \<noteq> None"
  shows "\<exists>err. acquire_scan ttype None ts r e =
     (case filter (candidate ttype) ts of [] \<Rightarrow> (r, False, err) | _ \<Rightarrow> (None, True, ambiguous_text ttype))"
proof (induction ts arbitrary: e)
  case (Cons x ts)
  obtain a t where x: "x = (a, t)" by (cases x)
  show ?case
    using Cons [of e] Cons [of "''insufficient permissions for device''"] assms
    by (cases ttype) (auto simp: x candidate_def accessible_def ambiguous_text_def)
qed simp

lemma scan_any:
  "\<exists>err. acquire_scan ttype None ts None e =
     (case filter (candidate ttype) ts of
        [] \<Rightarrow> (None, False, err)
      | [x] \<Rightarrow> (Some x, False, err)
      | _ \<Rightarrow> (None, True, ambiguous_text ttype))"
proof (induction ts arbitrary: e)
  case (Cons x ts)
  obtain a t where x: "x = (a, t)" by (cases x)
  show ?case
  proof (cases "candidate ttype x")
    case True
    then have step: "acquire_scan ttype None (x # ts) None e = acquire_scan ttype None ts (Some x) e"
      by (cases ttype) (auto simp: x candidate_def accessible_def)
    obtain err where "acquire_scan ttype None ts (Some x) e =
       (case filter (candidate ttype) ts of [] \<Rightarrow> (Some x, False, err) | _ \<Rightarrow> (None, True, ambiguous_text ttype))"
      using scan_found [of "Some x" ttype ts e] by auto
    with step True show ?thesis by (auto split: list.splits)
  next
    case False
    then have "acquire_scan ttype None (x # ts) None e = acquire_scan ttype None ts None
        (if connection_state t = CS_NOPERM then ''insufficient permissions for device'' else e)"
      by (cases ttype) (auto simp: x candidate_def accessible_def)
    with False Cons show ?thesis by simp
  qed
qed simp

lemma scan_any_mem:
  assumes "acquire_scan ttype None ts None ''device not found'' = (Some x, amb, err)"
  shows "x \<in> set (filter (candidate ttype) ts)"
proof -
  obtain e where e: "acquire_scan ttype None ts None ''device not found'' =
     (case filter (candidate ttype) ts of
        [] \<Rightarrow> (None, False, e) | [y] \<Rightarrow> (Some y, False, e) | _ \<Rightarrow> (None, True, ambiguous_text ttype))"
    using scan_any [of ttype ts "''device not found''"] by blast
  show ?thesis
  proof (cases "filter (candidate ttype) ts")
    case Nil
    with e assms show ?thesis by simp
  next
    case (Cons y ys)
    with e assms show ?thesis by (cases ys) simp_all
  qed
qed

lemma pass_serial:
  "fst (acquire_pass None ttype (Some s) ts) =
     (case find (\<lambda>x. accessible (snd x) \<and> serial (snd x) = Some s) ts of
        None \<Rightarrow> None
      | Some (a, t) \<Rightarrow> if connection_state t = CS_OFFLINE then None else Some a)"
  using scan_serial [of ttype s ts "''device not found''"]
  by (auto simp: acquire_pass_def split: option.splits)

lemma pass_any:
  "fst (acquire_pass None ttype None ts) =
     (case filter (candidate ttype) ts of
        [(a, t)] \<Rightarrow> if connection_state t = CS_OFFLINE then None else Some a
      | _ \<Rightarrow> None)"
  using scan_any [of ttype ts "''device not found''"]
  by (auto simp: acquire_pass_def split: option.splits list.splits)

lemma pass_state:
  assumes "fst (acquire_pass (Some st) ttype ser ts) = Some a"
  shows "\<exists>t amb err. acquire_scan ttype ser ts None ''device not found'' = (Some (a, t), amb, err)
    \<and> connection_state t \<noteq> CS_OFFLINE \<and> connection_state t = st"
proof -
  obtain x amb err where sc: "acquire_scan ttype ser ts None ''device not found'' = (x, amb, err)"
    by (metis prod_cases3)
  show ?thesis
  proof (cases x)
    case None
    with sc assms show ?thesis by (simp add: acquire_pass_def)
  next
    case (Some y)
    obtain b t where y: "y = (b, t)" by (cases y)
    show ?thesis
      using assms by (simp add: acquire_pass_def sc Some y split: if_splits)
  qed
qed

lemma pass_any_ambiguous:
  assumes "2 \<le> length (filter (candidate ttype) ts)"
  shows "acquire_pass None ttype None ts = (None, True, ambiguous_text ttype)"
proof -
  from assms obtain x y zs where "filter (candidate ttype) ts = x # y # zs"
    by (auto simp: numeral_2_eq_2 Suc_le_length_iff)
  with scan_any [of ttype ts "''device not found''"] show ?thesis by (auto simp: acquire_pass_def)
qed

section \<open>Listing: what fits\<close>

lemma list_loop_prefix:
  "\<exists>k \<le> length ls. list_loop room ls = concat (take k ls) \<and> (k < length ls \<longrightarrow> room \<le> length (concat (take (Suc k) ls)))
     \<and> (0 < room \<longrightarrow> length (list_loop room ls) < room)"
proof (induction ls arbitrary: room)
  case (Cons l ls)
  show ?case
  proof (cases "room \<le> length l")
    case True
    then show ?thesis by (intro exI [of _ 0]) simp
  next
    case False
    from Cons [of "room - length l"] obtain k where k: "k \<le> length ls"
      "list_loop (room - length l) ls = concat (take k ls)"
      "k < length ls \<longrightarrow> room - length l \<le> length (concat (take (Suc k) ls))"
      "length (list_loop (room - length l) ls) < room - length l"
      using False by (metis not_le zero_less_diff)
    then show ?thesis using False by (intro exI [of _ "Suc k"]) auto
  qed
qed simp

lemma length_list_loop: "0 < room \<Longrightarrow> length (list_loop room ls) < room"
  using list_loop_prefix [of ls room] by blast

section \<open>Local transport slots\<close>

text \<open>The table has 16 slots; no transport and, among the transports that are allocated, no port is in it twice.\<close>

definition same_slot :: "world \<Rightarrow> addr \<Rightarrow> addr \<Rightarrow> bool" where
  "same_slot W a b \<longleftrightarrow> a = b \<or> (\<exists>t u. transports W a = Some t \<and> transports W b = Some u \<and> adb_port t = adb_port u)"

definition slot_inv :: "world \<Rightarrow> bool" where
  "slot_inv W \<longleftrightarrow>
     length (local_transports W) = ADB_LOCAL_TRANSPORT_MAX
   \<and> (\<forall>a. Some a \<in> set (local_transports W) \<longrightarrow> a < next_addr W)
   \<and> (\<forall>i < ADB_LOCAL_TRANSPORT_MAX. \<forall>j < ADB_LOCAL_TRANSPORT_MAX. \<forall>a b.
        local_transports W ! i = Some a \<longrightarrow> local_transports W ! j = Some b \<longrightarrow> same_slot W a b \<longrightarrow> i = j)"

definition port_taken :: "int \<Rightarrow> world \<Rightarrow> bool" where
  "port_taken port W \<longleftrightarrow> (\<exists>a t. Some a \<in> set (local_transports W) \<and> transports W a = Some t \<and> adb_port t = port)"

lemma find_port_spec:
  assumes "find_port port xs W = Inr r"
  shows "case r of
      None \<Rightarrow> \<forall>a. Some a \<in> set xs \<longrightarrow> (\<exists>t. transports W a = Some t \<and> adb_port t \<noteq> port)
    | Some a \<Rightarrow> Some a \<in> set xs \<and> (\<exists>t. transports W a = Some t \<and> adb_port t = port)"
  using assms
proof (induction xs)
  case (Cons x xs)
  then show ?case
    by (cases x) (auto simp: getT_def rbind_eq_Inr_iff split: option.splits if_splits)
qed simp

lemma free_slot_spec:
  "free_slot xs k = (if None \<in> set xs then int (k + length (takeWhile (\<lambda>x. x \<noteq> None) xs)) else -1)"
proof (induction xs arbitrary: k)
  case (Cons x xs)
  then show ?case by (cases x) auto
qed simp

lemma free_slot_nth:
  assumes "0 \<le> free_slot xs 0"
  shows "nat (free_slot xs 0) < length xs" "xs ! nat (free_slot xs 0) = None"
proof -
  let ?n = "length (takeWhile (\<lambda>x. x \<noteq> None) xs)"
  have n: "None \<in> set xs" "free_slot xs 0 = int ?n"
    using assms by (auto simp: free_slot_spec split: if_splits)
  then have lt: "?n < length xs"
    using takeWhile_eq_all_conv [of "\<lambda>x. x \<noteq> None" xs] length_takeWhile_le [of "\<lambda>x. x \<noteq> None" xs]
      takeWhile_eq_take [of "\<lambda>x. x \<noteq> None" xs] by (metis le_neq_implies_less take_all_iff order_refl)
  show "nat (free_slot xs 0) < length xs" using lt n by simp
  show "xs ! nat (free_slot xs 0) = None" using nth_length_takeWhile [OF lt] n by simp
qed

text \<open>Entering a new transport whose port is not taken.\<close>

lemma slot_inv_enter:
  assumes inv: "slot_inv W" and i: "0 \<le> free_slot (local_transports W) 0"
    and free: "\<And>a. Some a \<in> set (local_transports W) \<Longrightarrow> \<exists>t. transports W a = Some t \<and> adb_port t \<noteq> adb_port u"
    and W': "local_transports W' = (local_transports W)[nat (free_slot (local_transports W) 0) := Some (next_addr W)]"
      "transports W' = (transports W)(next_addr W \<mapsto> u)" "next_addr W' = next_addr W + 1"
  shows "slot_inv W'"
proof -
  let ?i = "nat (free_slot (local_transports W) 0)" and ?a = "next_addr W"
  have len: "length (local_transports W) = ADB_LOCAL_TRANSPORT_MAX" and old: "\<And>a. Some a \<in> set (local_transports W) \<Longrightarrow> a < ?a"
    and uniq: "\<And>i j a b. i < ADB_LOCAL_TRANSPORT_MAX \<Longrightarrow> j < ADB_LOCAL_TRANSPORT_MAX \<Longrightarrow> local_transports W ! i = Some a \<Longrightarrow>
      local_transports W ! j = Some b \<Longrightarrow> same_slot W a b \<Longrightarrow> i = j" using inv by (simp_all add: slot_inv_def)
  have slot: "(if k = ?i then b = ?a else local_transports W ! k = Some b \<and> Some b \<in> set (local_transports W))"
    if "k < ADB_LOCAL_TRANSPORT_MAX" "local_transports W' ! k = Some b" for k b
    using that len by (auto simp: W'(1) nth_list_update in_set_conv_nth)
  have new: "\<not> same_slot W' ?a b" "\<not> same_slot W' b ?a" if "Some b \<in> set (local_transports W)" for b
    using free [OF that] old [OF that] by (auto simp: same_slot_def W'(2))
  have same: "same_slot W' b c \<longleftrightarrow> same_slot W b c" if "Some b \<in> set (local_transports W)" "Some c \<in> set (local_transports W)" for b c
    using old [OF that(1)] old [OF that(2)] by (simp add: same_slot_def W'(2))
  show ?thesis
    unfolding slot_inv_def
  proof (intro conjI allI impI)
    show "length (local_transports W') = ADB_LOCAL_TRANSPORT_MAX" by (simp add: W'(1) len)
    show "a < next_addr W'" if "Some a \<in> set (local_transports W')" for a
      using that old by (auto simp: W'(1,3) less_Suc_eq dest!: subsetD [OF set_update_subset_insert])
    show "k = l" if "k < ADB_LOCAL_TRANSPORT_MAX" "l < ADB_LOCAL_TRANSPORT_MAX" "local_transports W' ! k = Some b"
      "local_transports W' ! l = Some c" "same_slot W' b c" for k l b c
      using slot [OF that(1,3)] slot [OF that(2,4)] new [of b] new [of c] same [of b c] uniq [OF that(1,2)] that(5) by (metis (full_types))
  qed
qed

text \<open>The table does not depend on anything else.\<close>

lemma slot_inv_frame:
  assumes "slot_inv W" "length (local_transports W') = ADB_LOCAL_TRANSPORT_MAX" "next_addr W \<le> next_addr W'"
    "\<And>i a. i < ADB_LOCAL_TRANSPORT_MAX \<Longrightarrow> local_transports W' ! i = Some a \<Longrightarrow> local_transports W ! i = Some a"
    "\<And>a u. a < next_addr W \<Longrightarrow> transports W' a = Some u \<Longrightarrow> \<exists>t. transports W a = Some t \<and> adb_port t = adb_port u"
  shows "slot_inv W'"
proof -
  have len: "length (local_transports W) = ADB_LOCAL_TRANSPORT_MAX" and old: "\<And>a. Some a \<in> set (local_transports W) \<Longrightarrow> a < next_addr W"
    and uniq: "\<And>i j a b. i < ADB_LOCAL_TRANSPORT_MAX \<Longrightarrow> j < ADB_LOCAL_TRANSPORT_MAX \<Longrightarrow> local_transports W ! i = Some a \<Longrightarrow>
      local_transports W ! j = Some b \<Longrightarrow> same_slot W a b \<Longrightarrow> i = j" using assms(1) by (simp_all add: slot_inv_def)
  have slot: "local_transports W ! i = Some a" "a < next_addr W" if "i < ADB_LOCAL_TRANSPORT_MAX" "local_transports W' ! i = Some a" for i a
    using assms(4) [OF that] old that(1) len by (auto simp: in_set_conv_nth)
  have same: "same_slot W a b" if "same_slot W' a b" "a < next_addr W" "b < next_addr W" for a b
    using that assms(5) [of a] assms(5) [of b] unfolding same_slot_def by metis
  show ?thesis
    unfolding slot_inv_def
  proof (intro conjI allI impI)
    show "length (local_transports W') = ADB_LOCAL_TRANSPORT_MAX" by (rule assms(2))
    show "a < next_addr W'" if "Some a \<in> set (local_transports W')" for a
      using that slot(2) assms(2,3) by (metis in_set_conv_nth order_less_le_trans)
    show "k = l" if "k < ADB_LOCAL_TRANSPORT_MAX" "l < ADB_LOCAL_TRANSPORT_MAX" "local_transports W' ! k = Some b"
      "local_transports W' ! l = Some c" "same_slot W' b c" for k l b c
      using uniq [OF that(1,2) slot(1) [OF that(1,3)] slot(1) [OF that(2,4)]] same [OF that(5) slot(2) [OF that(1,3)] slot(2) [OF that(2,4)]] .
  qed
qed

section \<open>Reference counts and links\<close>

lemma fetch_live_all: "fetch_all as W = Inr ts \<Longrightarrow> fetch_live as W = (ts, None)"
  by (induction as arbitrary: ts) (auto simp: getT_def rbind_eq_Inr_iff split: option.splits)

lemma walked_None [simp]: "walked None stopped x = Inr x"
  by (simp add: walked_def)

lemma unlink_frame:
  assumes "unlink_transport a W = Inr W'"
  shows "transports W' = transports W" "registration W' = registration W" "local_transports W' = local_transports W"
    "HOST W' = HOST W" "next_addr W' = next_addr W"
  using assms by (auto simp: unlink_transport_def relist_def rbind_eq_Inr_iff)

lemma unref_first:
  assumes "transports W a = Some t" "ref_count t \<noteq> 1"
  shows "transport_unref (Some a) W = Inr (W\<lparr>transports := (transports W)(a \<mapsto> t\<lparr>ref_count := ref_count t - 1\<rparr>)\<rparr>)"
  using assms by (simp add: transport_unref_def transport_unref_locked_def)

lemma unref_last_socket:
  assumes "transports W a = Some t" "ref_count t = 1" "kicked t" "t_ops t = Socket_ops"
  shows "transport_unref (Some a) W = Inr (W\<lparr>transports := (transports W)(a \<mapsto> t\<lparr>ref_count := 0\<rparr>),
      shut_fds := shut_fds W @ [t_fd t], registration := registration W @ [(a, False)]\<rparr>)"
  using assms by (simp add: transport_unref_def transport_unref_locked_def t_close_def remote_close_def
      remove_transport_def)

lemma kick_socket:
  assumes "transports W a = Some t" "\<not> kicked t" "t_ops t = Socket_ops"
  shows "kick_transport (Some a) W = Inr (W\<lparr>transports := (transports W)(a \<mapsto> t\<lparr>kicked := True, sfd := -1\<rparr>),
      shut_fds := shut_fds W @ [sfd t],
      local_transports := if HOST W then clear_slot a (local_transports W) else local_transports W\<rparr>)"
  using assms by (simp add: kick_transport_def kick_mark_def t_kick_def remote_kick_def Let_def)

lemma kick_again:
  assumes "transports W a = Some t" "kicked t"
  shows "kick_transport (Some a) W = Inr W"
  using assms by (simp add: kick_transport_def kick_mark_def)

section \<open>Properties\<close>

definition dev :: "string \<Rightarrow> transport_type \<Rightarrow> connection_state \<Rightarrow> atransport" where
  "dev s ty st = blank_transport\<lparr>serial := Some s, t_type := ty, connection_state := st, ref_count := 2\<rparr>"

definition two_devices :: world where
  "two_devices = world_init\<lparr>transports := [1 \<mapsto> dev ''SER1'' KTransportUsb CS_DEVICE,
     2 \<mapsto> dev ''emulator-5554'' KTransportLocal CS_DEVICE], dev_nxt := [0 \<mapsto> 1, 1 \<mapsto> 2, 2 \<mapsto> 0], dev_prv := [0 \<mapsto> 2, 1 \<mapsto> 0, 2 \<mapsto> 1],
     transport_list := [1, 2], next_addr := 3\<rparr>"

definition three_devices :: world where
  "three_devices = world_init\<lparr>transports := [1 \<mapsto> dev ''SER1'' KTransportUsb CS_DEVICE,
     2 \<mapsto> dev ''10.0.0.2:5555'' KTransportLocal CS_DEVICE, 3 \<mapsto> dev ''10.0.0.3:5555'' KTransportLocal CS_DEVICE],
     dev_nxt := [0 \<mapsto> 1, 1 \<mapsto> 2, 2 \<mapsto> 3, 3 \<mapsto> 0], dev_prv := [0 \<mapsto> 3, 1 \<mapsto> 0, 2 \<mapsto> 1, 3 \<mapsto> 2], transport_list := [1, 2, 3], next_addr := 4\<rparr>"

text \<open>C12: Choosing a transport with any state: with a serial number the first accessible transport with that serial is
  taken, without one the only accessible transport of the wanted type (of any type for \<^verbatim>\<open>kTransportAny\<close>); an
  offline transport is refused, and if there is more than one candidate nothing is chosen and the text says so.\<close>

theorem acquire_one_transport_correct:
  assumes "fetch_all (transport_list W) W = Inr ts"
  shows "\<exists>err. acquire_one_transport ttype ser W = Inr (
       (case ser of
          Some s \<Rightarrow>
            (case find (\<lambda>x. accessible (snd x) \<and> serial (snd x) = Some s) ts of
               None \<Rightarrow> None
             | Some (a, t) \<Rightarrow> if connection_state t = CS_OFFLINE then None else Some a)
        | None \<Rightarrow>
            (case filter (candidate ttype) ts of
               [(a, t)] \<Rightarrow> if connection_state t = CS_OFFLINE then None else Some a
             | _ \<Rightarrow> None)), err)
     \<and> (ser = None \<and> 2 \<le> length (filter (candidate ttype) ts) \<longrightarrow> err = ambiguous_text ttype)"
proof -
  obtain r amb err where p: "acquire_pass None ttype ser ts = (r, amb, err)" by (metis prod_cases3)
  have "ser = None \<and> 2 \<le> length (filter (candidate ttype) ts) \<longrightarrow> err = ambiguous_text ttype"
    using pass_any_ambiguous [of ttype ts] p by auto
  moreover have "r = (case ser of
          Some s \<Rightarrow>
            (case find (\<lambda>x. accessible (snd x) \<and> serial (snd x) = Some s) ts of
               None \<Rightarrow> None
             | Some (a, t) \<Rightarrow> if connection_state t = CS_OFFLINE then None else Some a)
        | None \<Rightarrow>
            (case filter (candidate ttype) ts of
               [(a, t)] \<Rightarrow> if connection_state t = CS_OFFLINE then None else Some a
             | _ \<Rightarrow> None))"
  proof (cases ser)
    case None
    with p pass_any [of ttype ts] show ?thesis by simp
  next
    case (Some s)
    with p pass_serial [of ttype s ts] show ?thesis by simp
  qed
  ultimately show ?thesis using p fetch_live_all [OF assms] by (simp add: acquire_one_transport_def)
qed

theorem acquire_one_transport_correct_witness:
  "(\<exists>err. acquire_one_transport KTransportUsb None two_devices = Inr (Some 1, err))
   \<and> acquire_one_transport KTransportAny None two_devices = Inr (None, ''more than one device and emulator'')"
proof -
  have ts: "fetch_all (transport_list two_devices) two_devices =
      Inr [(1, dev ''SER1'' KTransportUsb CS_DEVICE), (2, dev ''emulator-5554'' KTransportLocal CS_DEVICE)]"
    by (simp add: two_devices_def getT_def)
  show ?thesis
    using acquire_one_transport_correct [OF ts, of KTransportUsb None]
      acquire_one_transport_correct [OF ts, of KTransportAny None]
    by (auto simp: candidate_def accessible_def dev_def ambiguous_text_def)
qed

text \<open>Waiting for a transport in a given state ends with a transport only if at that moment it was on the list,
  accessible, not offline and in exactly that state.\<close>

theorem acquire_loop_waits_for_state:
  assumes "acquire_loop (Some st) ttype ser tss = Some (Some a, e)"
  shows "\<exists>ts \<in> set tss. \<exists>t. (a, t) \<in> set ts \<and> accessible t \<and> connection_state t = st \<and> st \<noteq> CS_OFFLINE
    \<and> (\<forall>s. ser = Some s \<longrightarrow> serial t = Some s)"
  using assms
proof (induction tss)
  case (Cons ts tss)
  show ?case
  proof (cases "fst (acquire_pass (Some st) ttype ser ts)")
    case None
    with Cons show ?thesis by (cases "acquire_pass (Some st) ttype ser ts") (auto split: if_splits)
  next
    case (Some b)
    then have b: "b = a" using Cons.prems by (cases "acquire_pass (Some st) ttype ser ts") auto
    with Some pass_state obtain t amb err
      where sc: "acquire_scan ttype ser ts None ''device not found'' = (Some (a, t), amb, err)"
        and t: "connection_state t \<noteq> CS_OFFLINE" "connection_state t = st" by blast
    have "(a, t) \<in> set ts \<and> accessible t \<and> (\<forall>s. ser = Some s \<longrightarrow> serial t = Some s)"
    proof (cases ser)
      case None
      with sc have "(a, t) \<in> set (filter (candidate ttype) ts)" using scan_any_mem by blast
      then show ?thesis using None by (simp add: candidate_def)
    next
      case (Some s)
      from scan_serial [of ttype s ts "''device not found''"] sc Some
      have "find (\<lambda>x. accessible (snd x) \<and> serial (snd x) = Some s) ts = Some (a, t)" by auto
      then obtain i where "i < length ts" "accessible (snd (ts ! i))" "serial (snd (ts ! i)) = Some s" "(a, t) = ts ! i"
        unfolding find_Some_iff by blast
      then show ?thesis using Some by (metis nth_mem option.inject snd_conv)
    qed
    with t show ?thesis by auto
  qed
qed simp

theorem acquire_loop_waits_for_state_witness:
  "acquire_loop (Some CS_DEVICE) KTransportAny None
       [[], [(1, dev ''SER1'' KTransportUsb CS_OFFLINE)], [(1, dev ''SER1'' KTransportUsb CS_DEVICE)]]
     = Some (Some 1, None)
   \<and> (\<exists>ts t. (1 :: addr, t :: atransport) \<in> set ts \<and> connection_state t = CS_DEVICE)"
proof -
  have run: "acquire_loop (Some CS_DEVICE) KTransportAny None
       [[], [(1, dev ''SER1'' KTransportUsb CS_OFFLINE)], [(1, dev ''SER1'' KTransportUsb CS_DEVICE)]]
     = Some (Some 1, None)" by (simp add: acquire_pass_def dev_def)
  from acquire_loop_waits_for_state [OF run] obtain ts t
    where "(1 :: addr, t :: atransport) \<in> set ts" "connection_state t = CS_DEVICE" by blast
  with run show ?thesis by blast
qed

text \<open>The device list that is sent to clients consists of whole lines: it is the concatenation of the first lines of the
  list, cut before the first line that does not fit, and with its terminating NUL it fits the buffer; the message
  for device trackers is that text preceded by its length in four hex digits, which reads back as the length.\<close>

theorem list_transports_whole_lines:
  assumes "fetch_all (transport_list W) W = Inr ts" "4 < bufsize" "bufsize \<le> 4096"
  defines "ls \<equiv> map (transport_line \<circ> snd) ts"
  shows "\<exists>k body. list_transports (bufsize - 4) W = Inr body \<and> body = concat (take k ls) \<and> k \<le> length ls
    \<and> length body + 4 < bufsize
    \<and> (k < length ls \<longrightarrow> bufsize - 4 \<le> length (concat (take (Suc k) ls)))
    \<and> list_transports_msg bufsize W = Inr (fmt_04x (length body) @ body)
    \<and> strtoul16 (fmt_04x (length body)) = of_nat (length body)"
proof -
  let ?body = "list_loop (bufsize - 4) ls"
  from list_loop_prefix [of ls "bufsize - 4"] assms(2) obtain k where k: "k \<le> length ls"
    "?body = concat (take k ls)" "k < length ls \<longrightarrow> bufsize - 4 \<le> length (concat (take (Suc k) ls))"
    "length ?body < bufsize - 4" by (metis zero_less_diff)
  have "list_transports (bufsize - 4) W = Inr ?body" using fetch_live_all [OF assms(1)] by (simp add: list_transports_def ls_def)
  moreover have "length (fmt_04x (length ?body)) = 4" using k(4) assms(3) by simp
  ultimately show ?thesis using k
    by (intro exI [of _ k] exI [of _ ?body]) (auto simp: list_transports_msg_def strtoul16_fmt_04x)
qed

theorem list_transports_whole_lines_witness:
  "\<exists>body. list_transports_msg 40 two_devices = Inr (fmt_04x (length body) @ body) \<and> length body + 4 < 40"
proof -
  have ts: "fetch_all (transport_list two_devices) two_devices =
      Inr [(1, dev ''SER1'' KTransportUsb CS_DEVICE), (2, dev ''emulator-5554'' KTransportLocal CS_DEVICE)]"
    by (simp add: two_devices_def getT_def)
  from list_transports_whole_lines [OF ts, of 40] show ?thesis by auto
qed

text \<open>Disconnecting a TCP device gives back a reference nobody took for it: of the two references the transport is
  born with, one per thread, one is gone before a thread has ended, so the first thread to end posts the removal of
  the transport while the other still uses it, and the count ends at -1.\<close>

theorem unregister_drops_thread_reference:
  assumes "transports W a = Some t" "unlink_transport a W = Inr W0" "ref_count t = 2" "t_ops t = Socket_ops" "\<not> kicked t"
  shows "\<exists>W1 W2 W3 t3. unregister_transport a W = Inr W1 \<and> registration W1 = registration W
    \<and> transport_unref (Some a) W1 = Inr W2 \<and> registration W2 = registration W @ [(a, False)]
    \<and> transport_unref (Some a) W2 = Inr W3 \<and> transports W3 a = Some t3 \<and> ref_count t3 = -1"
proof -
  let ?t1 = "t\<lparr>kicked := True, sfd := -1, ref_count := 1\<rparr>"
  have W0: "transports W0 = transports W" "registration W0 = registration W" using unlink_frame [OF assms(2)] by simp_all
  then have "\<exists>W1. unregister_transport a W = Inr W1 \<and> registration W1 = registration W \<and> transports W1 a = Some ?t1"
    using assms kick_socket [of W0 a t] by (simp add: unregister_transport_def unref_first)
  then obtain W1 where W1: "unregister_transport a W = Inr W1" "registration W1 = registration W"
    "transports W1 a = Some ?t1" by blast
  have "\<exists>W2. transport_unref (Some a) W1 = Inr W2 \<and> registration W2 = registration W @ [(a, False)]
      \<and> transports W2 a = Some (?t1\<lparr>ref_count := 0\<rparr>)"
    using unref_last_socket [OF W1(3)] assms(4) W1(2) by simp
  with W1 unref_first [of _ a "?t1\<lparr>ref_count := 0\<rparr>"] show ?thesis by fastforce
qed

lemmas unlink_eval = unlink_transport_def link_transport_def node_def relist_def getT_def

theorem unregister_drops_thread_reference_witness:
  "\<exists>W1 W2. unregister_transport 2 two_devices = Inr W1
     \<and> transport_unref (Some 2) W1 = Inr W2 \<and> registration W2 = [(2, False)]"
proof -
  let ?t = "dev ''emulator-5554'' KTransportLocal CS_DEVICE"
  obtain W0 where u: "unlink_transport 2 two_devices = Inr W0" by (simp add: unlink_eval two_devices_def)
  have "transports two_devices 2 = Some ?t" "ref_count ?t = 2" "t_ops ?t = Socket_ops" "\<not> kicked ?t"
    by (simp_all add: two_devices_def dev_def blank_transport_def)
  from unregister_drops_thread_reference [OF this(1) u this(2-4)] show ?thesis by (auto simp: two_devices_def world_init_def)
qed

text \<open>A disconnected transport is unlinked from the device list a second time when the event loop removes it. If it
  was the last of the list and another device has been added in between, the second unlinking drops the new device
  from the list.\<close>

theorem second_unlink_drops_device:
  assumes "transports W a \<noteq> None" "transports W b \<noteq> None" "transports W p \<noteq> None" "distinct [0, p, a, b]" "2 \<le> next_addr W"
    and "dev_nxt W 0 = Some p" "dev_nxt W p = Some a" "dev_nxt W a = Some 0"
    and "dev_prv W 0 = Some a" "dev_prv W a = Some p"
  shows "\<exists>W1 W2 W3. unlink_transport a W = Inr W1 \<and> link_transport b W1 = Inr W2 \<and> transport_list W2 = [p, b]
    \<and> unlink_transport a W2 = Inr W3 \<and> transport_list W3 = [p]"
proof -
  obtain n where n: "next_addr W = Suc (Suc n)" using assms(5) by (metis add_2_eq_Suc le_iff_add)
  obtain x y z where "transports W a = Some x" "transports W b = Some y" "transports W p = Some z" using assms(1-3) by auto
  with assms n show ?thesis by (cases n) (simp_all add: unlink_eval)
qed

text \<open>Unlinking twice also brings freed memory back. Of three devices in a row the second and then the first are disconnected, the second is
  removed and freed, which sets the third one's link back to the first, and the third is disconnected and removed: both times the list
  head is left pointing at it, and once it has been freed the next walk over the device list reads freed memory. Nothing went wrong
  before that.\<close>

theorem unlinking_twice_leaves_freed_device:
  assumes "transports W a = Some t1" "transports W b = Some t2" "transports W c = Some t3" "distinct [0, a, b, c]" "2 \<le> next_addr W"
    and "dev_nxt W 0 = Some a" "dev_nxt W a = Some b" "dev_nxt W b = Some c" "dev_nxt W c = Some 0"
    and "dev_prv W a = Some 0" "dev_prv W b = Some a" "dev_prv W c = Some b" "dev_prv W 0 = Some c"
  defines "free \<equiv> \<lambda>x V. Inr (V\<lparr>transports := (transports V)(x := None)\<rparr>)"
  shows "\<exists>V. rbind (unlink_transport b W) (\<lambda>V. rbind (unlink_transport a V) (\<lambda>V. rbind (unlink_transport b V) (\<lambda>V. rbind (free b V) (\<lambda>V.
      rbind (unlink_transport c V) (\<lambda>V. rbind (unlink_transport c V) (free c)))))) = Inr V
    \<and> transport_list V = [c] \<and> find_transport name V = Inl (UseAfterFree c)"
proof -
  obtain n where n: "next_addr W = Suc (Suc n)" using assms(5) by (metis add_2_eq_Suc le_iff_add)
  with assms show ?thesis by (simp add: unlink_eval find_transport_def walked_def)
qed

theorem unlinking_twice_leaves_freed_device_witness:
  "\<exists>V. rbind (unlink_transport 2 three_devices) (\<lambda>V. rbind (unlink_transport 1 V) (\<lambda>V. rbind (unlink_transport 2 V)
      (\<lambda>V. rbind (Inr (V\<lparr>transports := (transports V)(2 := None)\<rparr>)) (\<lambda>V. rbind (unlink_transport 3 V) (\<lambda>V. rbind (unlink_transport 3 V)
      (\<lambda>V. Inr (V\<lparr>transports := (transports V)(3 := None)\<rparr>))))))) = Inr V
    \<and> transport_list V = [3] \<and> find_transport ''SER1'' V = Inl (UseAfterFree 3)"
proof -
  have d: "transports three_devices 1 = Some (dev ''SER1'' KTransportUsb CS_DEVICE)" "transports three_devices 2 = Some (dev ''10.0.0.2:5555'' KTransportLocal CS_DEVICE)"
    "transports three_devices 3 = Some (dev ''10.0.0.3:5555'' KTransportLocal CS_DEVICE)" by (simp_all add: three_devices_def)
  show ?thesis
    by (rule unlinking_twice_leaves_freed_device [OF d]) (simp_all add: three_devices_def)
qed

end
