(* ===== verification/Sockets.thy ===== *)
theory Sockets
  imports Transport
begin

text \<open>
  Sockets of sockets.c and the device trackers of transport.c: the socket lists, closing (local, notifying,
  remote, smart and tracker sockets close each other through their function pointers), enqueueing on local,
  remote and tracker sockets, the ready callbacks, creating sockets and connecting them. A call through a
  function pointer carries a bound on the depth of such calls; a close clears the peer's back pointer before
  it calls the peer, so the depth is at most six (lemma \<open>close_fuel\<close>).
\<close>

section \<open>The socket lists\<close>

fun find_id :: "u32 \<Rightarrow> addr list \<Rightarrow> world \<Rightarrow> addr option res" where
  "find_id i [] W = Inr None"
| "find_id i (a # as) W = rbind (getS a W) (\<lambda>s. if s_id s = i then Inr (Some a) else find_id i as W)"

definition find_local_socket :: "u32 \<Rightarrow> world \<Rightarrow> addr option res" where
  "find_local_socket i W = find_id i (local_socket_list W) W"

definition install_local_socket :: "addr \<Rightarrow> world \<Rightarrow> world res" where
  "install_local_socket a W =
     rbind (updS a (\<lambda>s. s\<lparr>s_id := local_socket_next_id W\<rparr>) W) (\<lambda>W1.
       Inr (W1\<lparr>local_socket_next_id := local_socket_next_id W1 + 1,
               local_socket_list := local_socket_list W1 @ [a]\<rparr>))"

definition remove_socket :: "addr \<Rightarrow> world \<Rightarrow> world res" where
  "remove_socket a W =
     (if a \<in> set (local_socket_list W) \<or> a \<in> set (local_socket_closing_list W) then
        updS a (\<lambda>s. s\<lparr>s_id := 0\<rparr>)
          (W\<lparr>local_socket_list := remove1 a (local_socket_list W),
             local_socket_closing_list := remove1 a (local_socket_closing_list W)\<rparr>)
      else rbind (getS a W) (\<lambda>_. Inr W))"

section \<open>Status messages\<close>

definition sendfailmsg :: "int \<Rightarrow> string \<Rightarrow> world \<Rightarrow> int \<times> world" where
  "sendfailmsg fd reason W =
     (let len = min (length reason) 0xffff;
          (r, W1) = w_writex fd (take 8 (snprintf 9 (''FAIL'' @ fmt_04x len))) W
      in if r \<noteq> 0 then (-1, W1) else w_writex fd (take len reason) W1)"

section \<open>Closing\<close>

definition local_socket_destroy :: "addr \<Rightarrow> world \<Rightarrow> world res" where
  "local_socket_destroy a W =
     rbind (getS a W) (\<lambda>s.
     rbind (on_fds (fdevent_remove a) W) (\<lambda>W1.
     rbind (remove_socket a W1) (\<lambda>W2.
       if exit_on_close s then Inl (Exit 1) else Inr (freeS a W2))))"

definition device_tracker_remove :: "addr \<Rightarrow> world \<Rightarrow> world" where
  "device_tracker_remove a W = W\<lparr>device_tracker_list := remove1 a (device_tracker_list W)\<rparr>"

text \<open>The bodies take the call they make through a function pointer as an argument \<open>cl\<close>.\<close>

definition local_socket_close_body ::
    "(addr \<Rightarrow> world \<Rightarrow> world res) \<Rightarrow> (addr \<Rightarrow> world \<Rightarrow> world res) \<Rightarrow> addr \<Rightarrow> world \<Rightarrow> world res" where
  "local_socket_close_body close_locked cl a W =
     rbind (getS a W) (\<lambda>s.
     rbind (case peer s of
              None \<Rightarrow> Inr W
            | Some b \<Rightarrow>
                rbind (updS b (\<lambda>t. t\<lparr>peer := None\<rparr>) W) (\<lambda>W1.
                rbind (getS b W1) (\<lambda>t.
                rbind (if close t = Local_socket_close then close_locked b W1 else cl b W1) (\<lambda>W2.
                  updS a (\<lambda>s. s\<lparr>peer := None\<rparr>) W2)))) (\<lambda>W3.
     rbind (getS a W3) (\<lambda>s3.
       if closing s3 \<or> pkts s3 = [] then local_socket_destroy a W3
       else
         rbind (updS a (\<lambda>s. s\<lparr>closing := True\<rparr>) W3) (\<lambda>W4.
         rbind (on_fds (fdevent_del a FDE_READ) W4) (\<lambda>W5.
         rbind (remove_socket a W5) (\<lambda>W6.
           Inr (W6\<lparr>local_socket_closing_list := local_socket_closing_list W6 @ [a]\<rparr>)))))))"

definition local_socket_close ::
    "(addr \<Rightarrow> world \<Rightarrow> world res) \<Rightarrow> addr \<Rightarrow> world \<Rightarrow> world res" where
  "local_socket_close close_locked a W =
     (if socket_list_lock W then Inl SelfDeadlock
      else rbind (close_locked a (W\<lparr>socket_list_lock := True\<rparr>)) (\<lambda>W1. Inr (W1\<lparr>socket_list_lock := False\<rparr>)))"

definition local_socket_close_notify ::
    "(addr \<Rightarrow> world \<Rightarrow> world res) \<Rightarrow> addr \<Rightarrow> world \<Rightarrow> world res" where
  "local_socket_close_notify cl a W =
     rbind (updS a (\<lambda>s. s\<lparr>ready := Local_socket_ready, close := Local_socket_close\<rparr>) W) (\<lambda>W1.
     rbind (getS a W1) (\<lambda>s. cl a (snd (sendfailmsg (s_fd s) ''closed'' W1))))"

definition remote_socket_close :: "(addr \<Rightarrow> world \<Rightarrow> world res) \<Rightarrow> addr \<Rightarrow> world \<Rightarrow> world res" where
  "remote_socket_close cl a W =
     rbind (getS a W) (\<lambda>s.
     rbind (case peer s of
              None \<Rightarrow> Inr (0, W)
            | Some b \<Rightarrow>
                rbind (getS b W) (\<lambda>t.
                rbind (updS b (\<lambda>t. t\<lparr>peer := None\<rparr>) W) (\<lambda>W1.
                rbind (cl b W1) (\<lambda>W2. Inr (s_id t, W2))))) (\<lambda>(i, W3).
     rbind (getS a W3) (\<lambda>s3.
     rbind (send_packet (get_apacket\<lparr>msg := zero_msg\<lparr>command := A_CLSE, arg0 := i, arg1 := s_id s3\<rparr>\<rparr>)
              (s_transport s3) W3) (\<lambda>W4.
     rbind (remove_transport_disconnect (s_transport s3) (Remote_socket_disconnect a) W4) (\<lambda>W5.
       Inr (freeS a W5))))))"

definition smart_socket_close :: "(addr \<Rightarrow> world \<Rightarrow> world res) \<Rightarrow> addr \<Rightarrow> world \<Rightarrow> world res" where
  "smart_socket_close cl a W =
     rbind (getS a W) (\<lambda>s.
     rbind (case peer s of
              None \<Rightarrow> Inr W
            | Some b \<Rightarrow>
                rbind (updS b (\<lambda>t. t\<lparr>peer := None\<rparr>) W) (\<lambda>W1.
                rbind (cl b W1) (\<lambda>W2. updS a (\<lambda>s. s\<lparr>peer := None\<rparr>) W2))) (\<lambda>W3.
       Inr (freeS a W3)))"

definition device_tracker_close :: "(addr \<Rightarrow> world \<Rightarrow> world res) \<Rightarrow> addr \<Rightarrow> world \<Rightarrow> world res" where
  "device_tracker_close cl a W =
     rbind (getS a W) (\<lambda>s.
     rbind (case peer s of
              None \<Rightarrow> Inr W
            | Some b \<Rightarrow> rbind (updS b (\<lambda>t. t\<lparr>peer := None\<rparr>) W) (\<lambda>W1. cl b W1)) (\<lambda>W2.
       Inr (freeS a (device_tracker_remove a W2))))"

fun local_socket_close_locked :: "nat \<Rightarrow> addr \<Rightarrow> world \<Rightarrow> world res"
and sock_close :: "nat \<Rightarrow> addr \<Rightarrow> world \<Rightarrow> world res" where
  "local_socket_close_locked 0 a W = Inl OutOfFuel"
| "local_socket_close_locked (Suc n) a W =
     local_socket_close_body (local_socket_close_locked n) (sock_close n) a W"
| "sock_close 0 a W = Inl OutOfFuel"
| "sock_close (Suc n) a W =
     rbind (getS a W) (\<lambda>s.
       case close s of
         Local_socket_close \<Rightarrow> local_socket_close (local_socket_close_locked n) a W
       | Local_socket_close_notify \<Rightarrow> local_socket_close_notify (sock_close n) a W
       | Remote_socket_close \<Rightarrow> remote_socket_close (sock_close n) a W
       | Smart_socket_close \<Rightarrow> smart_socket_close (sock_close n) a W
       | Device_tracker_close \<Rightarrow> device_tracker_close (sock_close n) a W)"

text \<open>\<^verbatim>\<open>s->close(s)\<close>.\<close>

definition close_depth :: nat where "close_depth = 8"

definition close_socket :: "addr \<Rightarrow> world \<Rightarrow> world res" where
  "close_socket a W = sock_close close_depth a W"

text \<open>\<^verbatim>\<open>close_all_sockets\<close>: the scan starts again after every close; a close shortens the list by at least
  one (it may take the peer with it), so as many rounds as there are sockets, and one, are enough.\<close>

fun bound_to :: "addr \<Rightarrow> addr list \<Rightarrow> world \<Rightarrow> addr option res" where
  "bound_to t [] W = Inr None"
| "bound_to t (a # as) W =
     rbind (getS a W) (\<lambda>s.
     rbind (case peer s of None \<Rightarrow> Inr False
            | Some b \<Rightarrow> rbind (getS b W) (\<lambda>p. Inr (s_transport p = Some t))) (\<lambda>via_peer.
       if s_transport s = Some t \<or> via_peer then Inr (Some a) else bound_to t as W))"

fun close_all_loop :: "nat \<Rightarrow> addr \<Rightarrow> world \<Rightarrow> world res" where
  "close_all_loop 0 t W = Inl OutOfFuel"
| "close_all_loop (Suc n) t W =
     rbind (bound_to t (local_socket_list W) W) (\<lambda>r.
       case r of None \<Rightarrow> Inr W
       | Some a \<Rightarrow> rbind (local_socket_close_locked close_depth a W) (close_all_loop n t))"

definition close_all_sockets :: "addr \<Rightarrow> world \<Rightarrow> world res" where
  "close_all_sockets t W =
     (if socket_list_lock W then Inl SelfDeadlock
      else rbind (close_all_loop (Suc (length (local_socket_list W))) t (W\<lparr>socket_list_lock := True\<rparr>))
             (\<lambda>W1. Inr (W1\<lparr>socket_list_lock := False\<rparr>)))"

section \<open>Writing to a local socket\<close>

datatype wstat = Drained | Blocked | Broken

definition unsent :: "apacket \<Rightarrow> bytes" where
  "unsent p = take (p_len p) (drop (p_ptr p) (data p))"

definition wf_pkt :: "apacket \<Rightarrow> bool" where
  "wf_pkt p \<longleftrightarrow> p_ptr p + p_len p \<le> length (data p)"

text \<open>The loop of \<^verbatim>\<open>local_socket_enqueue\<close>: every error but EAGAIN closes the socket.\<close>

function enqueue_write :: "int \<Rightarrow> apacket \<Rightarrow> world \<Rightarrow> wstat \<times> apacket \<times> world" where
  "enqueue_write fd p W =
     (if p_len p = 0 then (Drained, p, W)
      else case w_write fd (unsent p) W of
          (Inr r, W1) \<Rightarrow>
            if r = 0 then (Broken, p, W1)
            else enqueue_write fd (p\<lparr>p_len := p_len p - r, p_ptr := p_ptr p + r\<rparr>) W1
        | (Inl e, W1) \<Rightarrow> (if e = EAGAIN then Blocked else Broken, p, W1))"
  by pat_completeness auto
termination by (relation "measure (\<lambda>(fd, p, W). p_len p)") auto

declare enqueue_write.simps [simp del]

definition local_socket_enqueue :: "addr \<Rightarrow> apacket \<Rightarrow> world \<Rightarrow> (int \<times> world) res" where
  "local_socket_enqueue a p W =
     rbind (getS a W) (\<lambda>s.
       let p0 = p\<lparr>p_ptr := 0\<rparr>;
           queue_it = (\<lambda>p W.
             rbind (updS a (\<lambda>s. s\<lparr>pkts := pkts s @ [p]\<rparr>) W) (\<lambda>W1.
             rbind (on_fds (fdevent_add a FDE_WRITE) W1) (\<lambda>W2. Inr (1, W2))))
       in if pkts s \<noteq> [] then queue_it p0 W
          else case enqueue_write (s_fd s) p0 W of
              (Drained, p1, W1) \<Rightarrow> Inr (0, W1)
            | (Blocked, p1, W1) \<Rightarrow> queue_it p1 W1
            | (Broken, p1, W1) \<Rightarrow> rbind (close_socket a W1) (\<lambda>W2. Inr (1, W2)))"

section \<open>Remote sockets\<close>

definition remote_socket_enqueue :: "addr \<Rightarrow> apacket \<Rightarrow> world \<Rightarrow> (int \<times> world) res" where
  "remote_socket_enqueue a p W =
     rbind (getS a W) (\<lambda>s.
     rbind (deref (peer s)) (\<lambda>b.
     rbind (getS b W) (\<lambda>t.
     rbind (send_packet (p\<lparr>msg := (msg p)\<lparr>command := A_WRTE, arg0 := s_id t, arg1 := s_id s,
                                            data_length := of_nat (p_len p)\<rparr>\<rparr>) (s_transport s) W) (\<lambda>W1.
       Inr (1, W1)))))"

definition remote_socket_ready :: "addr \<Rightarrow> world \<Rightarrow> world res" where
  "remote_socket_ready a W =
     rbind (getS a W) (\<lambda>s.
     rbind (deref (peer s)) (\<lambda>b.
     rbind (getS b W) (\<lambda>t.
       send_packet (get_apacket\<lparr>msg := zero_msg\<lparr>command := A_OKAY, arg0 := s_id t, arg1 := s_id s\<rparr>\<rparr>)
         (s_transport s) W)))"

definition remote_socket_disconnect :: "addr \<Rightarrow> world \<Rightarrow> world res" where
  "remote_socket_disconnect a W =
     rbind (getS a W) (\<lambda>s.
     rbind (case peer s of
              None \<Rightarrow> Inr W
            | Some b \<Rightarrow> rbind (updS b (\<lambda>t. t\<lparr>peer := None\<rparr>) W) (close_socket b)) (\<lambda>W1.
     rbind (getS a W1) (\<lambda>s1.
     rbind (remove_transport_disconnect (s_transport s1) (Remote_socket_disconnect a) W1) (\<lambda>W2.
       Inr (freeS a W2)))))"

definition blank_socket :: asocket where
  "blank_socket = \<lparr>s_id = 0, closing = False, exit_on_close = False, peer = None, s_fd = 0, pkts = [],
     enqueue = Local_socket_enqueue, ready = Local_socket_ready, close = Local_socket_close,
     s_transport = None, update_needed = False\<rparr>"

definition create_remote_socket :: "u32 \<Rightarrow> addr \<Rightarrow> world \<Rightarrow> (addr \<times> world) res" where
  "create_remote_socket i t W =
     (let a = next_addr W;
          s = blank_socket\<lparr>s_id := i, enqueue := Remote_socket_enqueue, ready := Remote_socket_ready,
                           close := Remote_socket_close, s_transport := Some t\<rparr> in
      rbind (add_transport_disconnect (Some t) (Remote_socket_disconnect a)
               (setS a s (W\<lparr>next_addr := a + 1\<rparr>))) (\<lambda>W1. Inr (a, W1)))"

definition connect_to_remote :: "addr \<Rightarrow> string \<Rightarrow> world \<Rightarrow> world res" where
  "connect_to_remote a destination W =
     (let len = length destination + 1 in
      if MAX_PAYLOAD - 1 < len then Inl (Fatal ''destination oversized'')
      else rbind (getS a W) (\<lambda>s.
        send_packet (get_apacket\<lparr>data := destination @ [NUL],
            msg := zero_msg\<lparr>command := A_OPEN, arg0 := s_id s, data_length := of_nat len\<rparr>\<rparr>)
          (s_transport s) W))"

section \<open>Local sockets\<close>

definition local_socket_ready :: "addr \<Rightarrow> world \<Rightarrow> world res" where
  "local_socket_ready a W = rbind (getS a W) (\<lambda>_. on_fds (fdevent_add a FDE_READ) W)"

definition local_socket_ready_notify :: "addr \<Rightarrow> world \<Rightarrow> world res" where
  "local_socket_ready_notify a W =
     rbind (updS a (\<lambda>s. s\<lparr>ready := Local_socket_ready, close := Local_socket_close\<rparr>) W) (\<lambda>W1.
     rbind (getS a W1) (\<lambda>s. local_socket_ready a (snd (w_write (s_fd s) ''OKAY'' W1))))"

definition create_local_socket :: "int \<Rightarrow> world \<Rightarrow> (addr \<times> world) res" where
  "create_local_socket fd W =
     (let a = next_addr W;
          s = blank_socket\<lparr>s_fd := fd, enqueue := Local_socket_enqueue, ready := Local_socket_ready,
                           close := Local_socket_close\<rparr> in
      rbind (install_local_socket a (setS a s (W\<lparr>next_addr := a + 1\<rparr>))) (\<lambda>W1.
      rbind (on_fds (fdevent_install a fd Local_socket_event_func a) W1) (\<lambda>W2. Inr (a, W2))))"

section \<open>Device trackers\<close>

definition device_tracker_enqueue :: "addr \<Rightarrow> apacket \<Rightarrow> world \<Rightarrow> (int \<times> world) res" where
  "device_tracker_enqueue a p W = rbind (device_tracker_close close_socket a W) (\<lambda>W1. Inr (-1, W1))"

text \<open>\<open>enq\<close> is the call \<^verbatim>\<open>peer->enqueue\<close>.\<close>

definition device_tracker_send ::
    "(addr \<Rightarrow> apacket \<Rightarrow> world \<Rightarrow> (int \<times> world) res) \<Rightarrow> addr \<Rightarrow> bytes \<Rightarrow> world \<Rightarrow> (int \<times> world) res" where
  "device_tracker_send enq a buffer W =
     rbind (getS a W) (\<lambda>s.
     rbind (deref (peer s)) (\<lambda>b. enq b (get_apacket\<lparr>data := buffer, p_len := length buffer\<rparr>) W))"

definition device_tracker_ready ::
    "(addr \<Rightarrow> apacket \<Rightarrow> world \<Rightarrow> (int \<times> world) res) \<Rightarrow> addr \<Rightarrow> world \<Rightarrow> world res" where
  "device_tracker_ready enq a W =
     rbind (getS a W) (\<lambda>s.
       if update_needed s then
         rbind (updS a (\<lambda>s. s\<lparr>update_needed := False\<rparr>) W) (\<lambda>W1.
         rbind (list_transports_msg 1024 W1) (\<lambda>buffer.
         rbind (device_tracker_send enq a buffer W1) (\<lambda>(r, W2). Inr W2)))
       else Inr W)"

definition create_device_tracker :: "world \<Rightarrow> addr \<times> world" where
  "create_device_tracker W =
     (let a = next_addr W;
          s = blank_socket\<lparr>enqueue := Device_tracker_enqueue, ready := Device_tracker_ready,
                           close := Device_tracker_close, update_needed := True\<rparr>
      in (a, setS a s (W\<lparr>next_addr := a + 1, device_tracker_list := a # device_tracker_list W\<rparr>)))"

text \<open>\<^verbatim>\<open>update_transports\<close>; the next tracker is read before the send, which may destroy the tracker.\<close>

fun update_loop ::
    "(addr \<Rightarrow> apacket \<Rightarrow> world \<Rightarrow> (int \<times> world) res) \<Rightarrow> bytes \<Rightarrow> addr list \<Rightarrow> world \<Rightarrow> world res" where
  "update_loop enq buffer [] W = Inr W"
| "update_loop enq buffer (a # as) W =
     rbind (device_tracker_send enq a buffer W) (\<lambda>(r, W1). update_loop enq buffer as W1)"

definition update_transports ::
    "(addr \<Rightarrow> apacket \<Rightarrow> world \<Rightarrow> (int \<times> world) res) \<Rightarrow> world \<Rightarrow> world res" where
  "update_transports enq W =
     rbind (list_transports_msg 1024 W) (\<lambda>buffer. update_loop enq buffer (device_tracker_list W) W)"

section \<open>The depth of closing\<close>

lemma setS_sockets [simp]: "sockets (setS a s W) = (sockets W)(a \<mapsto> s)"
  by (simp add: setS_def)

lemma locked_alone:
  assumes "sockets W a = Some s" "peer s = None"
  shows "local_socket_close_locked (Suc n) a W = local_socket_close_locked (Suc 0) a W"
  using assms by (simp add: local_socket_close_body_def)

lemma w_writex_sockets [simp]: "sockets (snd (w_writex fd bs W)) = sockets W"
  by (simp add: w_writex_def split: prod.splits)

lemma sendfailmsg_sockets [simp]: "sockets (snd (sendfailmsg fd r W)) = sockets W"
  by (auto simp: sendfailmsg_def w_writex_def Let_def split: prod.splits)

lemma close_alone_local:
  assumes "sockets W a = Some s" "peer s = None" "close s = Local_socket_close"
  shows "sock_close (Suc (Suc n)) a W = sock_close 2 a W"
  using assms locked_alone [of "W\<lparr>socket_list_lock := True\<rparr>" a s n]
    locked_alone [of "W\<lparr>socket_list_lock := True\<rparr>" a s 0]
  by (simp add: local_socket_close_def numeral_2_eq_2 del: local_socket_close_locked.simps)

lemma close_alone:
  assumes "sockets W a = Some s" "peer s = None"
  shows "sock_close (Suc (Suc (Suc n))) a W = sock_close 3 a W"
proof (cases "close s")
  case Local_socket_close
  with close_alone_local [OF assms this, of "Suc n"] close_alone_local [OF assms this, of "Suc 0"]
  show ?thesis by (simp add: numeral_3_eq_3 del: sock_close.simps)
next
  case Local_socket_close_notify
  define W1 where "W1 = setS a (s\<lparr>ready := Local_socket_ready, close := Local_socket_close\<rparr>) W"
  define W2 where "W2 = snd (sendfailmsg (s_fd s) ''closed'' W1)"
  have W2: "sockets W2 a = Some (s\<lparr>ready := Local_socket_ready, close := Local_socket_close\<rparr>)"
    by (simp add: W2_def W1_def)
  have step: "sock_close (Suc k) a W = sock_close k a W2" for k
    using assms Local_socket_close_notify by (simp add: local_socket_close_notify_def W2_def W1_def)
  show ?thesis using close_alone_local [OF W2, of n] assms(2) step [of "Suc (Suc n)"] step [of 2]
    by (simp add: numeral_3_eq_3 numeral_2_eq_2 del: sock_close.simps)
qed (use assms in \<open>simp_all add: numeral_3_eq_3 remote_socket_close_def smart_socket_close_def device_tracker_close_def\<close>)

text \<open>Whatever the peer is, its back pointer has been cleared when it is called.\<close>

lemma updS_peer_cleared:
  assumes "updS b (\<lambda>t. t\<lparr>peer := None\<rparr>) W = Inr W1"
  shows "\<exists>t. sockets W1 b = Some t \<and> peer t = None"
  using assms by (auto simp: updS_def getS_def res split: option.splits)

lemma alone_fuel:
  assumes "updS b (\<lambda>t. t\<lparr>peer := None\<rparr>) W = Inr W1" "3 \<le> n" "3 \<le> m"
  shows "local_socket_close_locked n b W1 = local_socket_close_locked m b W1" "sock_close n b W1 = sock_close m b W1"
proof -
  obtain u where u: "sockets W1 b = Some u" "peer u = None" using updS_peer_cleared [OF assms(1)] by blast
  obtain n' m' where nm: "n = Suc (Suc (Suc n'))" "m = Suc (Suc (Suc m'))"
    using assms(2,3) by (auto simp: numeral_3_eq_3 Suc_le_eq less_iff_Suc_add)
  show "local_socket_close_locked n b W1 = local_socket_close_locked m b W1" "sock_close n b W1 = sock_close m b W1"
    unfolding nm using locked_alone [OF u] close_alone [OF u] by metis+
qed

lemma locked_fuel:
  assumes "4 \<le> n" "4 \<le> m"
  shows "local_socket_close_locked n a W = local_socket_close_locked m a W"
proof -
  obtain n' m' where nm: "n = Suc n'" "m = Suc m'" "3 \<le> n'" "3 \<le> m'"
    using assms by (cases n; cases m) auto
  show ?thesis
  proof (cases "sockets W a")
    case None
    then show ?thesis by (simp add: nm(1,2) local_socket_close_body_def getS_def)
  next
    case (Some s)
    show ?thesis
    proof (cases "peer s")
      case None
      with Some show ?thesis by (simp add: nm(1,2) local_socket_close_body_def)
    next
      case peer: (Some b)
      show ?thesis
      proof (cases "updS b (\<lambda>t. t\<lparr>peer := None\<rparr>) W")
        case (Inl e)
        with Some peer show ?thesis by (simp add: nm(1,2) local_socket_close_body_def del: updS_Some)
      next
        case (Inr W1)
        note eq = alone_fuel [OF Inr nm(3,4)]
        show ?thesis using Some peer Inr by (simp add: nm(1,2) local_socket_close_body_def eq del: updS_Some cong: if_cong)
      qed
    qed
  qed
qed

lemma close_fuel_local:
  assumes "5 \<le> n" "5 \<le> m" "sockets W a = Some s" "close s = Local_socket_close"
  shows "sock_close n a W = sock_close m a W"
proof -
  obtain n' m' where nm: "n = Suc n'" "m = Suc m'" "4 \<le> n'" "4 \<le> m'"
    using assms by (cases n; cases m) auto
  show ?thesis using assms(3,4) locked_fuel [OF nm(3,4)] by (simp add: nm(1,2) local_socket_close_def)
qed

lemma close_fuel:
  assumes "6 \<le> n" "6 \<le> m"
  shows "sock_close n a W = sock_close m a W"
proof (cases "sockets W a")
  case None
  then show ?thesis using assms by (cases n; cases m) (simp_all add: getS_def)
next
  case (Some s)
  obtain n' m' where nm: "n = Suc n'" "m = Suc m'" "5 \<le> n'" "5 \<le> m'"
    using assms by (cases n; cases m) auto
  then have three: "3 \<le> n'" "3 \<le> m'" by auto
  have call: "rbind (updS b (\<lambda>t. t\<lparr>peer := None\<rparr>) W) (\<lambda>W1. rbind (sock_close n' b W1) f)
      = rbind (updS b (\<lambda>t. t\<lparr>peer := None\<rparr>) W) (\<lambda>W1. rbind (sock_close m' b W1) f)"
    "rbind (updS b (\<lambda>t. t\<lparr>peer := None\<rparr>) W) (\<lambda>W1. sock_close n' b W1)
      = rbind (updS b (\<lambda>t. t\<lparr>peer := None\<rparr>) W) (\<lambda>W1. sock_close m' b W1)" for b f
    using alone_fuel(2) [OF _ three, of b W] by (cases "updS b (\<lambda>t. t\<lparr>peer := None\<rparr>) W"; simp)+
  show ?thesis
  proof (cases "close s")
    case Local_socket_close
    with close_fuel_local [of n m W a s] assms Some show ?thesis by simp
  next
    case Local_socket_close_notify
    define W2 where "W2 = snd (sendfailmsg (s_fd s) ''closed''
        (setS a (s\<lparr>ready := Local_socket_ready, close := Local_socket_close\<rparr>) W))"
    have "sockets W2 a = Some (s\<lparr>ready := Local_socket_ready, close := Local_socket_close\<rparr>)"
      by (simp add: W2_def)
    from close_fuel_local [OF nm(3,4) this] have "sock_close n' a W2 = sock_close m' a W2" by simp
    then show ?thesis using Some Local_socket_close_notify
      by (simp add: nm(1,2) local_socket_close_notify_def W2_def)
  next
    case Remote_socket_close
    then show ?thesis using Some
      by (cases "peer s") (simp_all add: nm(1,2) remote_socket_close_def call del: updS_Some)
  next
    case Smart_socket_close
    then show ?thesis using Some
      by (cases "peer s") (simp_all add: nm(1,2) smart_socket_close_def call del: updS_Some)
  next
    case Device_tracker_close
    then show ?thesis using Some
      by (cases "peer s") (simp_all add: nm(1,2) device_tracker_close_def call del: updS_Some)
  qed
qed

text \<open>No operation below the calls through function pointers can run out of depth.\<close>

definition in_depth :: "'a res \<Rightarrow> bool" where
  "in_depth r \<longleftrightarrow> r \<noteq> Inl OutOfFuel"

lemma in_depth_Inr [simp]: "in_depth (Inr x)" "in_depth (Inl (UseAfterFree a))" "in_depth (Inl NullDeref)"
  "in_depth (Inl (Fatal m))" "in_depth (Inl BufferOverflow)" "in_depth (Inl SelfDeadlock)" "in_depth (Inl (Exit k))"
  "in_depth (Inl UninitRead)"
  by (simp_all add: in_depth_def)

lemma in_depth_rbind [intro!]:
  assumes "in_depth m" "\<And>x. m = Inr x \<Longrightarrow> in_depth (f x)"
  shows "in_depth (rbind m f)"
  using assms by (cases m) (simp_all add: in_depth_def)

lemma in_depth_access [simp]: "in_depth (getS a W)" "in_depth (getT a W)" "in_depth (getL a W)" "in_depth (updS a f W)"
  "in_depth (updT a g W)" "in_depth (deref p)" "in_depth (fetch a F)"
  by (auto simp: getS_def getT_def getL_def updS_def updT_def deref_def fetch_def split: option.splits)

lemma in_depth_if [intro!]: "in_depth x \<Longrightarrow> in_depth y \<Longrightarrow> in_depth (if b then x else y)"
  by simp

lemma in_depth_fdevent [simp]:
  "in_depth (fdevent_register a F)" "in_depth (fdevent_unregister a F)" "in_depth (fdevent_connect a F)"
  "in_depth (fdevent_disconnect a F)" "in_depth (fdevent_update a ev F)"
  unfolding fdevent_register_def fdevent_unregister_def fdevent_connect_def fdevent_disconnect_def
    fdevent_update_def Let_def
  by (intro in_depth_rbind in_depth_if in_depth_access in_depth_Inr)+

lemma in_depth_fdevent_set [simp]: "in_depth (fdevent_set a ev F)"
  unfolding fdevent_set_def Let_def
  by (intro in_depth_rbind in_depth_if in_depth_access in_depth_Inr in_depth_fdevent)+

lemma in_depth_fdevent_ops [simp]:
  "in_depth (fdevent_install a fd fn arg F)" "in_depth (fdevent_remove a F)"
  "in_depth (fdevent_add a ev F)" "in_depth (fdevent_del a ev F)"
  unfolding fdevent_install_def fdevent_remove_def fdevent_add_def fdevent_del_def Let_def
  by (intro in_depth_rbind in_depth_if in_depth_access in_depth_Inr in_depth_fdevent in_depth_fdevent_set)+

lemma in_depth_on_fds [simp]: "(\<And>F. in_depth (f F)) \<Longrightarrow> in_depth (on_fds f W)"
  by (auto simp: on_fds_def)

lemma in_depth_remove_socket [simp]: "in_depth (remove_socket a W)"
  unfolding remove_socket_def by (intro in_depth_rbind in_depth_if in_depth_access in_depth_Inr)

lemma in_depth_steps [simp]: "in_depth (send_packet p t W)" "in_depth (local_socket_destroy a W)"
  "in_depth (remove_transport_disconnect t d W)" "in_depth (add_transport_disconnect t d W)"
  by (auto simp: send_packet_def local_socket_destroy_def remove_transport_disconnect_def
      add_transport_disconnect_def Let_def split: option.splits)

lemma in_depth_body:
  assumes "\<And>b W1 t. updS b (\<lambda>t. t\<lparr>peer := None\<rparr>) W = Inr W1 \<Longrightarrow> in_depth (cll b W1) \<and> in_depth (cl b W1)"
  shows "in_depth (local_socket_close_body cll cl a W)"
  unfolding local_socket_close_body_def
  using assms by (intro in_depth_rbind) (auto split: option.splits simp del: updS_Some)

lemma in_depth_alone:
  assumes "sockets W a = Some s" "peer s = None"
  shows "in_depth (local_socket_close_locked (Suc n) a W)"
    "close s = Local_socket_close \<Longrightarrow> in_depth (sock_close (Suc (Suc n)) a W)"
    "in_depth (sock_close (Suc (Suc (Suc n))) a W)"
proof -
  have locked: "in_depth (local_socket_close_locked (Suc n) a W)" if "sockets W a = Some s" "peer s = None" for n W s
    using that by (auto simp: local_socket_close_body_def)
  then show "in_depth (local_socket_close_locked (Suc n) a W)" using assms by blast
  have two: "in_depth (sock_close (Suc (Suc n)) a W)"
    if "sockets W a = Some s" "peer s = None" "close s = Local_socket_close" for n W s
    using that locked [of "W\<lparr>socket_list_lock := True\<rparr>" s n]
    by (auto simp: local_socket_close_def simp del: local_socket_close_locked.simps)
  then show "close s = Local_socket_close \<Longrightarrow> in_depth (sock_close (Suc (Suc n)) a W)" using assms by blast
  show "in_depth (sock_close (Suc (Suc (Suc n))) a W)"
  proof (cases "close s")
    case Local_socket_close
    then show ?thesis using two assms by blast
  next
    case Local_socket_close_notify
    define W2 where "W2 = snd (sendfailmsg (s_fd s) ''closed''
        (setS a (s\<lparr>ready := Local_socket_ready, close := Local_socket_close\<rparr>) W))"
    have "sock_close (Suc (Suc (Suc n))) a W = sock_close (Suc (Suc n)) a W2"
      using assms Local_socket_close_notify by (simp add: local_socket_close_notify_def W2_def)
    moreover have "in_depth (sock_close (Suc (Suc n)) a W2)"
      by (rule two [of _ "s\<lparr>ready := Local_socket_ready, close := Local_socket_close\<rparr>"])
        (simp_all add: W2_def assms)
    ultimately show ?thesis by simp
  qed (use assms in \<open>auto simp: remote_socket_close_def smart_socket_close_def device_tracker_close_def\<close>)
qed

lemma in_depth_cleared:
  assumes "updS b (\<lambda>t. t\<lparr>peer := None\<rparr>) W = Inr W1" "3 \<le> n"
  shows "in_depth (local_socket_close_locked n b W1)" "in_depth (sock_close n b W1)"
proof -
  obtain u where u: "sockets W1 b = Some u" "peer u = None" using updS_peer_cleared [OF assms(1)] by blast
  obtain n' where n: "n = Suc (Suc (Suc n'))"
    using assms(2) by (auto simp: numeral_3_eq_3 Suc_le_eq less_iff_Suc_add)
  show "in_depth (local_socket_close_locked n b W1)" "in_depth (sock_close n b W1)"
    unfolding n using in_depth_alone(1,3) [OF u] by blast+
qed

lemma in_depth_locked:
  assumes "4 \<le> n"
  shows "in_depth (local_socket_close_locked n a W)"
proof -
  obtain k where k: "n = Suc k" "3 \<le> k" using assms by (cases n) auto
  show ?thesis unfolding k(1) local_socket_close_locked.simps
    by (rule in_depth_body) (use in_depth_cleared [OF _ k(2)] in blast)
qed

lemma in_depth_close:
  assumes "6 \<le> n"
  shows "in_depth (sock_close n a W)"
proof (cases "sockets W a")
  case None
  with assms show ?thesis by (cases n) (simp_all add: getS_def)
next
  case (Some s)
  obtain k where k: "n = Suc k" "5 \<le> k" using assms by (cases n) auto
  then have three: "3 \<le> k" by simp
  have lc: "in_depth (sock_close j a V)" if "5 \<le> j" "sockets V a = Some u" "close u = Local_socket_close" for j V u
    using that in_depth_locked [of "j - 1"]
    by (cases j) (auto simp: local_socket_close_def)
  show ?thesis
  proof (cases "close s")
    case Local_socket_close
    then show ?thesis using lc Some assms by simp
  next
    case Local_socket_close_notify
    define W2 where "W2 = snd (sendfailmsg (s_fd s) ''closed''
        (setS a (s\<lparr>ready := Local_socket_ready, close := Local_socket_close\<rparr>) W))"
    have "sock_close n a W = sock_close k a W2"
      using Some Local_socket_close_notify by (simp add: k(1) local_socket_close_notify_def W2_def)
    moreover have "in_depth (sock_close k a W2)"
      by (rule lc [OF k(2), of _ "s\<lparr>ready := Local_socket_ready, close := Local_socket_close\<rparr>"])
        (simp_all add: W2_def)
    ultimately show ?thesis by simp
  qed (use Some in_depth_cleared(2) [OF _ three] in
      \<open>auto simp: k(1) remote_socket_close_def smart_socket_close_def device_tracker_close_def
         split: option.splits simp del: updS_Some\<close>)
qed

section \<open>What closing does\<close>

definition wired :: "addr \<Rightarrow> world \<Rightarrow> bool" where
  "wired a W \<longleftrightarrow> fd_inv (fds W) \<and> (\<exists>f. fdes (fds W) a = Some f \<and> active f \<and> \<not> has (fde_state f) FDE_DONT_CLOSE)"

lemma freeS_setS [simp]: "freeS a (setS a s W) = freeS a W"
  by (simp add: freeS_def setS_def)

lemma destroy_eq:
  assumes "sockets W a = Some s" "\<not> exit_on_close s" "fdevent_remove a (fds W) = Inr F"
  shows "local_socket_destroy a W = Inr (freeS a (W\<lparr>fds := F, local_socket_list := remove1 a (local_socket_list W),
      local_socket_closing_list := remove1 a (local_socket_closing_list W)\<rparr>))"
  using assms by (simp add: local_socket_destroy_def on_fds_def remove_socket_def remove1_idem)

lemma wired_remove:
  assumes "wired a W"
  shows "\<exists>F f. fdes (fds W) a = Some f \<and> fdevent_remove a (fds W) = Inr F \<and> fd_inv F
    \<and> closed_fds F = closed_fds (fds W) @ [nat (fde_fd f)]"
  using assms fdevent_remove_inv unfolding wired_def by fastforce

definition clse :: "u32 \<Rightarrow> u32 \<Rightarrow> apacket" where
  "clse i j = seal_packet (get_apacket\<lparr>msg := zero_msg\<lparr>command := A_CLSE, arg0 := i, arg1 := j\<rparr>\<rparr>)"

lemma remote_close_alone:
  assumes "sockets W b = Some r" "peer r = None" "s_transport r = Some t" "transports W t = Some tr" "\<not> pair_broken tr"
  shows "remote_socket_close cl b W = Inr (freeS b (W\<lparr>transports := (transports W)(t \<mapsto>
      tr\<lparr>to_threads := to_threads tr @ [clse 0 (s_id r)], disconnects := remove1 (Remote_socket_disconnect b) (disconnects tr)\<rparr>)\<rparr>))"
  using assms by (simp add: remote_socket_close_def send_packet_def remove_transport_disconnect_def clse_def)

text \<open>A local socket connected to a remote socket.\<close>

definition connected_pair :: "addr \<Rightarrow> asocket \<Rightarrow> addr \<Rightarrow> asocket \<Rightarrow> addr \<Rightarrow> atransport \<Rightarrow> world \<Rightarrow> bool" where
  "connected_pair a s b r t tr W \<longleftrightarrow>
     a \<noteq> b \<and> sockets W a = Some s \<and> sockets W b = Some r \<and> peer s = Some b \<and> peer r = Some a
   \<and> close s = Local_socket_close \<and> close r = Remote_socket_close \<and> \<not> exit_on_close s
   \<and> s_transport r = Some t \<and> transports W t = Some tr \<and> \<not> pair_broken tr \<and> wired a W \<and> \<not> socket_list_lock W"

lemma close_pair_peer:
  assumes "connected_pair a s b r t tr W"
  defines "tr' \<equiv> tr\<lparr>to_threads := to_threads tr @ [clse 0 (s_id r)],
      disconnects := remove1 (Remote_socket_disconnect b) (disconnects tr)\<rparr>"
  shows "sock_close (Suc n) b (setS b (r\<lparr>peer := None\<rparr>) (W\<lparr>socket_list_lock := True\<rparr>)) =
    Inr (freeS b (W\<lparr>socket_list_lock := True, transports := (transports W)(t \<mapsto> tr')\<rparr>))"
proof -
  let ?W = "setS b (r\<lparr>peer := None\<rparr>) (W\<lparr>socket_list_lock := True\<rparr>)"
  have "remote_socket_close (sock_close n) b ?W = Inr (freeS b (?W\<lparr>transports := (transports ?W)(t \<mapsto> tr')\<rparr>))"
    unfolding tr'_def using assms(1) remote_close_alone [of ?W b "r\<lparr>peer := None\<rparr>" t tr "sock_close n"]
    by (simp add: connected_pair_def setS_def)
  then show ?thesis
    using assms(1) by (simp add: connected_pair_def setS_def freeS_def)
qed

lemma close_pair_locked:
  assumes cp: "connected_pair a s b r t tr W"
  defines "tr' \<equiv> tr\<lparr>to_threads := to_threads tr @ [clse 0 (s_id r)],
      disconnects := remove1 (Remote_socket_disconnect b) (disconnects tr)\<rparr>"
  shows "pkts s = [] \<or> closing s \<Longrightarrow> \<exists>F f. fdes (fds W) a = Some f \<and> fdevent_remove a (fds W) = Inr F \<and> fd_inv F
      \<and> closed_fds F = closed_fds (fds W) @ [nat (fde_fd f)]
      \<and> local_socket_close_locked 7 a (W\<lparr>socket_list_lock := True\<rparr>) =
        Inr (freeS a (freeS b (W\<lparr>socket_list_lock := True, transports := (transports W)(t \<mapsto> tr'), fds := F,
          local_socket_list := remove1 a (local_socket_list W),
          local_socket_closing_list := remove1 a (local_socket_closing_list W)\<rparr>)))"
    and "pkts s \<noteq> [] \<Longrightarrow> \<not> closing s \<Longrightarrow> a \<in> set (local_socket_list W) \<Longrightarrow>
      \<exists>F. fdevent_del a FDE_READ (fds W) = Inr F \<and> fd_inv F \<and> closed_fds F = closed_fds (fds W)
      \<and> local_socket_close_locked 7 a (W\<lparr>socket_list_lock := True\<rparr>) =
        Inr (setS a (s\<lparr>peer := None, closing := True, s_id := 0\<rparr>) (freeS b (W\<lparr>socket_list_lock := True,
          transports := (transports W)(t \<mapsto> tr'), fds := F,
          local_socket_list := remove1 a (local_socket_list W),
          local_socket_closing_list := remove1 a (local_socket_closing_list W) @ [a]\<rparr>)))"
proof -
  let ?L = "W\<lparr>socket_list_lock := True\<rparr>"
  let ?W3 = "setS a (s\<lparr>peer := None\<rparr>) (freeS b (?L\<lparr>transports := (transports W)(t \<mapsto> tr')\<rparr>))"
  have ab: "a \<noteq> b" "b \<noteq> a" using cp by (auto simp: connected_pair_def)
  have seven: "local_socket_close_locked 7 a ?L = local_socket_close_body (local_socket_close_locked 6) (sock_close 6) a ?L"
    using local_socket_close_locked.simps(2) [of 6 a ?L] by (simp del: local_socket_close_locked.simps sock_close.simps)
  have six: "sock_close 6 b (setS b (r\<lparr>peer := None\<rparr>) ?L) = Inr (freeS b (?L\<lparr>transports := (transports W)(t \<mapsto> tr')\<rparr>))"
    using close_pair_peer [OF cp, of 5] by (simp add: tr'_def del: sock_close.simps)
  have step: "local_socket_close_locked 7 a ?L =
      (if closing s \<or> pkts s = [] then local_socket_destroy a ?W3
       else rbind (updS a (\<lambda>s. s\<lparr>closing := True\<rparr>) ?W3) (\<lambda>W4.
         rbind (on_fds (fdevent_del a FDE_READ) W4) (\<lambda>W5.
         rbind (remove_socket a W5) (\<lambda>W6.
           Inr (W6\<lparr>local_socket_closing_list := local_socket_closing_list W6 @ [a]\<rparr>)))))"
    unfolding seven using cp six ab
    by (simp add: local_socket_close_body_def connected_pair_def freeS_def setS_def)
  have W3: "sockets ?W3 a = Some (s\<lparr>peer := None\<rparr>)" "fds ?W3 = fds W" by (simp_all add: setS_def freeS_def)
  show "\<exists>F f. fdes (fds W) a = Some f \<and> fdevent_remove a (fds W) = Inr F \<and> fd_inv F
      \<and> closed_fds F = closed_fds (fds W) @ [nat (fde_fd f)]
      \<and> local_socket_close_locked 7 a ?L =
        Inr (freeS a (freeS b (W\<lparr>socket_list_lock := True, transports := (transports W)(t \<mapsto> tr'), fds := F,
          local_socket_list := remove1 a (local_socket_list W),
          local_socket_closing_list := remove1 a (local_socket_closing_list W)\<rparr>)))"
    if "pkts s = [] \<or> closing s"
  proof -
    from cp have w: "wired a W" by (simp add: connected_pair_def)
    from wired_remove [OF w] obtain F f where F: "fdevent_remove a (fds W) = Inr F" "fd_inv F"
      "fdes (fds W) a = Some f" "closed_fds F = closed_fds (fds W) @ [nat (fde_fd f)]" by blast
    have "local_socket_destroy a ?W3 = Inr (freeS a (?W3\<lparr>fds := F, local_socket_list := remove1 a (local_socket_list ?W3),
      local_socket_closing_list := remove1 a (local_socket_closing_list ?W3)\<rparr>))"
      by (rule destroy_eq [OF W3(1)]) (use cp F(1) W3(2) in \<open>auto simp: connected_pair_def\<close>)
    with step F that show ?thesis by (auto simp: freeS_def setS_def)
  qed
  show "\<exists>F. fdevent_del a FDE_READ (fds W) = Inr F \<and> fd_inv F \<and> closed_fds F = closed_fds (fds W)
      \<and> local_socket_close_locked 7 a ?L =
        Inr (setS a (s\<lparr>peer := None, closing := True, s_id := 0\<rparr>) (freeS b (W\<lparr>socket_list_lock := True,
          transports := (transports W)(t \<mapsto> tr'), fds := F,
          local_socket_list := remove1 a (local_socket_list W),
          local_socket_closing_list := remove1 a (local_socket_closing_list W) @ [a]\<rparr>)))"
    if p: "pkts s \<noteq> []" "\<not> closing s" "a \<in> set (local_socket_list W)"
  proof -
    from cp obtain f where "fd_inv (fds W)" "fdes (fds W) a = Some f" "active f"
      by (auto simp: connected_pair_def wired_def)
    from fdevent_add_inv(2) [OF this, of FDE_READ] obtain F where
      F: "fdevent_del a FDE_READ (fds W) = Inr F" "fd_inv F" "closed_fds F = closed_fds (fds W)" by blast
    have "local_socket_close_locked 7 a ?L =
        Inr (setS a (s\<lparr>peer := None, closing := True, s_id := 0\<rparr>) (freeS b (W\<lparr>socket_list_lock := True,
          transports := (transports W)(t \<mapsto> tr'), fds := F,
          local_socket_list := remove1 a (local_socket_list W),
          local_socket_closing_list := remove1 a (local_socket_closing_list W) @ [a]\<rparr>)))"
      unfolding step using p F(1) by (simp add: on_fds_def remove_socket_def setS_def freeS_def)
    with F show ?thesis by blast
  qed
qed

section \<open>What enqueueing does\<close>

text \<open>The change a write makes: the script and the record of one descriptor.\<close>

definition wrote_on :: "int \<Rightarrow> world \<Rightarrow> world \<Rightarrow> bool" where
  "wrote_on fd W W' \<longleftrightarrow>
     (\<exists>q w. W' = W\<lparr>outgoing := (outgoing W)(fd := q), written := (written W)(fd := w)\<rparr>)"

lemma wrote_on_refl: "wrote_on fd W W"
  unfolding wrote_on_def by (intro exI [of _ "outgoing W fd"] exI [of _ "written W fd"]) simp

lemma wrote_on_trans: "wrote_on fd W W1 \<Longrightarrow> wrote_on fd W1 W2 \<Longrightarrow> wrote_on fd W W2"
  unfolding wrote_on_def by fastforce

lemma wrote_on_simps:
  assumes "wrote_on fd W W'"
  shows "sockets W' = sockets W" "fds W' = fds W" "transports W' = transports W" "socket_list_lock W' = socket_list_lock W"
    "local_socket_list W' = local_socket_list W" "local_socket_closing_list W' = local_socket_closing_list W"
    "incoming W' = incoming W" "x \<noteq> fd \<Longrightarrow> written W' x = written W x"
  using assms by (auto simp: wrote_on_def)

lemma w_write_spec:
  assumes "w_write fd bs W = (r, W')"
  shows "wrote_on fd W W'" "written W' fd = written W fd @ (case r of Inr n \<Rightarrow> take n bs | Inl _ \<Rightarrow> [])"
    "r = Inr n \<Longrightarrow> n \<le> length bs"
proof -
  obtain r' q where a: "adb_write (length bs) (outgoing W fd) = (r', q)" by fastforce
  from assms a show "wrote_on fd W W'" by (auto simp: w_write_def wrote_on_def)
  from assms a show "written W' fd = written W fd @ (case r of Inr n \<Rightarrow> take n bs | Inl _ \<Rightarrow> [])"
    by (auto simp: w_write_def)
  from assms a show "n \<le> length bs" if "r = Inr n"
    using that by (cases "(length bs, outgoing W fd)" rule: adb_write.cases) (auto simp: w_write_def)
qed

lemma unsent_advance:
  assumes "n \<le> length (unsent p)"
  shows "take n (unsent p) @ unsent (p\<lparr>p_len := p_len p - n, p_ptr := p_ptr p + n\<rparr>) = unsent p"
proof -
  let ?x = "drop (p_ptr p) (data p)"
  have n: "n \<le> p_len p" using assms by (simp add: unsent_def)
  have "take n ?x @ take (p_len p - n) (drop n ?x) = take (p_len p) ?x"
    using n take_add [of n "p_len p - n" ?x] by simp
  then show ?thesis using n by (simp add: unsent_def min_absorb1 add.commute)
qed

lemma wf_advance: "wf_pkt p \<Longrightarrow> n \<le> length (unsent p) \<Longrightarrow> wf_pkt (p\<lparr>p_len := p_len p - n, p_ptr := p_ptr p + n\<rparr>)"
  by (auto simp: wf_pkt_def unsent_def)

lemma enqueue_write_spec:
  assumes "enqueue_write fd p W = (st, p', W')" "wf_pkt p"
  shows "wrote_on fd W W' \<and> written W' fd @ unsent p' = written W fd @ unsent p \<and> wf_pkt p'
    \<and> (st = Drained \<longleftrightarrow> p_len p' = 0)"
  using assms
proof (induction fd p W rule: enqueue_write.induct)
  case (1 fd p W)
  show ?case
  proof (cases "p_len p = 0")
    case True
    then show ?thesis using "1.prems" by (auto simp: enqueue_write.simps [of fd p W] wrote_on_refl)
  next
    case False
    obtain r W1 where w: "w_write fd (unsent p) W = (r, W1)" by fastforce
    note ws = w_write_spec [OF w]
    show ?thesis
    proof (cases r)
      case (Inl e)
      then show ?thesis using "1.prems" False w ws by (auto simp: enqueue_write.simps [of fd p W] split: if_splits)
    next
      case (Inr n)
      show ?thesis
      proof (cases "n = 0")
        case True
        then show ?thesis using "1.prems" False w ws Inr by (auto simp: enqueue_write.simps [of fd p W])
      next
        case n: False
        have le: "n \<le> length (unsent p)" using ws(3) Inr by blast
        let ?p = "p\<lparr>p_len := p_len p - n, p_ptr := p_ptr p + n\<rparr>"
        have run: "enqueue_write fd ?p W1 = (st, p', W')"
          using "1.prems"(1) False w Inr n by (simp add: enqueue_write.simps [of fd p W])
        have ih: "wrote_on fd W1 W' \<and> written W' fd @ unsent p' = written W1 fd @ unsent ?p \<and> wf_pkt p'
            \<and> (st = Drained \<longleftrightarrow> p_len p' = 0)"
          by (rule "1.IH" [OF False w [symmetric] Inr n run]) (use wf_advance "1.prems"(2) le in blast)
        then show ?thesis
          using ws(1,2) Inr unsent_advance [OF le] wrote_on_trans by auto
      qed
    qed
  qed
qed

definition queued :: "asocket \<Rightarrow> bytes" where
  "queued s = concat (map unsent (pkts s))"

lemma wired_add:
  assumes "wired a W" "\<not> has ev FDE_DONT_CLOSE"
  shows "\<exists>F f'. on_fds (fdevent_add a ev) W = Inr (W\<lparr>fds := F\<rparr>) \<and> wired a (W\<lparr>fds := F\<rparr>) \<and> fdes F a = Some f'
    \<and> (\<forall>m \<in> {FDE_READ, FDE_WRITE}. has ev m \<longrightarrow> has (fde_state f') m) \<and> closed_fds F = closed_fds (fds W)"
proof -
  from assms(1) obtain f where f: "fd_inv (fds W)" "fdes (fds W) a = Some f" "active f"
    "\<not> has (fde_state f) FDE_DONT_CLOSE" by (auto simp: wired_def)
  from fdevent_add_result [OF f(1,2,3), of ev] obtain F f' where F: "fdevent_add a ev (fds W) = Inr F" "fd_inv F"
    "fdes F = (fdes (fds W))(a \<mapsto> f')" "same_wiring f f'"
    "fde_state f' AND FDE_EVENTMASK = (fde_state f OR ev) AND FDE_EVENTMASK" "closed_fds F = closed_fds (fds W)" by blast
  note e = event_bits [OF F(5)]
  have dc: "\<not> has (fde_state f') FDE_DONT_CLOSE" using e(3) f(4) assms(2) by (simp add: has_bit bit_simps)
  have "has (fde_state f') m" if "m \<in> {FDE_READ, FDE_WRITE}" "has ev m" for m
    using that e(1,2) by (auto simp: has_bit bit_simps)
  with F dc show ?thesis
    by (intro exI [of _ F] exI [of _ f']) (auto simp: on_fds_def wired_def same_wiring_def)
qed

lemma not_dont_close [simp]: "\<not> has FDE_READ FDE_DONT_CLOSE" "\<not> has FDE_WRITE FDE_DONT_CLOSE"
  by (simp_all add: has_def fde_consts)

lemma has_self [simp]: "has FDE_READ FDE_READ" "has FDE_WRITE FDE_WRITE"
  by (simp_all add: has_def fde_consts)

text \<open>Putting a packet at the tail of the queue.\<close>

lemma queue_tail:
  assumes "sockets W a = Some s" "wired a W"
  shows "\<exists>W' f'. rbind (updS a (\<lambda>s. s\<lparr>pkts := pkts s @ [p]\<rparr>) W) (\<lambda>W1.
       rbind (on_fds (fdevent_add a FDE_WRITE) W1) (\<lambda>W2. Inr (1 :: int, W2))) = Inr (1, W')
    \<and> sockets W' = (sockets W)(a \<mapsto> s\<lparr>pkts := pkts s @ [p]\<rparr>) \<and> written W' = written W \<and> wired a W'
    \<and> transports W' = transports W \<and> fdes (fds W') a = Some f' \<and> has (fde_state f') FDE_WRITE"
proof -
  let ?W1 = "setS a (s\<lparr>pkts := pkts s @ [p]\<rparr>) W"
  have "wired a ?W1" using assms(2) by (simp add: wired_def setS_def)
  from wired_add [OF this, of FDE_WRITE] obtain F f' where
    F: "on_fds (fdevent_add a FDE_WRITE) ?W1 = Inr (?W1\<lparr>fds := F\<rparr>)" "wired a (?W1\<lparr>fds := F\<rparr>)" "fdes F a = Some f'"
      "has (fde_state f') FDE_WRITE" by auto
  then show ?thesis using assms(1) by (simp add: setS_def)
qed

text \<open>Enqueueing on a local socket whose descriptor is not broken.\<close>

lemma local_enqueue_result:
  assumes s: "sockets W a = Some s" and w: "wired a W" and p: "p_len p \<le> length (data p)"
    and ok: "pkts s \<noteq> [] \<or> fst (enqueue_write (s_fd s) (p\<lparr>p_ptr := 0\<rparr>) W) \<noteq> Broken"
  shows "\<exists>r W' ps. local_socket_enqueue a p W = Inr (r, W') \<and> sockets W' = (sockets W)(a \<mapsto> s\<lparr>pkts := ps\<rparr>)
    \<and> written W' (s_fd s) @ concat (map unsent ps) = written W (s_fd s) @ queued s @ take (p_len p) (data p)
    \<and> (r = 0 \<longleftrightarrow> ps = []) \<and> (r = 0 \<or> r = 1) \<and> transports W' = transports W
    \<and> (r = 1 \<longrightarrow> (\<exists>f. fdes (fds W') a = Some f \<and> has (fde_state f) FDE_WRITE))"
proof -
  let ?p = "p\<lparr>p_ptr := 0\<rparr>"
  have wf: "wf_pkt ?p" using p by (simp add: wf_pkt_def)
  have new: "unsent ?p = take (p_len p) (data p)" by (simp add: unsent_def)
  show ?thesis
  proof (cases "pkts s = []")
    case False
    from queue_tail [OF s w, of ?p] obtain W' f' where
      W': "rbind (updS a (\<lambda>s. s\<lparr>pkts := pkts s @ [?p]\<rparr>) W) (\<lambda>W1.
         rbind (on_fds (fdevent_add a FDE_WRITE) W1) (\<lambda>W2. Inr (1 :: int, W2))) = Inr (1, W')"
        "sockets W' = (sockets W)(a \<mapsto> s\<lparr>pkts := pkts s @ [?p]\<rparr>)" "written W' = written W" "transports W' = transports W"
        "fdes (fds W') a = Some f'" "has (fde_state f') FDE_WRITE" by blast
    then have "local_socket_enqueue a p W = Inr (1, W')"
      using False s by (simp add: local_socket_enqueue_def Let_def del: updS_Some)
    with W' new show ?thesis by (intro exI [of _ 1] exI [of _ W'] exI [of _ "pkts s @ [?p]"]) (simp add: queued_def)
  next
    case True
    obtain st p1 W1 where e: "enqueue_write (s_fd s) ?p W = (st, p1, W1)" by (metis prod_cases3)
    from enqueue_write_spec [OF e wf] have es: "wrote_on (s_fd s) W W1"
      "written W1 (s_fd s) @ unsent p1 = written W (s_fd s) @ unsent ?p" "wf_pkt p1" "st = Drained \<longleftrightarrow> p_len p1 = 0"
      by auto
    note frame = wrote_on_simps [OF es(1)]
    have w1: "wired a W1" "sockets W1 a = Some s" using w s by (simp_all add: wired_def frame)
    show ?thesis
    proof (cases st)
      case Drained
      then have "unsent p1 = []" using es(4) by (simp add: unsent_def)
      moreover have "local_socket_enqueue a p W = Inr (0, W1)"
        using True s e Drained by (simp add: local_socket_enqueue_def Let_def)
      ultimately show ?thesis using es(2) new True s
        by (intro exI [of _ 0] exI [of _ W1] exI [of _ "[]"]) (simp add: queued_def frame fun_upd_idem)
    next
      case Blocked
      from queue_tail [OF w1(2,1), of p1] obtain W' f' where
        W': "rbind (updS a (\<lambda>s. s\<lparr>pkts := pkts s @ [p1]\<rparr>) W1) (\<lambda>W1.
           rbind (on_fds (fdevent_add a FDE_WRITE) W1) (\<lambda>W2. Inr (1 :: int, W2))) = Inr (1, W')"
          "sockets W' = (sockets W1)(a \<mapsto> s\<lparr>pkts := pkts s @ [p1]\<rparr>)" "written W' = written W1" "transports W' = transports W1"
          "fdes (fds W') a = Some f'" "has (fde_state f') FDE_WRITE" by blast
      then have "local_socket_enqueue a p W = Inr (1, W')"
        using True s e Blocked by (simp add: local_socket_enqueue_def Let_def del: updS_Some)
      with W' es(2) new True show ?thesis
        by (intro exI [of _ 1] exI [of _ W'] exI [of _ "pkts s @ [p1]"]) (simp add: queued_def frame)
    next
      case Broken
      with ok True e show ?thesis by simp
    qed
  qed
qed

lemma close_pair_effect:
  assumes "connected_pair a s b r t tr W" "pkts s = []"
  shows "\<exists>W' f. close_socket a W = Inr W' \<and> sockets W' = (sockets W)(a := None, b := None)
    \<and> local_socket_list W' = remove1 a (local_socket_list W) \<and> fdes (fds W) a = Some f
    \<and> closed_fds (fds W') = closed_fds (fds W) @ [nat (fde_fd f)] \<and> fd_inv (fds W') \<and> \<not> socket_list_lock W'
    \<and> transports W' = (transports W)(t \<mapsto> tr\<lparr>to_threads := to_threads tr @ [clse 0 (s_id r)],
        disconnects := remove1 (Remote_socket_disconnect b) (disconnects tr)\<rparr>) \<and> written W' = written W"
proof -
  from close_pair_locked(1) [OF assms(1)] assms(2) obtain F f where F: "fd_inv F" "fdes (fds W) a = Some f" "closed_fds F = closed_fds (fds W) @ [nat (fde_fd f)]"
    "local_socket_close_locked 7 a (W\<lparr>socket_list_lock := True\<rparr>) = Inr (freeS a (freeS b (W\<lparr>socket_list_lock := True,
       transports := (transports W)(t \<mapsto> tr\<lparr>to_threads := to_threads tr @ [clse 0 (s_id r)],
        disconnects := remove1 (Remote_socket_disconnect b) (disconnects tr)\<rparr>), fds := F,
       local_socket_list := remove1 a (local_socket_list W),
       local_socket_closing_list := remove1 a (local_socket_closing_list W)\<rparr>)))" by auto
  have "close_socket a W = rbind (local_socket_close_locked 7 a (W\<lparr>socket_list_lock := True\<rparr>))
      (\<lambda>W1. Inr (W1\<lparr>socket_list_lock := False\<rparr>))"
    using assms(1) by (simp add: connected_pair_def close_socket_def close_depth_def local_socket_close_def eval_nat_numeral
        del: local_socket_close_locked.simps)
  then show ?thesis using F assms(1) by (auto simp: freeS_def connected_pair_def)
qed

text \<open>Enqueueing on a connected local socket whose descriptor refuses: some of the payload may have gone out, the rest is
  dropped with the socket.\<close>

lemma local_enqueue_broken:
  assumes cp: "connected_pair a s b r t tr W" and p: "p_len p \<le> length (data p)" and e: "pkts s = []"
    and broken: "fst (enqueue_write (s_fd s) (p\<lparr>p_ptr := 0\<rparr>) W) = Broken"
  shows "\<exists>W' lost. local_socket_enqueue a p W = Inr (1, W') \<and> sockets W' = (sockets W)(a := None, b := None)
    \<and> lost \<noteq> [] \<and> written W' (s_fd s) @ lost = written W (s_fd s) @ take (p_len p) (data p)"
proof -
  let ?p = "p\<lparr>p_ptr := 0\<rparr>"
  obtain p1 W1 where w: "enqueue_write (s_fd s) ?p W = (Broken, p1, W1)" using broken by (metis prod_cases3 fst_conv)
  have "wf_pkt ?p" using p by (simp add: wf_pkt_def)
  from enqueue_write_spec [OF w this] have es: "wrote_on (s_fd s) W W1"
    "written W1 (s_fd s) @ unsent p1 = written W (s_fd s) @ unsent ?p" "wf_pkt p1" "p_len p1 \<noteq> 0" by auto
  note frame = wrote_on_simps [OF es(1)]
  have "connected_pair a s b r t tr W1" using cp by (simp add: connected_pair_def wired_def frame)
  from close_pair_effect [OF this e] obtain W' where
    "close_socket a W1 = Inr W'" "sockets W' = (sockets W)(a := None, b := None)" "written W' = written W1"
    by (auto simp: frame)
  moreover have "local_socket_enqueue a p W = rbind (close_socket a W1) (\<lambda>W2. Inr (1, W2))"
    using w e cp by (simp add: local_socket_enqueue_def connected_pair_def)
  moreover have "unsent p1 \<noteq> []" using es(3,4) by (auto simp: unsent_def wf_pkt_def)
  ultimately show ?thesis using es(2)
    by (intro exI [of _ W'] exI [of _ "unsent p1"]) (simp add: unsent_def)
qed

section \<open>Properties\<close>

text \<open>A server with one connected pair, to run the statements on: local socket 1 on descriptor 5, remote socket 3,
  transport 20. The descriptor takes two bytes and then blocks.\<close>

definition pair_local :: asocket where
  "pair_local = blank_socket\<lparr>s_id := 1, s_fd := 5, peer := Some 3\<rparr>"

definition pair_remote :: asocket where
  "pair_remote = blank_socket\<lparr>s_id := 77, enqueue := Remote_socket_enqueue, ready := Remote_socket_ready,
     close := Remote_socket_close, peer := Some 1, s_transport := Some 20\<rparr>"

definition pair_transport :: atransport where
  "pair_transport = (dev ''SER1'' KTransportUsb CS_DEVICE)\<lparr>disconnects := [Remote_socket_disconnect 3]\<rparr>"

definition pair_world :: world where
  "pair_world = world_init\<lparr>sockets := [1 \<mapsto> pair_local, 3 \<mapsto> pair_remote], local_socket_list := [1],
     local_socket_next_id := 2, transports := [20 \<mapsto> pair_transport], dev_nxt := [0 \<mapsto> 20, 20 \<mapsto> 0],
     dev_prv := [0 \<mapsto> 20, 20 \<mapsto> 0], transport_list := [20],
     fds := sample_fds, outgoing := (\<lambda>_. [WOk 2, WErr EAGAIN]), next_addr := 30\<rparr>"

lemmas pair_defs = pair_local_def pair_remote_def pair_transport_def pair_world_def

lemma pair_wired: "wired 1 pair_world"
proof -
  have "fdes (fds pair_world) 1 = Some \<lparr>fde_fd = 5, force_eof = False, fde_state = 0x0301, fde_events = 0x0001,
        fde_func = Local_socket_event_func, fde_arg = 1\<rparr>" by (simp add: pair_world_def sample_simps)
  moreover have "has 0x0301 FDE_ACTIVE" "\<not> has 0x0301 FDE_DONT_CLOSE" by (simp_all add: has_def fde_consts)
  moreover have "fd_inv (fds pair_world)" by (simp add: pair_world_def sample_fd_inv)
  ultimately show ?thesis by (auto simp: wired_def active_def)
qed

lemma pair_connected: "connected_pair 1 pair_local 3 pair_remote 20 pair_transport pair_world"
  using pair_wired
  by (simp add: connected_pair_def pair_defs blank_socket_def dev_def blank_transport_def world_init_def)

definition pair_busy :: world where
  "pair_busy = setS 1 (pair_local\<lparr>pkts := [get_apacket\<lparr>data := ''abc'', p_len := 3\<rparr>]\<rparr>) pair_world"

lemma pair_busy_connected:
  "connected_pair 1 (pair_local\<lparr>pkts := [get_apacket\<lparr>data := ''abc'', p_len := 3\<rparr>]\<rparr>) 3 pair_remote 20 pair_transport pair_busy"
  using pair_connected by (auto simp: connected_pair_def pair_busy_def setS_def wired_def)

text \<open>The same pair with a descriptor that takes two bytes and then fails.\<close>

definition pair_hung_up :: world where
  "pair_hung_up = pair_world\<lparr>outgoing := (\<lambda>_. [WOk 2, WErr EOTHER])\<rparr>"

lemma pair_hung_up_connected: "connected_pair 1 pair_local 3 pair_remote 20 pair_transport pair_hung_up"
  using pair_connected by (simp add: connected_pair_def pair_hung_up_def wired_def)

text \<open>C21: Closing a socket through its function pointer always comes to an end (a fault, such as a lock taken twice, is one): however sockets point at each other, the
  calls nest at most six deep, a larger bound changes nothing, and the bound of the model is never reached.\<close>

theorem close_depth_suffices:
  assumes "6 \<le> n"
  shows "sock_close n a W = close_socket a W \<and> close_socket a W \<noteq> Inl OutOfFuel"
proof -
  have "6 \<le> close_depth" by (simp add: close_depth_def)
  then show ?thesis
    using close_fuel [OF assms, of close_depth a W] in_depth_close [of close_depth a W]
    by (simp add: close_socket_def in_depth_def)
qed

theorem close_depth_suffices_witness:
  "sock_close 6 1 (setS 1 (blank_socket\<lparr>peer := Some 1\<rparr>) world_init) = close_socket 1 (setS 1 (blank_socket\<lparr>peer := Some 1\<rparr>) world_init)"
  using close_depth_suffices [of 6 1 "setS 1 (blank_socket\<lparr>peer := Some 1\<rparr>) world_init"] by simp

text \<open>C19: Closing the local socket of a connected pair that has nothing left to write frees both sockets, takes the local
  one off the socket list, closes the descriptor that its fdevent watches and no other, takes the remote one off the
  transport's disconnect list and tells the other side with exactly one CLSE packet for the remote id; the socket list
  lock is free again.\<close>

theorem close_connected_pair_destroys:
  assumes "connected_pair a s b r t tr W" "pkts s = []" "fdes (fds W) a = Some f"
  shows "\<exists>W'. close_socket a W = Inr W' \<and> sockets W' = (sockets W)(a := None, b := None)
    \<and> local_socket_list W' = remove1 a (local_socket_list W)
    \<and> closed_fds (fds W') = closed_fds (fds W) @ [nat (fde_fd f)] \<and> fd_inv (fds W') \<and> \<not> socket_list_lock W'
    \<and> transports W' = (transports W)(t \<mapsto> tr\<lparr>to_threads := to_threads tr @ [clse 0 (s_id r)],
        disconnects := remove1 (Remote_socket_disconnect b) (disconnects tr)\<rparr>)"
  using close_pair_effect [OF assms(1,2)] assms(3) by fastforce

theorem close_connected_pair_destroys_witness:
  "\<exists>W'. close_socket 1 pair_world = Inr W' \<and> sockets W' 1 = None \<and> sockets W' 3 = None \<and> local_socket_list W' = []
     \<and> closed_fds (fds W') = [5] \<and> (\<exists>tr. transports W' 20 = Some tr \<and> to_threads tr = [clse 0 77])"
proof -
  have "pkts pair_local = []" "fdes (fds pair_world) 1 = Some \<lparr>fde_fd = 5, force_eof = False, fde_state = 0x0301,
      fde_events = 0x0001, fde_func = Local_socket_event_func, fde_arg = 1\<rparr>" "closed_fds (fds pair_world) = []"
    by (simp_all add: pair_local_def blank_socket_def pair_world_def sample_simps sample_fds_def)
  from close_connected_pair_destroys [OF pair_connected this(1,2)] this(3) show ?thesis
    by (auto simp: pair_defs dev_def blank_transport_def)
qed

text \<open>C20: Closing the local socket of a connected pair that still has packets to write keeps the socket and its packets:
  it moves to the closing list without id and peer, its descriptor stays open, while the remote socket is freed and
  the other side gets its CLSE.\<close>

theorem close_keeps_unsent_packets:
  assumes "connected_pair a s b r t tr W" "pkts s \<noteq> []" "\<not> closing s" "a \<in> set (local_socket_list W)"
    "a \<notin> set (local_socket_closing_list W)"
  shows "\<exists>W'. close_socket a W = Inr W'
    \<and> sockets W' = (sockets W)(b := None, a \<mapsto> s\<lparr>peer := None, closing := True, s_id := 0\<rparr>)
    \<and> local_socket_list W' = remove1 a (local_socket_list W)
    \<and> local_socket_closing_list W' = local_socket_closing_list W @ [a]
    \<and> closed_fds (fds W') = closed_fds (fds W) \<and> fd_inv (fds W')
    \<and> transports W' = (transports W)(t \<mapsto> tr\<lparr>to_threads := to_threads tr @ [clse 0 (s_id r)],
        disconnects := remove1 (Remote_socket_disconnect b) (disconnects tr)\<rparr>)"
proof -
  from close_pair_locked(2) [OF assms(1,2,3,4)] obtain F where F: "fd_inv F" "closed_fds F = closed_fds (fds W)"
    "local_socket_close_locked 7 a (W\<lparr>socket_list_lock := True\<rparr>) =
        Inr (setS a (s\<lparr>peer := None, closing := True, s_id := 0\<rparr>) (freeS b (W\<lparr>socket_list_lock := True,
          transports := (transports W)(t \<mapsto> tr\<lparr>to_threads := to_threads tr @ [clse 0 (s_id r)],
        disconnects := remove1 (Remote_socket_disconnect b) (disconnects tr)\<rparr>), fds := F,
          local_socket_list := remove1 a (local_socket_list W),
          local_socket_closing_list := remove1 a (local_socket_closing_list W) @ [a]\<rparr>)))" by auto
  have "close_socket a W = rbind (local_socket_close_locked 7 a (W\<lparr>socket_list_lock := True\<rparr>))
      (\<lambda>W1. Inr (W1\<lparr>socket_list_lock := False\<rparr>))"
    using assms(1) by (simp add: connected_pair_def close_socket_def close_depth_def local_socket_close_def eval_nat_numeral
        del: local_socket_close_locked.simps)
  then show ?thesis using F assms(5) by (auto simp: freeS_def setS_def remove1_idem)
qed

theorem close_keeps_unsent_packets_witness:
  "\<exists>W' s'. close_socket 1 pair_busy = Inr W' \<and> sockets W' 1 = Some s' \<and> map data (pkts s') = [''abc'']
     \<and> local_socket_closing_list W' = [1] \<and> closed_fds (fds W') = []"
proof -
  let ?s = "pair_local\<lparr>pkts := [get_apacket\<lparr>data := ''abc'', p_len := 3\<rparr>]\<rparr>"
  have "pkts ?s \<noteq> []" "\<not> closing ?s" "1 \<in> set (local_socket_list pair_busy)"
    "1 \<notin> set (local_socket_closing_list pair_busy)"
    by (simp_all add: pair_busy_def setS_def pair_defs blank_socket_def world_init_def)
  from close_keeps_unsent_packets [OF pair_busy_connected this] show ?thesis
    by (auto simp: pair_busy_def setS_def pair_defs world_init_def sample_fds_def)
qed



end
