(* ===== verification/Host_Services.thy ===== *)
theory Host_Services
  imports Sockets
begin

text \<open>
  What the server does for its clients: the listeners and the host requests of adb.c and the host services of
  services.c. Replies are the bytes written to the client's descriptor.
\<close>

section \<open>Listeners\<close>

definition local_name_to_fd :: "net_env \<Rightarrow> string \<Rightarrow> int" where
  "local_name_to_fd E name =
     (if starts_with ''tcp:'' name then loopback_server E (atoi (drop 4 name))
      else if starts_with ''local:'' name then local_server E (drop 6 name) Ns_abstract
      else if starts_with ''localabstract:'' name then local_server E (drop 14 name) Ns_abstract
      else if starts_with ''localfilesystem:'' name then local_server E (drop 16 name) Ns_filesystem
      else -1)"

definition free_listener :: "addr \<Rightarrow> world \<Rightarrow> world res" where
  "free_listener a W =
     rbind (getL a W) (\<lambda>l.
     rbind (on_fds (fdevent_remove a) (W\<lparr>listener_list := remove1 a (listener_list W)\<rparr>)) (\<lambda>W1.
     rbind (case l_transport l of
              None \<Rightarrow> Inr W1
            | Some t \<Rightarrow> remove_transport_disconnect (Some t) (Listener_disconnect a) W1) (\<lambda>W2.
       Inr (W2\<lparr>listeners := (listeners W2)(a := None)\<rparr>))))"

definition listener_disconnect :: "addr \<Rightarrow> world \<Rightarrow> world res" where
  "listener_disconnect a W = free_listener a W"

fun find_listener :: "(alistener \<Rightarrow> bool) \<Rightarrow> addr list \<Rightarrow> world \<Rightarrow> addr option res" where
  "find_listener P [] W = Inr None"
| "find_listener P (a # as) W = rbind (getL a W) (\<lambda>l. if P l then Inr (Some a) else find_listener P as W)"

definition remove_listener :: "string \<Rightarrow> string \<Rightarrow> addr \<Rightarrow> world \<Rightarrow> (int \<times> world) res" where
  "remove_listener lname cto t W =
     rbind (find_listener (\<lambda>l. local_name l = lname \<and> connect_to l = cto \<and> l_transport l = Some t)
              (listener_list W) W) (\<lambda>r.
       case r of
         None \<Rightarrow> Inr (-1, W)
       | Some a \<Rightarrow> rbind (listener_disconnect a W) (\<lambda>W1. Inr (0, W1)))"

definition install_listener :: "net_env \<Rightarrow> string \<Rightarrow> string \<Rightarrow> addr option \<Rightarrow> world \<Rightarrow> (int \<times> world) res" where
  "install_listener E lname cto t W =
     rbind (find_listener (\<lambda>l. local_name l = lname) (listener_list W) W) (\<lambda>r.
       case r of
         Some a \<Rightarrow>
           rbind (getL a W) (\<lambda>l.
             if starts_with ''*'' (connect_to l) then Inr (-1, W)
             else
               let W1 = W\<lparr>listeners := (listeners W)(a \<mapsto> l\<lparr>connect_to := cto\<rparr>)\<rparr> in
               if l_transport l \<noteq> t then
                 rbind (remove_transport_disconnect (l_transport l) (Listener_disconnect a) W1) (\<lambda>W2.
                 rbind (add_transport_disconnect t (Listener_disconnect a)
                     (W2\<lparr>listeners := (listeners W2)(a \<mapsto> l\<lparr>connect_to := cto, l_transport := t\<rparr>)\<rparr>)) (\<lambda>W3.
                   Inr (0, W3)))
               else Inr (0, W1))
       | None \<Rightarrow>
           let a = next_addr W; fd = local_name_to_fd E lname in
           if fd < 0 then Inr (-2, W\<lparr>next_addr := a + 1\<rparr>)
           else
             let func = (if cto = ''*smartsocket*'' then Ss_listener_event_func else Listener_event_func) in
             rbind (on_fds (fdevent_install a fd func a) (W\<lparr>next_addr := a + 1\<rparr>)) (\<lambda>W1.
             rbind (on_fds (fdevent_set a FDE_READ) W1) (\<lambda>W2.
               let l = \<lparr>l_fd = fd, local_name = lname, connect_to = cto, l_transport = t\<rparr>;
                   W3 = W2\<lparr>listener_list := listener_list W2 @ [a], listeners := (listeners W2)(a \<mapsto> l)\<rparr> in
               case t of
                 None \<Rightarrow> Inr (0, W3)
               | Some _ \<Rightarrow> rbind (add_transport_disconnect t (Listener_disconnect a) W3) (\<lambda>W4. Inr (0, W4)))))"

section \<open>Connecting on request\<close>

text \<open>\<^verbatim>\<open>sscanf(s, "%d", &n)\<close>: end of input before a conversion, no number, or a number.\<close>

datatype scan_result = Scan_eof | Scan_none | Scan int

definition sscanf_d :: "string \<Rightarrow> scan_result" where
  "sscanf_d s =
     (let r = dropWhile is_space s;
          r1 = (if starts_with ''-'' r \<or> starts_with ''+'' r then tl r else r) in
      if r = [] then Scan_eof
      else if r1 \<noteq> [] \<and> isdigit (hd r1) then Scan (strtol 10 s)
      else Scan_none)"

text \<open>
  \<^verbatim>\<open>connect_device\<close>: the text for the client and the new state. \<^verbatim>\<open>strncpy\<close> leaves the 100-byte buffer without a
  terminator if the host is long, and a missing port number leaves \<^verbatim>\<open>port\<close> unset: reading them is a fault.
\<close>

definition connect_device :: "net_env \<Rightarrow> string \<Rightarrow> nat \<Rightarrow> world \<Rightarrow> (string \<times> world) res" where
  "connect_device E host buffer_size W =
     (let portstr = strchr host (CHR '':'') in
      rbind (case portstr of
               Some ps \<Rightarrow>
                 if 100 \<le> length (before host (CHR '':'')) then Inr (Inl (''bad host name '' @ host))
                 else (case sscanf_d (tl ps) of
                     Scan_none \<Rightarrow> Inr (Inl (''bad port number '' @ ps))
                   | Scan_eof \<Rightarrow> Inl UninitRead
                   | Scan port \<Rightarrow> Inr (Inr (before host (CHR '':''), port)))
             | None \<Rightarrow>
                 if 99 \<le> length host then Inl UninitRead
                 else Inr (Inr (host, DEFAULT_ADB_LOCAL_TRANSPORT_PORT))) (\<lambda>parsed.
        case parsed of
          Inl text \<Rightarrow> Inr (snprintf buffer_size text, W)
        | Inr (hostbuf, port) \<Rightarrow>
            let ser = snprintf 100 (hostbuf @ '':'' @ fmt_d port) in
            rbind (find_transport ser W) (\<lambda>found.
              if found \<noteq> None then Inr (snprintf buffer_size (''already connected to '' @ ser), W)
              else
                let fd = network_client E hostbuf port in
                if fd < 0 then Inr (snprintf buffer_size (''unable to connect to '' @ host @ '':'' @ fmt_d port), W)
                else rbind (register_socket_transport fd (Some ser) port False W) (\<lambda>W1.
                  Inr (snprintf buffer_size (''connected to '' @ ser), W1)))))"

definition connect_emulator :: "net_env \<Rightarrow> string \<Rightarrow> nat \<Rightarrow> world \<Rightarrow> (string \<times> world) res" where
  "connect_emulator E port_spec buffer_size W =
     (case strchr port_spec (CHR '','') of
        None \<Rightarrow>
          Inr (snprintf buffer_size
                 (''unable to parse '' @ [CHR 0x27] @ port_spec @ [CHR 0x27] @ '' as <console port>,<adb port>''), W)
      | Some sep \<Rightarrow>
          let console_port = strtol 0 (before port_spec (CHR '','')); port = strtol 0 (tl sep) in
          if \<not> (0 < console_port \<and> 0 < port) then
            Inr (snprintf buffer_size
                   (''Invalid port numbers: Expected positive numbers, got '' @ [CHR 0x27] @ port_spec @ [CHR 0x27]), W)
          else rbind (find_emulator_transport_by_adb_port port W) (\<lambda>known.
            if known \<noteq> None then
              Inr (snprintf buffer_size (''Emulator on port '' @ fmt_d port @ '' already registered.''), W)
            else if get_available_local_transport_index W < 0 then
              Inr (snprintf buffer_size ''Cannot accept more emulators.'', W)
            else rbind (local_connect_arbitrary_ports E console_port port W) (\<lambda>(r, W1).
              Inr (snprintf buffer_size
                     ((if r = 0 then ''Connected to emulator on ports '' else ''Could not connect to emulator on ports '')
                       @ fmt_d console_port @ '','' @ fmt_d port), W1))))"

section \<open>Host requests\<close>

definition ADB_SERVER_VERSION :: nat where "ADB_SERVER_VERSION = 29"

definition connection_state_name :: "atransport option \<Rightarrow> string" where
  "connection_state_name t =
     (case t of
        None \<Rightarrow> ''unknown''
      | Some t \<Rightarrow>
          (case connection_state t of
             CS_BOOTLOADER \<Rightarrow> ''bootloader''
           | CS_DEVICE \<Rightarrow> ''device''
           | CS_OFFLINE \<Rightarrow> ''offline''
           | _ \<Rightarrow> ''unknown''))"

text \<open>\<^verbatim>\<open>snprintf(buf, sizeof buf, "OKAY%04x%s", strlen(x), x); writex(reply_fd, buf, strlen(buf))\<close>.\<close>

definition okay_reply :: "string \<Rightarrow> string" where
  "okay_reply x = snprintf 4096 (''OKAY'' @ fmt_04x (length x) @ x)"

definition reply_okay :: "int \<Rightarrow> string \<Rightarrow> world \<Rightarrow> world" where
  "reply_okay fd x W = snd (w_writex fd (okay_reply x) W)"

definition request_transport :: "string \<Rightarrow> string option \<Rightarrow> int \<Rightarrow> addr \<Rightarrow> world \<Rightarrow> (int \<times> world) res" where
  "request_transport service ser reply_fd s W =
     (let (ty, ser') =
        (if starts_with ''transport-usb'' service then (KTransportUsb, ser)
         else if starts_with ''transport-local'' service then (KTransportLocal, ser)
         else if starts_with ''transport-any'' service then (KTransportAny, ser)
         else if starts_with ''transport:'' service then (KTransportAny, Some (drop 10 service))
         else (KTransportAny, ser)) in
      rbind (acquire_one_transport ty ser' W) (\<lambda>(r, err).
        case r of
          Some t \<Rightarrow>
            rbind (updS s (\<lambda>x. x\<lparr>s_transport := Some t\<rparr>) W) (\<lambda>W1. Inr (1, snd (w_write reply_fd ''OKAY'' W1)))
        | None \<Rightarrow> Inr (1, snd (sendfailmsg reply_fd err W))))"

definition request_disconnect :: "string \<Rightarrow> int \<Rightarrow> world \<Rightarrow> (int \<times> world) res" where
  "request_disconnect ser reply_fd W =
     (if ser = [] then rbind (unregister_all_tcp_transports W) (\<lambda>W1. Inr (0, reply_okay reply_fd [] W1))
      else
        let ser' = (if strchr ser (CHR '':'') = None then snprintf 99 (ser @ '':5555'') else ser) in
        rbind (find_transport ser' W) (\<lambda>r.
          case r of
            Some t \<Rightarrow> rbind (unregister_transport t W) (\<lambda>W1. Inr (0, reply_okay reply_fd [] W1))
          | None \<Rightarrow> Inr (0, reply_okay reply_fd (snprintf 4096 (''No such device '' @ ser')) W)))"

definition request_forward ::
    "net_env \<Rightarrow> bool \<Rightarrow> string \<Rightarrow> transport_type \<Rightarrow> string option \<Rightarrow> int \<Rightarrow> world \<Rightarrow> (int \<times> world) res" where
  "request_forward E create_forward spec ttype ser reply_fd W =
     (case strchr spec (CHR '';'') of
        None \<Rightarrow> Inr (0, snd (sendfailmsg reply_fd ''malformed forward spec'' W))
      | Some sep \<Rightarrow>
          let lname = before spec (CHR '';''); remote = tl sep in
          if lname = [] \<or> remote = [] \<or> starts_with ''*'' remote
          then Inr (0, snd (sendfailmsg reply_fd ''malformed forward spec'' W))
          else rbind (acquire_one_transport ttype ser W) (\<lambda>(r, err).
            case r of
              None \<Rightarrow> Inr (0, snd (sendfailmsg reply_fd err W))
            | Some t \<Rightarrow>
                rbind (if create_forward then install_listener E lname remote (Some t) W
                       else remove_listener lname remote t W) (\<lambda>(q, W1).
                  if q = 0 then Inr (0, snd (w_writex reply_fd ''OKAYOKAY'' W1))
                  else if create_forward then
                    Inr (0, snd (sendfailmsg reply_fd
                      (if q = -1 then ''cannot rebind smartsocket'' else ''cannot bind socket'') W1))
                  else Inr (0, snd (sendfailmsg reply_fd ''cannot remove listener'' W1)))))"

definition handle_host_request ::
    "net_env \<Rightarrow> string \<Rightarrow> transport_type \<Rightarrow> string option \<Rightarrow> int \<Rightarrow> addr \<Rightarrow> world \<Rightarrow> (int \<times> world) res" where
  "handle_host_request E service ttype ser reply_fd s W =
     (if service = ''kill'' then Inl (Exit 0)
      else if starts_with ''transport'' service then request_transport service ser reply_fd s W
      else if service = ''devices'' then
        rbind (list_transports 4096 W) (\<lambda>text. Inr (0, reply_okay reply_fd text W))
      else if starts_with ''connect:'' service then
        let host = drop 8 service in
        rbind (if starts_with ''emu:'' host then connect_emulator E (drop 4 host) 4096 W
               else connect_device E host 4096 W) (\<lambda>(text, W1). Inr (0, reply_okay reply_fd text W1))
      else if starts_with ''disconnect:'' service then request_disconnect (drop 11 service) reply_fd W
      else if service = ''version'' then Inr (0, reply_okay reply_fd (fmt_04x ADB_SERVER_VERSION) W)
      else if starts_with ''get-serialno'' service then
        rbind (acquire_one_transport ttype ser W) (\<lambda>(r, err).
          case r of
            None \<Rightarrow> Inr (0, reply_okay reply_fd ''unknown'' W)
          | Some t \<Rightarrow> rbind (getT t W) (\<lambda>tr.
              Inr (0, reply_okay reply_fd (case serial tr of None \<Rightarrow> ''unknown'' | Some x \<Rightarrow> x) W)))
      else if starts_with ''emulator:'' service then
        rbind (local_connect E (atoi (drop 9 service)) W) (\<lambda>(r, W1). Inr (0, W1))
      else if starts_with ''forward:'' service then
        request_forward E True (drop 8 service) ttype ser reply_fd W
      else if starts_with ''killforward:'' service then
        request_forward E False (drop 12 service) ttype ser reply_fd W
      else if starts_with ''get-state'' service then
        rbind (acquire_one_transport ttype ser W) (\<lambda>(r, err).
          rbind (case r of None \<Rightarrow> Inr None | Some t \<Rightarrow> rbind (getT t W) (\<lambda>tr. Inr (Some tr))) (\<lambda>tr.
            Inr (0, reply_okay reply_fd (connection_state_name tr) W)))
      else Inr (-1, W))"

section \<open>Service threads\<close>

definition create_service_thread :: "net_env \<Rightarrow> service \<Rightarrow> world \<Rightarrow> int \<times> world" where
  "create_service_thread E svc W =
     (case service_pair E of
        None \<Rightarrow> (-1, W)
      | Some (s0, s1) \<Rightarrow>
          if thread_ok E then (s0, W\<lparr>spawned := spawned W @ [(s1, svc)]\<rparr>)
          else (-1, W\<lparr>shut_fds := shut_fds W @ [s0, s1]\<rparr>))"

definition service_to_fd :: "net_env \<Rightarrow> string \<Rightarrow> world \<Rightarrow> int \<times> world" where
  "service_to_fd E name W =
     (if starts_with ''tcp:'' name then
        (case strchr (drop 4 name) (CHR '':'') of
           None \<Rightarrow> (loopback_client E (atoi (drop 4 name)), W)
         | Some r \<Rightarrow> (network_client E (tl r) (atoi (drop 4 name)), W))
      else if starts_with ''local:'' name then (local_client E (drop 6 name) Ns_reserved, W)
      else if starts_with ''localreserved:'' name then (local_client E (drop 14 name) Ns_reserved, W)
      else if starts_with ''localabstract:'' name then (local_client E (drop 14 name) Ns_abstract, W)
      else if starts_with ''localfilesystem:'' name then (local_client E (drop 16 name) Ns_filesystem, W)
      else if starts_with ''dns:'' name then create_service_thread E (Dns_service (drop 4 name)) W
      else (-1, W))"

definition create_local_service_socket :: "net_env \<Rightarrow> string \<Rightarrow> world \<Rightarrow> (addr option \<times> world) res" where
  "create_local_service_socket E name W =
     (case service_to_fd E name W of
        (fd, W1) \<Rightarrow>
          if fd < 0 then Inr (None, W1)
          else rbind (create_local_socket fd W1) (\<lambda>(a, W2). Inr (Some a, W2)))"

definition host_service_to_socket :: "net_env \<Rightarrow> string \<Rightarrow> string option \<Rightarrow> world \<Rightarrow> (addr option \<times> world) res" where
  "host_service_to_socket E name ser W =
     (if name = ''track-devices'' then (case create_device_tracker W of (a, W1) \<Rightarrow> Inr (Some a, W1))
      else if starts_with ''wait-for-'' name then
        let what = drop 9 name;
            ty = (if starts_with ''local'' what then Some KTransportLocal
                  else if starts_with ''usb'' what then Some KTransportUsb
                  else if starts_with ''any'' what then Some KTransportAny else None) in
        (case ty of
           None \<Rightarrow> Inr (None, W)
         | Some ty \<Rightarrow>
             (case create_service_thread E (Wait_for_state ty ser) W of
                (fd, W1) \<Rightarrow> rbind (create_local_socket fd W1) (\<lambda>(a, W2). Inr (Some a, W2))))
      else Inr (None, W))"

text \<open>The bodies of the threads. \<open>tss\<close> are the transport lists a waiting thread sees; \<open>None\<close> if it still waits.\<close>

definition wait_for_state ::
    "int \<Rightarrow> transport_type \<Rightarrow> string option \<Rightarrow> (addr \<times> atransport) list list \<Rightarrow> world \<Rightarrow> world option" where
  "wait_for_state fd ttype ser tss W =
     (case acquire_loop (Some CS_DEVICE) ttype ser tss of
        None \<Rightarrow> None
      | Some (r, err) \<Rightarrow>
          let W1 = (case r of
                Some t \<Rightarrow> snd (w_writex fd ''OKAY'' W)
              | None \<Rightarrow> snd (sendfailmsg fd (case err of None \<Rightarrow> ''unknown error'' | Some e \<Rightarrow> e) W))
          in Some (W1\<lparr>shut_fds := shut_fds W1 @ [fd]\<rparr>))"

definition dns_service :: "int \<Rightarrow> bytes option \<Rightarrow> world \<Rightarrow> world" where
  "dns_service fd addr4 W =
     (let W1 = snd (w_writex fd (case addr4 of None \<Rightarrow> [NUL, NUL, NUL, NUL] | Some a \<Rightarrow> take 4 a) W)
      in W1\<lparr>shut_fds := shut_fds W1 @ [fd]\<rparr>)"

end
