(* ===== verification/Smart_Socket.thy ===== *)
theory Smart_Socket
  imports Host_Services
begin

text \<open>
  The smart socket of sockets.c, which collects a client's request (four hex digits and a service name) and
  either has the server handle it, connects the client to a host service, or opens a stream to the device; the
  dispatch of \<^verbatim>\<open>enqueue\<close> and \<^verbatim>\<open>ready\<close> through their function pointers; and the event callback of local sockets,
  which moves bytes between descriptors and packets.
\<close>

section \<open>Request framing\<close>

definition hexval :: "char \<Rightarrow> u32 option" where
  "hexval c =
     (let n = of_char c :: nat in
      if 48 \<le> n \<and> n \<le> 57 then Some (of_nat (n - 48))
      else if 97 \<le> n \<and> n \<le> 102 then Some (of_nat (n - 97 + 10))
      else if 65 \<le> n \<and> n \<le> 70 then Some (of_nat (n - 65 + 10))
      else None)"

fun unhex_loop :: "u32 \<Rightarrow> bytes \<Rightarrow> u32" where
  "unhex_loop n [] = n"
| "unhex_loop n (c # cs) =
     (case hexval c of None \<Rightarrow> 0xffffffff | Some d \<Rightarrow> unhex_loop (push_bit 4 n OR d) cs)"

definition unhex :: "bytes \<Rightarrow> nat \<Rightarrow> u32" where
  "unhex s len = unhex_loop 0 (take len s)"

text \<open>\<^verbatim>\<open>skip_host_serial\<close>: the serial number and what follows the colon that ends it.\<close>

definition skip_host_serial :: "string \<Rightarrow> (string \<times> string) option" where
  "skip_host_serial service =
     (case strchr service (CHR '':'') of
        None \<Rightarrow> None
      | Some rest \<Rightarrow>
          let host = before service (CHR '':''); after = tl rest in
          if after \<noteq> [] \<and> isdigit (hd after) then
            let port = takeWhile isdigit after; tail = dropWhile isdigit after in
            if tail \<noteq> [] \<and> hd tail = CHR '':'' then Some (host @ '':'' @ port, tl tail)
            else Some (host, after)
          else Some (host, after))"

text \<open>Which transport a request is for, and the service it names; \<open>None\<close> if it is meant for the device.\<close>

definition parse_host_prefix :: "string \<Rightarrow> (string \<times> transport_type \<times> string option) option" where
  "parse_host_prefix service =
     (if starts_with ''host-serial:'' service then
        (case skip_host_serial (drop 12 service) of
           Some (ser, rest) \<Rightarrow> Some (rest, KTransportAny, Some ser)
         | None \<Rightarrow> Some (drop 12 service, KTransportAny, None))
      else if starts_with ''host-usb:'' service then Some (drop 9 service, KTransportUsb, None)
      else if starts_with ''host-local:'' service then Some (drop 11 service, KTransportLocal, None)
      else if starts_with ''host:'' service then Some (drop 5 service, KTransportAny, None)
      else None)"

section \<open>Ready\<close>

type_synonym enqueue_call = "addr \<Rightarrow> apacket \<Rightarrow> world \<Rightarrow> (int \<times> world) res"

definition sock_ready :: "enqueue_call \<Rightarrow> addr \<Rightarrow> world \<Rightarrow> world res" where
  "sock_ready enq a W =
     rbind (getS a W) (\<lambda>s.
       case ready s of
         Local_socket_ready \<Rightarrow> local_socket_ready a W
       | Local_socket_ready_notify \<Rightarrow> local_socket_ready_notify a W
       | Remote_socket_ready \<Rightarrow> remote_socket_ready a W
       | Smart_socket_ready \<Rightarrow> Inr W
       | Device_tracker_ready \<Rightarrow> device_tracker_ready enq a W)"

section \<open>The smart socket\<close>

text \<open>The collected request: the packet held by the socket with the new data appended, or \<open>None\<close> on overflow.\<close>

definition collect :: "apacket list \<Rightarrow> apacket \<Rightarrow> apacket option" where
  "collect ps p =
     (case ps of
        [] \<Rightarrow> Some p
      | q # _ \<Rightarrow>
          if MAX_PAYLOAD < p_len q + p_len p then None
          else Some (q\<lparr>data := take (p_len q) (data q) @ take (p_len p) (data p), p_len := p_len q + p_len p\<rparr>))"

text \<open>The end of \<^verbatim>\<open>smart_socket_enqueue\<close>: the request is for the device.\<close>

definition smart_socket_connect :: "addr \<Rightarrow> string \<Rightarrow> world \<Rightarrow> (int \<times> world) res" where
  "smart_socket_connect a service W =
     rbind (getS a W) (\<lambda>s.
     rbind (deref (peer s)) (\<lambda>b.
     rbind (getS b W) (\<lambda>c.
     rbind (case s_transport s of
              None \<Rightarrow> Inr True
            | Some t \<Rightarrow> rbind (getT t W) (\<lambda>tr. Inr (connection_state tr = CS_OFFLINE))) (\<lambda>offline.
       if offline then
         rbind (close_socket a (snd (sendfailmsg (s_fd c) ''device offline (x)'' W))) (\<lambda>W1. Inr (-1, W1))
       else
         rbind (updS b (\<lambda>c. c\<lparr>ready := Local_socket_ready_notify, close := Local_socket_close_notify,
                              peer := None, s_transport := s_transport s\<rparr>) W) (\<lambda>W1.
         rbind (connect_to_remote b service W1) (\<lambda>W2.
         rbind (updS a (\<lambda>s. s\<lparr>peer := None\<rparr>) W2) (\<lambda>W3.
         rbind (close_socket a W3) (\<lambda>W4. Inr (1, W4)))))))))"

text \<open>The middle part: the request is for the server.\<close>

definition smart_socket_host ::
    "net_env \<Rightarrow> (addr \<Rightarrow> world \<Rightarrow> world res) \<Rightarrow> addr \<Rightarrow> string \<Rightarrow> transport_type \<Rightarrow> string option \<Rightarrow> world
       \<Rightarrow> (int \<times> world) res" where
  "smart_socket_host E rdy a service ttype ser W =
     rbind (getS a W) (\<lambda>s.
     rbind (deref (peer s)) (\<lambda>b.
     rbind (getS b W) (\<lambda>c.
     rbind (handle_host_request E service ttype ser (s_fd c) a W) (\<lambda>(h, W1).
       if h = 0 then rbind (close_socket a W1) (\<lambda>W2. Inr (-1, W2))
       else if starts_with ''transport'' service then
         rbind (updS a (\<lambda>s. s\<lparr>pkts := map (\<lambda>p. p\<lparr>p_len := 0\<rparr>) (pkts s)\<rparr>) W1) (\<lambda>W2. Inr (0, W2))
       else
         rbind (host_service_to_socket E service ser W1) (\<lambda>(r, W2).
           case r of
             None \<Rightarrow>
               rbind (close_socket a (snd (sendfailmsg (s_fd c) ''unknown host service'' W2))) (\<lambda>W3. Inr (-1, W3))
           | Some s2 \<Rightarrow>
               rbind (updS b (\<lambda>c. c\<lparr>ready := Local_socket_ready, close := Local_socket_close, peer := Some s2\<rparr>)
                        (snd (w_write (s_fd c) ''OKAY'' W2))) (\<lambda>W3.
               rbind (updS s2 (\<lambda>x. x\<lparr>peer := Some b\<rparr>) W3) (\<lambda>W4.
               rbind (updS a (\<lambda>s. s\<lparr>peer := None\<rparr>) W4) (\<lambda>W5.
               rbind (close_socket a W5) (\<lambda>W6.
               rbind (rdy s2 W6) (\<lambda>W7. Inr (0, W7)))))))))))"

definition smart_socket_enqueue ::
    "net_env \<Rightarrow> (addr \<Rightarrow> world \<Rightarrow> world res) \<Rightarrow> addr \<Rightarrow> apacket \<Rightarrow> world \<Rightarrow> (int \<times> world) res" where
  "smart_socket_enqueue E rdy a p W =
     rbind (getS a W) (\<lambda>s.
       case collect (pkts s) p of
         None \<Rightarrow> rbind (close_socket a W) (\<lambda>W1. Inr (-1, W1))
       | Some q \<Rightarrow>
           rbind (updS a (\<lambda>s. s\<lparr>pkts := [q]\<rparr>) W) (\<lambda>W1.
             if p_len q < 4 then Inr (0, W1)
             else
               let len = unhex (data q) 4 in
               if len < 1 \<or> 1024 < len then rbind (close_socket a W1) (\<lambda>W2. Inr (-1, W2))
               else if p_len q < unat len + 4 then Inr (0, W1)
               else
                 let request = c_str (take (unat len) (drop 4 (data q))) in
                 (case parse_host_prefix request of
                    Some (service, ttype, ser) \<Rightarrow> smart_socket_host E rdy a service ttype ser W1
                  | None \<Rightarrow> smart_socket_connect a request W1)))"

section \<open>Enqueue\<close>

text \<open>A smart socket may call the ready function of a new tracker, which enqueues on the client's local socket:
  two levels.\<close>

fun sock_enqueue :: "nat \<Rightarrow> net_env \<Rightarrow> addr \<Rightarrow> apacket \<Rightarrow> world \<Rightarrow> (int \<times> world) res" where
  "sock_enqueue 0 E a p W = Inl OutOfFuel"
| "sock_enqueue (Suc n) E a p W =
     rbind (getS a W) (\<lambda>s.
       case enqueue s of
         Local_socket_enqueue \<Rightarrow> local_socket_enqueue a p W
       | Remote_socket_enqueue \<Rightarrow> remote_socket_enqueue a p W
       | Smart_socket_enqueue \<Rightarrow> smart_socket_enqueue E (sock_ready (sock_enqueue n E)) a p W
       | Device_tracker_enqueue \<Rightarrow> device_tracker_enqueue a p W)"

definition enqueue_depth :: nat where "enqueue_depth = 4"

definition enqueue_socket :: "net_env \<Rightarrow> enqueue_call" where
  "enqueue_socket E a p W = sock_enqueue enqueue_depth E a p W"

definition ready_socket :: "net_env \<Rightarrow> addr \<Rightarrow> world \<Rightarrow> world res" where
  "ready_socket E a W = sock_ready (enqueue_socket E) a W"

definition create_smart_socket :: "world \<Rightarrow> addr \<times> world" where
  "create_smart_socket W =
     (let a = next_addr W;
          s = blank_socket\<lparr>enqueue := Smart_socket_enqueue, ready := Smart_socket_ready, close := Smart_socket_close\<rparr>
      in (a, setS a s (W\<lparr>next_addr := a + 1\<rparr>)))"

definition connect_to_smartsocket :: "net_env \<Rightarrow> addr \<Rightarrow> world \<Rightarrow> world res" where
  "connect_to_smartsocket E a W =
     (case create_smart_socket W of
        (ss, W1) \<Rightarrow>
          rbind (updS a (\<lambda>s. s\<lparr>peer := Some ss\<rparr>) W1) (\<lambda>W2.
          rbind (updS ss (\<lambda>s. s\<lparr>peer := Some a\<rparr>) W2) (\<lambda>W3.
            ready_socket E a W3)))"

section \<open>Events on a local socket\<close>

text \<open>Writing out one queued packet: retry on EINTR, stop on EAGAIN.\<close>

function event_write :: "int \<Rightarrow> apacket \<Rightarrow> world \<Rightarrow> wstat \<times> apacket \<times> world" where
  "event_write fd p W =
     (if p_len p = 0 then (Drained, p, W)
      else case w_write fd (unsent p) W of
          (Inr r, W1) \<Rightarrow>
            if r = 0 then (Broken, p, W1)
            else event_write fd (p\<lparr>p_ptr := p_ptr p + r, p_len := p_len p - r\<rparr>) W1
        | (Inl e, W1) \<Rightarrow>
            if e = EAGAIN then (Blocked, p, W1)
            else if e = EINTR then event_write fd p W1
            else (Broken, p, W1))"
  by pat_completeness auto
termination
proof (relation "measure (\<lambda>(fd, p, W). p_len p + length (outgoing W fd))"; clarsimp)
  fix fd p W r W1
  assume "0 < p_len p" "(Inr r, W1) = w_write fd (unsent p) W" "0 < r"
  then show "p_len p - r + length (outgoing W1 fd) < p_len p + length (outgoing W fd)"
    by (cases "(length (unsent p), outgoing W fd)" rule: adb_write.cases) (auto simp: w_write_def)
next
  fix fd p W W1
  assume "(Inl EINTR, W1) = w_write fd (unsent p) W"
  then show "length (outgoing W1 fd) < length (outgoing W fd)"
    by (cases "(length (unsent p), outgoing W fd)" rule: adb_write.cases) (auto simp: w_write_def)
qed

declare event_write.simps [simp del]

fun event_write_queue :: "int \<Rightarrow> apacket list \<Rightarrow> world \<Rightarrow> wstat \<times> apacket list \<times> world" where
  "event_write_queue fd [] W = (Drained, [], W)"
| "event_write_queue fd (p # ps) W =
     (case event_write fd p W of
        (Drained, p1, W1) \<Rightarrow> event_write_queue fd ps W1
      | (st, p1, W1) \<Rightarrow> (st, p1 # ps, W1))"

text \<open>Reading up to \<open>avail\<close> bytes: what was read, whether the end was reached, and the last value of \<^verbatim>\<open>r\<close>.\<close>

function event_read :: "int \<Rightarrow> nat \<Rightarrow> bytes \<Rightarrow> int \<Rightarrow> world \<Rightarrow> bytes \<times> bool \<times> int \<times> world" where
  "event_read fd avail got r W =
     (if avail = 0 then (got, False, r, W)
      else case w_read fd avail W of
          (Inr bs, W1) \<Rightarrow>
            if bs = [] then (got, True, 0, W1)
            else event_read fd (avail - length bs) (got @ bs) (int (length bs)) W1
        | (Inl e, W1) \<Rightarrow>
            if e = EAGAIN then (got, False, -1, W1)
            else if e = EINTR then event_read fd avail got (-1) W1
            else (got, True, -1, W1))"
  by pat_completeness auto
termination
proof (relation "measure (\<lambda>(fd, avail, got, r, W). avail + length (incoming W fd))"; clarsimp)
  fix fd and avail :: nat and W bs W1
  assume "0 < avail" "(Inr bs, W1) = w_read fd avail W" "bs \<noteq> []"
  then show "avail - length bs + length (incoming W1 fd) < avail + length (incoming W fd)"
    by (cases "(avail, incoming W fd)" rule: adb_read.cases) (auto simp: w_read_def split: if_splits)
next
  fix fd and avail :: nat and W W1
  assume "0 < avail" "(Inl EINTR, W1) = w_read fd avail W"
  then show "length (incoming W1 fd) < length (incoming W fd)"
    by (cases "(avail, incoming W fd)" rule: adb_read.cases) (auto simp: w_read_def split: if_splits)
qed

declare event_read.simps [simp del]

text \<open>The part for FDE_WRITE; \<open>True\<close> in the result says that the function goes on.\<close>

definition event_func_write :: "net_env \<Rightarrow> int \<Rightarrow> addr \<Rightarrow> world \<Rightarrow> (bool \<times> world) res" where
  "event_func_write E fd a W =
     rbind (getS a W) (\<lambda>s.
       case event_write_queue fd (pkts s) W of
         (st, ps, W1) \<Rightarrow>
           rbind (updS a (\<lambda>s. s\<lparr>pkts := ps\<rparr>) W1) (\<lambda>W2.
             case st of
               Blocked \<Rightarrow> Inr (False, W2)
             | Broken \<Rightarrow> rbind (close_socket a W2) (\<lambda>W3. Inr (False, W3))
             | Drained \<Rightarrow>
                 rbind (getS a W2) (\<lambda>s2.
                   if closing s2 then rbind (close_socket a W2) (\<lambda>W3. Inr (False, W3))
                   else
                     rbind (on_fds (fdevent_del a FDE_WRITE) W2) (\<lambda>W3.
                     rbind (deref (peer s2)) (\<lambda>b.
                     rbind (ready_socket E b W3) (\<lambda>W4. Inr (True, W4)))))))"

text \<open>Handing what was read to the peer: whether the function goes on, and the new value of \<^verbatim>\<open>r\<close>.\<close>

definition event_pass_on :: "net_env \<Rightarrow> addr \<Rightarrow> bytes \<Rightarrow> int \<Rightarrow> world \<Rightarrow> (bool \<times> int \<times> world) res" where
  "event_pass_on E a got r W =
     rbind (getS a W) (\<lambda>s.
       case peer s of
         None \<Rightarrow> Inr (True, r, W)
       | Some b \<Rightarrow>
           if got = [] then Inr (True, r, W)
           else
             rbind (enqueue_socket E b (get_apacket\<lparr>data := got, p_len := length got\<rparr>) W) (\<lambda>(q, W1).
               if q < 0 then Inr (False, q, W1)
               else if 0 < q then
                 rbind (getS a W1) (\<lambda>_. rbind (on_fds (fdevent_del a FDE_READ) W1) (\<lambda>W2. Inr (True, q, W2)))
               else Inr (True, q, W1)))"

definition event_func_read :: "net_env \<Rightarrow> int \<Rightarrow> addr \<Rightarrow> world \<Rightarrow> world res" where
  "event_func_read E fd a W =
     (case event_read fd MAX_PAYLOAD [] 0 W of
        (got, is_eof, r0, W1) \<Rightarrow>
          rbind (event_pass_on E a got r0 W1) (\<lambda>(go, r, W2).
            if \<not> go then Inr W2
            else
              rbind (getS a W2) (\<lambda>_.
              rbind (fetch a (fds W2)) (\<lambda>f.
                if (force_eof f \<and> r = 0) \<or> is_eof then close_socket a W2 else Inr W2))))"

definition local_socket_event_func :: "net_env \<Rightarrow> int \<Rightarrow> u16 \<Rightarrow> addr \<Rightarrow> world \<Rightarrow> world res" where
  "local_socket_event_func E fd ev a W =
     rbind (getS a W) (\<lambda>_.
     rbind (if has ev FDE_WRITE then event_func_write E fd a W else Inr (True, W)) (\<lambda>(go, W1).
       if go \<and> has ev FDE_READ then event_func_read E fd a W1 else Inr W1))"

section \<open>Framing: what requests are recognised\<close>

lemma hexval_digit: "digit_val c = Some d \<Longrightarrow> d < 16 \<Longrightarrow> hexval c = Some (of_nat d)"
  by (auto simp: digit_val_def hexval_def Let_def split: if_splits)

lemma or_shift_add:
  assumes "d < 16"
  shows "push_bit 4 n OR of_nat d = 16 * n + (of_nat d :: u32)"
proof -
  have "take_bit 4 d = d" using assms by (simp add: take_bit_eq_mod)
  then have "take_bit 4 (of_nat d :: u32) = of_nat d" by (metis of_nat_take_bit)
  then have "push_bit 4 n AND (of_nat d :: u32) = push_bit 4 n AND take_bit 4 (of_nat d)" by simp
  also have "\<dots> = 0" by (rule bit_eqI) (simp add: bit_simps)
  finally show ?thesis by (simp add: disjunctive_add_eq_or [symmetric] push_bit_eq_mult mult.commute)
qed

lemma unhex_loop_read:
  assumes "\<And>c. c \<in> set cs \<Longrightarrow> \<exists>d. digit_val c = Some d \<and> d < 16"
  shows "unhex_loop (of_nat acc) cs = of_nat (read_digits 16 acc cs)"
  using assms
proof (induction cs arbitrary: acc)
  case (Cons c cs)
  then obtain d where d: "digit_val c = Some d" "d < 16" by auto
  have "unhex_loop (of_nat (acc * 16 + d)) cs = of_nat (read_digits 16 (acc * 16 + d) cs)"
    by (rule Cons.IH) (use Cons.prems in simp)
  with d show ?case by (simp add: hexval_digit or_shift_add mult.commute)
qed simp

lemma unhex_fmt_04x:
  assumes "n < 65536"
  shows "unhex (fmt_04x n @ rest) 4 = of_nat n"
proof -
  have "take 4 (fmt_04x n @ rest) = fmt_04x n" using length_fmt_04x [OF assms] by simp
  then show ?thesis
    using unhex_loop_read [of "fmt_04x n" 0] fmt_04x_are_digits by (simp add: unhex_def read_digits_fmt_04x)
qed

text \<open>The bytes a smart socket holds, and the bytes of a request.\<close>

definition collected :: "asocket \<Rightarrow> bytes" where
  "collected s = (case pkts s of [] \<Rightarrow> [] | q # _ \<Rightarrow> take (p_len q) (data q))"

definition request_bytes :: "string \<Rightarrow> bytes" where
  "request_bytes name = fmt_04x (length name) @ name"

definition wf_collect :: "asocket \<Rightarrow> bool" where
  "wf_collect s \<longleftrightarrow> (\<forall>q \<in> set (pkts s). p_len q \<le> length (data q))"

lemma collect_bytes:
  assumes "wf_collect s" "length (collected s) + length c \<le> MAX_PAYLOAD"
  shows "\<exists>q. collect (pkts s) (get_apacket\<lparr>data := c, p_len := length c\<rparr>) = Some q
    \<and> p_len q = length (collected s @ c) \<and> take (p_len q) (data q) = collected s @ c \<and> p_len q \<le> length (data q)"
  using assms by (cases "pkts s") (auto simp: collect_def collected_def wf_collect_def)

lemma split_head:
  assumes "b @ rest = h @ n" "length h \<le> length b"
  shows "\<exists>t. b = h @ t \<and> t @ rest = n"
  using assms by (auto simp: append_eq_append_conv2)

lemma smart_socket_enqueue_eq:
  assumes s: "sockets W a = Some s" "wf_collect s" and fit: "length (collected s @ c) \<le> MAX_PAYLOAD"
    and pre: "collected s @ c @ rest = request_bytes name" and name: "1 \<le> length name" "length name \<le> 1024" "NUL \<notin> set name"
  shows "\<exists>q. wf_collect (s\<lparr>pkts := [q]\<rparr>) \<and> collected (s\<lparr>pkts := [q]\<rparr>) = collected s @ c
    \<and> smart_socket_enqueue E rdy a (get_apacket\<lparr>data := c, p_len := length c\<rparr>) W =
       (if rest = [] then
          (case parse_host_prefix name of
             Some (service, ttype, ser) \<Rightarrow> smart_socket_host E rdy a service ttype ser (setS a (s\<lparr>pkts := [q]\<rparr>) W)
           | None \<Rightarrow> smart_socket_connect a name (setS a (s\<lparr>pkts := [q]\<rparr>) W))
        else Inr (0, setS a (s\<lparr>pkts := [q]\<rparr>) W))"
proof -
  let ?b = "collected s @ c"
  from collect_bytes [OF s(2), of c] fit obtain q where
    q: "collect (pkts s) (get_apacket\<lparr>data := c, p_len := length c\<rparr>) = Some q" "p_len q = length ?b"
      "take (p_len q) (data q) = ?b" "p_len q \<le> length (data q)" by auto
  have wf: "wf_collect (s\<lparr>pkts := [q]\<rparr>)" "collected (s\<lparr>pkts := [q]\<rparr>) = ?b"
    using q by (simp_all add: wf_collect_def collected_def)
  obtain junk where data: "data q = ?b @ junk" using q(3) by (metis append_take_drop_id)
  have small: "length name < 65536" using name(2) by simp
  have len4: "length (fmt_04x (length name)) = 4" using small by simp
  have whole: "?b @ rest = fmt_04x (length name) @ name" using pre by (simp add: request_bytes_def)
  have lens: "length ?b + length rest = length name + 4" using arg_cong [OF whole, of length] len4 by simp
  show ?thesis
  proof (cases "length ?b < 4")
    case True
    then have "rest \<noteq> []" using lens by auto
    then show ?thesis using s q wf True by (intro exI [of _ q]) (simp add: smart_socket_enqueue_def)
  next
    case False
    then have "length (fmt_04x (length name)) \<le> length ?b" using len4 by simp
    from split_head [OF whole this] obtain tail where b: "?b = fmt_04x (length name) @ tail" "tail @ rest = name" by blast
    have hex: "unhex (data q) 4 = of_nat (length name)" using unhex_fmt_04x [OF small] by (simp add: data b)
    have un: "unat (of_nat (length name) :: u32) = length name" using small by (simp add: unat_of_nat)
    have range: "\<not> (of_nat (length name) < (1 :: u32) \<or> (1024 :: u32) < of_nat (length name))"
      using name un by (auto simp: word_less_nat_alt)
    have whole_name: "rest = [] \<Longrightarrow> c_str (take (length name) (drop 4 (data q))) = name"
      using b len4 name(3) by (simp add: data c_str_id)
    have inc: "p_len q < length name + 4 \<longleftrightarrow> rest \<noteq> []" using lens q(2) by (cases rest) auto
    have big: "\<not> p_len q < 4" using False q(2) by simp
    have eq: "smart_socket_enqueue E rdy a (get_apacket\<lparr>data := c, p_len := length c\<rparr>) W =
        (if rest \<noteq> [] then Inr (0, setS a (s\<lparr>pkts := [q]\<rparr>) W)
         else case parse_host_prefix (c_str (take (length name) (drop 4 (data q)))) of
             Some (service, ttype, ser) \<Rightarrow> smart_socket_host E rdy a service ttype ser (setS a (s\<lparr>pkts := [q]\<rparr>) W)
           | None \<Rightarrow> smart_socket_connect a (c_str (take (length name) (drop 4 (data q)))) (setS a (s\<lparr>pkts := [q]\<rparr>) W))"
      using s(1) q(1) big range inc by (simp add: smart_socket_enqueue_def hex un Let_def)
    show ?thesis
    proof (cases "rest = []")
      case True
      then show ?thesis
        using wf eq [unfolded whole_name [OF True]] by (intro exI [of _ q]) simp
    next
      case False
      then show ?thesis using wf eq by (intro exI [of _ q]) simp
    qed
  qed
qed

section \<open>Events: what they move\<close>

lemma event_write_spec:
  assumes "event_write fd p W = (st, p', W')" "wf_pkt p"
  shows "wrote_on fd W W' \<and> written W' fd @ unsent p' = written W fd @ unsent p \<and> wf_pkt p'
    \<and> (st = Drained \<longleftrightarrow> p_len p' = 0)"
  using assms
proof (induction fd p W rule: event_write.induct)
  case (1 fd p W)
  show ?case
  proof (cases "p_len p = 0")
    case True
    then show ?thesis using "1.prems" by (auto simp: event_write.simps [of fd p W] wrote_on_refl)
  next
    case False
    obtain r W1 where w: "w_write fd (unsent p) W = (r, W1)" by fastforce
    note ws = w_write_spec [OF w]
    show ?thesis
    proof (cases r)
      case (Inl e)
      show ?thesis
      proof (cases "e = EINTR")
        case True
        then have run: "event_write fd p W1 = (st, p', W')"
          using "1.prems"(1) False w Inl by (simp add: event_write.simps [of fd p W])
        have "wrote_on fd W1 W' \<and> written W' fd @ unsent p' = written W1 fd @ unsent p \<and> wf_pkt p'
            \<and> (st = Drained \<longleftrightarrow> p_len p' = 0)"
          using "1.IH"(1) [OF False w [symmetric] Inl _ True run "1.prems"(2)] True by simp
        then show ?thesis using ws(1,2) Inl wrote_on_trans by auto
      next
        case ne: False
        then show ?thesis using "1.prems" False w ws Inl by (auto simp: event_write.simps [of fd p W] split: if_splits)
      qed
    next
      case (Inr n)
      show ?thesis
      proof (cases "n = 0")
        case True
        then show ?thesis using "1.prems" False w ws Inr by (auto simp: event_write.simps [of fd p W])
      next
        case n: False
        have le: "n \<le> length (unsent p)" using ws(3) Inr by blast
        let ?p = "p\<lparr>p_ptr := p_ptr p + n, p_len := p_len p - n\<rparr>"
        have same: "?p = p\<lparr>p_len := p_len p - n, p_ptr := p_ptr p + n\<rparr>" by simp
        have run: "event_write fd ?p W1 = (st, p', W')"
          using "1.prems"(1) False w Inr n by (simp add: event_write.simps [of fd p W])
        have ih: "wrote_on fd W1 W' \<and> written W' fd @ unsent p' = written W1 fd @ unsent ?p \<and> wf_pkt p'
            \<and> (st = Drained \<longleftrightarrow> p_len p' = 0)"
          by (rule "1.IH"(2) [OF False w [symmetric] Inr n run]) (use wf_advance "1.prems"(2) le same in metis)
        then show ?thesis
          using ws(1,2) Inr unsent_advance [OF le] wrote_on_trans unfolding same by auto
      qed
    qed
  qed
qed

lemma event_write_queue_spec:
  assumes "event_write_queue fd ps W = (st, ps', W')" "\<And>p. p \<in> set ps \<Longrightarrow> wf_pkt p"
  shows "wrote_on fd W W' \<and> written W' fd @ concat (map unsent ps') = written W fd @ concat (map unsent ps)
    \<and> (\<forall>p \<in> set ps'. wf_pkt p) \<and> (st = Drained \<longleftrightarrow> ps' = [])"
  using assms
proof (induction ps arbitrary: W)
  case Nil
  then show ?case by (auto simp: wrote_on_refl)
next
  case (Cons p ps)
  obtain s1 p1 W1 where e: "event_write fd p W = (s1, p1, W1)" by (metis prod_cases3)
  from event_write_spec [OF e] Cons.prems(2) have es: "wrote_on fd W W1"
    "written W1 fd @ unsent p1 = written W fd @ unsent p" "wf_pkt p1" "s1 = Drained \<longleftrightarrow> p_len p1 = 0" by auto
  show ?case
  proof (cases "s1 = Drained")
    case True
    then have "event_write_queue fd ps W1 = (st, ps', W')" using Cons.prems(1) e by simp
    from Cons.IH [OF this] Cons.prems(2) es True show ?thesis
      using wrote_on_trans by (auto simp: unsent_def)
  next
    case False
    then have "st = s1" "ps' = p1 # ps" "W' = W1" using Cons.prems(1) e by (cases s1; simp)+
    then show ?thesis using es Cons.prems(2) False by auto
  qed
qed

text \<open>All bytes a script will ever deliver.\<close>

fun all_data :: "rscript \<Rightarrow> bytes" where
  "all_data [] = []"
| "all_data (RData bs # q) = bs @ all_data q"
| "all_data (RErr e # q) = all_data q"

lemma w_read_spec:
  assumes "w_read fd n W = (r, W')" "0 < n"
  shows "W' = W\<lparr>incoming := (incoming W)(fd := incoming W' fd)\<rparr>"
    "all_data (incoming W fd) = (case r of Inr bs \<Rightarrow> bs | Inl _ \<Rightarrow> []) @ all_data (incoming W' fd)"
    "r = Inr bs \<Longrightarrow> length bs \<le> n"
  using assms by (cases "(n, incoming W fd)" rule: adb_read.cases; auto simp: w_read_def split: if_splits)+

lemma incoming_trans:
  "W1 = W\<lparr>incoming := (incoming W)(fd := x)\<rparr> \<Longrightarrow> W2 = W1\<lparr>incoming := (incoming W1)(fd := y)\<rparr>
     \<Longrightarrow> W2 = W\<lparr>incoming := (incoming W)(fd := y)\<rparr>"
  by simp

lemma event_read_spec:
  assumes "event_read fd avail got r W = (got', eof, r', W')"
  shows "\<exists>x. got' = got @ x \<and> length x \<le> avail \<and> all_data (incoming W fd) = x @ all_data (incoming W' fd)
    \<and> W' = W\<lparr>incoming := (incoming W)(fd := incoming W' fd)\<rparr>"
  using assms
proof (induction fd avail got r W rule: event_read.induct)
  case (1 fd avail got r W)
  show ?case
  proof (cases "avail = 0")
    case True
    then have "got' = got" "W' = W" using "1.prems" by (simp_all add: event_read.simps [of fd 0 got r W])
    then show ?thesis by simp
  next
    case False
    obtain x W1 where w: "w_read fd avail W = (x, W1)" by fastforce
    note ws = w_read_spec [OF w]
    show ?thesis
    proof (cases x)
      case (Inl e)
      show ?thesis
      proof (cases "e = EINTR")
        case True
        then have run: "event_read fd avail got (-1) W1 = (got', eof, r', W')"
          using "1.prems" False w Inl by (simp add: event_read.simps [of fd avail got r W])
        have "e \<noteq> EAGAIN" using True by simp
        from "1.IH"(1) [OF False w [symmetric] Inl this True run] obtain y where
          y: "got' = got @ y" "length y \<le> avail" "all_data (incoming W1 fd) = y @ all_data (incoming W' fd)"
            "W' = W1\<lparr>incoming := (incoming W1)(fd := incoming W' fd)\<rparr>" by blast
        have "W' = W\<lparr>incoming := (incoming W)(fd := incoming W' fd)\<rparr>"
          by (rule incoming_trans [OF ws(1) y(4)]) (use False in simp)
        moreover have "all_data (incoming W fd) = y @ all_data (incoming W' fd)" using y(3) ws(2) False Inl by simp
        ultimately show ?thesis using y(1,2) by blast
      next
        case ne: False
        then have "got' = got" "W' = W1"
          using "1.prems" False w Inl by (auto simp: event_read.simps [of fd avail got r W] split: if_splits)
        moreover have "all_data (incoming W fd) = [] @ all_data (incoming W1 fd)" using ws(2) False Inl by simp
        moreover have "W1 = W\<lparr>incoming := (incoming W)(fd := incoming W1 fd)\<rparr>" using False by (intro ws(1)) simp
        ultimately show ?thesis by (metis append_Nil2 le0 list.size(3))
      qed
    next
      case (Inr bs)
      show ?thesis
      proof (cases "bs = []")
        case True
        then have "got' = got" "W' = W1"
          using "1.prems" False w Inr by (auto simp: event_read.simps [of fd avail got r W])
        moreover have "all_data (incoming W fd) = [] @ all_data (incoming W1 fd)" using ws(2) False Inr True by simp
        moreover have "W1 = W\<lparr>incoming := (incoming W)(fd := incoming W1 fd)\<rparr>" using False by (intro ws(1)) simp
        ultimately show ?thesis by (metis append_Nil2 le0 list.size(3))
      next
        case ne: False
        then have run: "event_read fd (avail - length bs) (got @ bs) (int (length bs)) W1 = (got', eof, r', W')"
          using "1.prems" False w Inr by (simp add: event_read.simps [of fd avail got r W])
        from "1.IH"(2) [OF False w [symmetric] Inr ne run] obtain y where
          y: "got' = (got @ bs) @ y" "length y \<le> avail - length bs"
            "all_data (incoming W1 fd) = y @ all_data (incoming W' fd)"
            "W' = W1\<lparr>incoming := (incoming W1)(fd := incoming W' fd)\<rparr>" by blast
        have "W' = W\<lparr>incoming := (incoming W)(fd := incoming W' fd)\<rparr>"
          by (rule incoming_trans [OF ws(1) y(4)]) (use False in simp)
        moreover have "length bs \<le> avail" using ws(3) False Inr by blast
        moreover have "all_data (incoming W fd) = (bs @ y) @ all_data (incoming W' fd)"
          using y(3) ws(2) False Inr by simp
        moreover have "length (bs @ y) \<le> avail" using calculation(2) y(2) by simp
        moreover have "got' = got @ (bs @ y)" using y(1) by simp
        ultimately show ?thesis by blast
      qed
    qed
  qed
qed

lemma wired_del:
  assumes "wired a W"
  shows "\<exists>F f'. on_fds (fdevent_del a ev) W = Inr (W\<lparr>fds := F\<rparr>) \<and> wired a (W\<lparr>fds := F\<rparr>) \<and> fdes F a = Some f'
    \<and> (\<forall>m \<in> {FDE_READ, FDE_WRITE}. has ev m \<longrightarrow> \<not> has (fde_state f') m) \<and> closed_fds F = closed_fds (fds W)"
proof -
  from assms obtain f where f: "fd_inv (fds W)" "fdes (fds W) a = Some f" "active f"
    "\<not> has (fde_state f) FDE_DONT_CLOSE" by (auto simp: wired_def)
  from fdevent_del_result [OF f(1,2,3), of ev] obtain F f' where F: "fdevent_del a ev (fds W) = Inr F" "fd_inv F"
    "fdes F = (fdes (fds W))(a \<mapsto> f')" "same_wiring f f'"
    "fde_state f' AND FDE_EVENTMASK = (fde_state f AND NOT ev) AND FDE_EVENTMASK" "closed_fds F = closed_fds (fds W)" by blast
  note e = event_bits [OF F(5)]
  have dc: "\<not> has (fde_state f') FDE_DONT_CLOSE" using e(3) f(4) by (simp add: has_bit bit_simps)
  have "\<not> has (fde_state f') m" if "m \<in> {FDE_READ, FDE_WRITE}" "has ev m" for m
    using that e(1,2) unfolding has_bit by (auto simp: has_bit bit_simps simp del: One_nat_def)
  with F dc show ?thesis
    by (intro exI [of _ F] exI [of _ f']) (auto simp: on_fds_def wired_def same_wiring_def)
qed

definition okay :: "u32 \<Rightarrow> u32 \<Rightarrow> apacket" where
  "okay i j = seal_packet (get_apacket\<lparr>msg := zero_msg\<lparr>command := A_OKAY, arg0 := i, arg1 := j\<rparr>\<rparr>)"

definition wrte :: "u32 \<Rightarrow> u32 \<Rightarrow> bytes \<Rightarrow> apacket" where
  "wrte i j bs = seal_packet (get_apacket\<lparr>data := bs, p_len := length bs,
     msg := zero_msg\<lparr>command := A_WRTE, arg0 := i, arg1 := j, data_length := of_nat (length bs)\<rparr>\<rparr>)"

text \<open>An environment in which nothing can be reached, for concrete runs that need none.\<close>

definition offline_env :: net_env where
  "offline_env = \<lparr>adbhost = None, network_client = (\<lambda>_ _. -1), loopback_client = (\<lambda>_. -1), local_client = (\<lambda>_ _. -1),
     loopback_server = (\<lambda>_. -1), local_server = (\<lambda>_ _. -1), service_pair = None, thread_ok = False\<rparr>"

section \<open>The depth of enqueueing\<close>

text \<open>A request that the server does not handle itself leaves the world as it was, and a host service is a new socket; its ready function
  is called once the smart socket is gone, and enqueues at most on the client's own socket.\<close>

lemma rbind_same: "(\<And>x. m = Inr x \<Longrightarrow> f x = g x) \<Longrightarrow> rbind m f = rbind m g"
  by (cases m) simp_all

lemma unhandled_request:
  assumes "handle_host_request E service ttype ser fd a W = Inr (h, W1)" "h \<noteq> 0" "\<not> starts_with ''transport'' service"
  shows "W1 = W"
  using assms
  by (auto simp: handle_host_request_def request_disconnect_def request_forward_def rbind_eq_Inr_iff Let_def simp del: starts_with_Cons
      split: if_splits option.splits prod.splits)

lemma service_socket:
  assumes "host_service_to_socket E service ser W = Inr (Some x, W1)"
  shows "x = next_addr W \<and> (\<exists>s. sockets W1 = (sockets W)(x \<mapsto> s) \<and> (ready s = Local_socket_ready \<or> ready s = Device_tracker_ready))"
  using assms
  by (auto simp: host_service_to_socket_def create_device_tracker_def create_local_socket_def create_service_thread_def install_local_socket_def on_fds_def
      blank_socket_def updS_def getS_def setS_def rbind_eq_Inr_iff Let_def simp del: starts_with_Cons split: if_splits option.splits prod.splits)

lemma lone_smart_close:
  assumes "sockets W a = Some s" "close s = Smart_socket_close" "peer s = None"
  shows "close_socket a W = Inr (freeS a W)"
  using assms by (simp add: close_socket_def close_depth_def eval_nat_numeral smart_socket_close_def getS_def)

lemma ready_levels:
  assumes "sockets W x = Some t" "ready t = Local_socket_ready \<or> ready t = Device_tracker_ready" "peer t = Some b" "x \<noteq> b"
    and "sockets W b = Some c" "enqueue c = Local_socket_enqueue"
  shows "sock_ready (sock_enqueue (Suc n) E) x W = sock_ready (sock_enqueue (Suc m) E) x W"
  using assms
  by (auto simp: sock_ready_def device_tracker_ready_def device_tracker_send_def getS_def updS_Some setS_def intro!: rbind_same)

lemma host_levels:
  assumes a: "sockets W a = Some s" "close s = Smart_socket_close" "a < next_addr W" "peer s \<noteq> Some a"
    and b: "\<And>b c. peer s = Some b \<Longrightarrow> sockets W b = Some c \<Longrightarrow> b < next_addr W \<and> enqueue c = Local_socket_enqueue"
  shows "smart_socket_host E (sock_ready (sock_enqueue (Suc n) E)) a service ttype ser W
    = smart_socket_host E (sock_ready (sock_enqueue (Suc m) E)) a service ttype ser W"
proof (cases "\<exists>b c. peer s = Some b \<and> sockets W b = Some c")
  case True
  then obtain b c where bc: "peer s = Some b" "sockets W b = Some c" "b \<noteq> a" "b < next_addr W" "enqueue c = Local_socket_enqueue"
    using a(4) b by blast
  have rdy: "sock_ready (sock_enqueue (Suc n) E) x W6 = sock_ready (sock_enqueue (Suc m) E) x W6"
    if req: "handle_host_request E service ttype ser (s_fd c) a W = Inr (h, V)" "h \<noteq> 0" "\<not> starts_with ''transport'' service"
      and svc: "host_service_to_socket E service ser V = Inr (Some x, W2)"
      and upd: "updS b (\<lambda>c. c\<lparr>ready := Local_socket_ready, close := Local_socket_close, peer := Some x\<rparr>) (snd (w_write (s_fd c) ''OKAY'' W2)) = Inr W3"
      "updS x (\<lambda>t. t\<lparr>peer := Some b\<rparr>) W3 = Inr W4" "updS a (\<lambda>s. s\<lparr>peer := None\<rparr>) W4 = Inr W5" "close_socket a W5 = Inr W6" for h V x W2 W3 W4 W5 W6
  proof -
    from service_socket [OF svc [unfolded unhandled_request [OF req]]] obtain t where t: "x = next_addr W" "sockets W2 = (sockets W)(x \<mapsto> t)"
      "ready t = Local_socket_ready \<or> ready t = Device_tracker_ready" by blast
    have ne: "x \<noteq> a" "x \<noteq> b" using t(1) a(3) bc(4) by auto
    let ?c = "c\<lparr>ready := Local_socket_ready, close := Local_socket_close, peer := Some x\<rparr>"
    have W3: "sockets W3 = (sockets W)(x \<mapsto> t, b \<mapsto> ?c)" using upd(1) t(2) bc(2) ne by (auto simp: updS_def getS_def setS_def w_write_def split: prod.splits)
    have W4: "sockets W4 = (sockets W)(x \<mapsto> t\<lparr>peer := Some b\<rparr>, b \<mapsto> ?c)" using upd(2) W3 ne by (auto simp: updS_def getS_def setS_def)
    have W5: "sockets W5 = (sockets W)(x \<mapsto> t\<lparr>peer := Some b\<rparr>, b \<mapsto> ?c, a \<mapsto> s\<lparr>peer := None\<rparr>)"
      using upd(3) W4 ne bc(3) a(1) by (auto simp: updS_def getS_def setS_def)
    have "W6 = freeS a W5" using upd(4) lone_smart_close [of W5 a "s\<lparr>peer := None\<rparr>"] W5 a(2) by simp
    then have "sockets W6 x = Some (t\<lparr>peer := Some b\<rparr>)" "sockets W6 b = Some ?c" using W5 ne bc(3) by (simp_all add: freeS_def)
    then show ?thesis using t(3) bc(5) ne by (intro ready_levels [where t = "t\<lparr>peer := Some b\<rparr>" and b = b and c = ?c]) auto
  qed
  show ?thesis
    using a(1) bc(1,2) unfolding smart_socket_host_def
    by (auto simp: getS_def simp del: starts_with_Cons intro!: rbind_same split: option.split)
      (rule arg_cong2 [where f = rbind, OF rdy refl]; assumption)
next
  case False
  then show ?thesis using a(1) by (auto simp: smart_socket_host_def getS_def deref_def split: option.split)
qed

text \<open>So for a client whose local socket is the peer of its smart socket, two levels are enough.\<close>

lemma enqueue_depth_suffices:
  assumes "2 \<le> n" "sockets W a = Some s" "a < next_addr W"
    and "enqueue s = Smart_socket_enqueue \<Longrightarrow> close s = Smart_socket_close \<and> peer s \<noteq> Some a"
    and "\<And>b c. enqueue s = Smart_socket_enqueue \<Longrightarrow> peer s = Some b \<Longrightarrow> sockets W b = Some c
      \<Longrightarrow> b < next_addr W \<and> enqueue c = Local_socket_enqueue"
  shows "sock_enqueue n E a p W = enqueue_socket E a p W"
proof -
  obtain k where n: "n = Suc (Suc k)" using assms(1) by (metis Suc_le_D add_2_eq_Suc le_Suc_ex)
  have "smart_socket_enqueue E (sock_ready (sock_enqueue (Suc k) E)) a p W = smart_socket_enqueue E (sock_ready (sock_enqueue (Suc (Suc (Suc 0))) E)) a p W"
    if smart: "enqueue s = Smart_socket_enqueue"
  proof -
    have "smart_socket_host E (sock_ready (sock_enqueue (Suc k) E)) a service ttype ser (setS a (s\<lparr>pkts := [q]\<rparr>) W)
        = smart_socket_host E (sock_ready (sock_enqueue (Suc (Suc (Suc 0))) E)) a service ttype ser (setS a (s\<lparr>pkts := [q]\<rparr>) W)" for service ttype ser q
      by (rule host_levels) (use assms(3-5) smart in \<open>auto simp: setS_def split: if_splits\<close>)
    then show ?thesis
      using assms(2) unfolding smart_socket_enqueue_def
      by (auto simp: getS_def updS_Some Let_def split: option.split)
  qed
  then show ?thesis
    using assms(2) unfolding enqueue_socket_def enqueue_depth_def n by (simp add: eval_nat_numeral getS_def split: enqueue_fn.split)
qed

section \<open>Properties\<close>

text \<open>C22: A client's request may arrive in any pieces: as long as the smart socket holds a proper prefix of four hex digits
  and that many characters it only collects and asks for more, and with the last piece it acts on exactly the name
  that was sent, for the server if it has a host prefix and for the device otherwise.\<close>

theorem smart_socket_framing:
  assumes "sockets W a = Some s" "wf_collect s"
    and "collected s @ c @ rest = request_bytes name" "1 \<le> length name" "length name \<le> 1024" "NUL \<notin> set name"
  shows "\<exists>s'. collected s' = collected s @ c \<and> wf_collect s'
    \<and> smart_socket_enqueue E rdy a (get_apacket\<lparr>data := c, p_len := length c\<rparr>) W =
       (if rest = [] then
          (case parse_host_prefix name of
             Some (service, ttype, ser) \<Rightarrow> smart_socket_host E rdy a service ttype ser (setS a s' W)
           | None \<Rightarrow> smart_socket_connect a name (setS a s' W))
        else Inr (0, setS a s' W))"
proof -
  have "length (collected s @ c @ rest) \<le> 1028"
    unfolding assms(3) using assms(5) by (simp add: request_bytes_def)
  then have "length (collected s @ c) \<le> MAX_PAYLOAD" by (simp add: MAX_PAYLOAD_def)
  from smart_socket_enqueue_eq [OF assms(1,2) this assms(3-6)] show ?thesis by blast
qed

theorem smart_socket_framing_witness:
  "\<exists>s'. collected s' = ''00'' \<and> wf_collect s'
     \<and> smart_socket_enqueue offline_env (\<lambda>_ W. Inr W) 7 (get_apacket\<lparr>data := ''00'', p_len := 2\<rparr>) (setS 7 blank_socket world_init)
       = Inr (0, setS 7 s' (setS 7 blank_socket world_init))"
proof -
  have req: "collected blank_socket @ ''00'' @ ''05shell'' = request_bytes ''shell''"
    unfolding request_bytes_def collected_def blank_socket_def by code_simp
  have s: "sockets (setS 7 blank_socket world_init) 7 = Some blank_socket" "wf_collect blank_socket"
    by (simp_all add: wf_collect_def blank_socket_def)
  show ?thesis
    using smart_socket_framing [OF s req, of offline_env "\<lambda>_ W. Inr W"] by (auto simp: collected_def blank_socket_def numeral_2_eq_2)
qed

text \<open>A request that names a device by its serial number is taken apart as the client put it together, whether the serial
  is a plain name or has the form host:port; the service must not start with a digit.\<close>

theorem host_serial_roundtrip:
  assumes "CHR '':'' \<notin> set host" "\<forall>c \<in> set port. isdigit c" "service \<noteq> []" "\<not> isdigit (hd service)"
  shows "parse_host_prefix (''host-serial:'' @ host @ '':'' @ service) = Some (service, KTransportAny, Some host)
    \<and> (port \<noteq> [] \<longrightarrow> parse_host_prefix (''host-serial:'' @ host @ '':'' @ port @ '':'' @ service)
        = Some (service, KTransportAny, Some (host @ '':'' @ port)))"
proof -
  have colon: "\<not> isdigit (CHR '':'')" by (simp add: isdigit_def)
  have tw: "takeWhile isdigit (port @ '':'' @ service) = port" "dropWhile isdigit (port @ '':'' @ service) = '':'' @ service"
    using assms(2) colon by (simp_all add: takeWhile_append dropWhile_append)
  have first: "strchr (host @ '':'' @ x) (CHR '':'') = Some ('':'' @ x)" "before (host @ '':'' @ x) (CHR '':'') = host" for x
    using strchr_append [OF assms(1), of x] before_append [OF assms(1), of x] by simp_all
  have "skip_host_serial (host @ '':'' @ service) = Some (host, service)"
    unfolding skip_host_serial_def first using assms(4) by simp
  moreover have "skip_host_serial (host @ '':'' @ port @ '':'' @ service) = Some (host @ '':'' @ port, service)" if "port \<noteq> []"
  proof -
    have "isdigit (hd port)" using that assms(2) by simp
    then show ?thesis unfolding skip_host_serial_def first using that tw by (simp add: hd_append)
  qed
  ultimately show ?thesis by (simp add: parse_host_prefix_def)
qed

theorem host_serial_roundtrip_witness:
  "parse_host_prefix ''host-serial:10.0.0.1:5555:get-state'' = Some (''get-state'', KTransportAny, Some ''10.0.0.1:5555'')"
proof -
  have "CHR '':'' \<notin> set ''10.0.0.1''" "\<forall>c \<in> set ''5555''. isdigit c" "''get-state'' \<noteq> []" "\<not> isdigit (hd ''get-state'')"
    by (simp_all add: isdigit_def)
  from host_serial_roundtrip [OF this] show ?thesis by simp
qed

text \<open>C29: When the descriptor of a connected local socket becomes writable and no write fails, queued packets go out in order and nothing is lost: what was
  written and what is still queued make up what they did before. Once the queue is empty the socket stops asking for
  writability and sends its peer exactly one OKAY; while the descriptor blocks, the peer hears nothing.\<close>

theorem local_socket_drains_in_order:
  assumes cp: "connected_pair a s b r t tr W" and rr: "ready r = Remote_socket_ready" and nc: "\<not> closing s"
    and wf: "\<forall>p \<in> set (pkts s). wf_pkt p"
    and run: "event_write_queue (s_fd s) (pkts s) W = (st, ps, W1)" and st: "st \<noteq> Broken"
  shows "\<exists>go W' s'. event_func_write E (s_fd s) a W = Inr (go, W') \<and> sockets W' a = Some s' \<and> pkts s' = ps
    \<and> written W' (s_fd s) @ queued s' = written W (s_fd s) @ queued s
    \<and> (if st = Drained
        then go \<and> ps = [] \<and> transports W' = (transports W)(t \<mapsto> tr\<lparr>to_threads := to_threads tr @ [okay (s_id s) (s_id r)]\<rparr>)
          \<and> (\<exists>f. fdes (fds W') a = Some f \<and> \<not> has (fde_state f) FDE_WRITE)
        else \<not> go \<and> transports W' = transports W)"
proof -
  from event_write_queue_spec [OF run] wf have es: "wrote_on (s_fd s) W W1"
    "written W1 (s_fd s) @ concat (map unsent ps) = written W (s_fd s) @ concat (map unsent (pkts s))"
    "st = Drained \<longleftrightarrow> ps = []" by auto
  note frame = wrote_on_simps [OF es(1)]
  have s: "sockets W a = Some s" "sockets W b = Some r" "peer s = Some b" "peer r = Some a" "a \<noteq> b"
    "s_transport r = Some t" "transports W t = Some tr" "\<not> pair_broken tr" "wired a W"
    using cp by (simp_all add: connected_pair_def)
  let ?s = "s\<lparr>pkts := ps\<rparr>" let ?W2 = "setS a ?s W1"
  have q: "queued ?s = concat (map unsent ps)" by (simp add: queued_def)
  show ?thesis
  proof (cases st)
    case Blocked
    then have "event_func_write E (s_fd s) a W = Inr (False, ?W2)"
      using s(1) run by (simp add: event_func_write_def frame)
    then show ?thesis using Blocked es(2) q frame
      by (intro exI [of _ False] exI [of _ ?W2] exI [of _ ?s]) (simp add: queued_def setS_def)
  next
    case Drained
    have "wired a ?W2" using s(9) by (simp add: wired_def setS_def frame)
    from wired_del [OF this, of FDE_WRITE] obtain F f' where
      F: "on_fds (fdevent_del a FDE_WRITE) ?W2 = Inr (?W2\<lparr>fds := F\<rparr>)" "fdes F a = Some f'" "\<not> has (fde_state f') FDE_WRITE"
      by auto
    let ?W3 = "?W2\<lparr>fds := F\<rparr>"
    have "ready_socket E b ?W3 = Inr (?W3\<lparr>transports := (transports W)(t \<mapsto> tr\<lparr>to_threads := to_threads tr @ [okay (s_id s) (s_id r)]\<rparr>)\<rparr>)"
      using s rr by (simp add: ready_socket_def sock_ready_def remote_socket_ready_def send_packet_def setS_def frame okay_def)
    then have "event_func_write E (s_fd s) a W = Inr (True, ?W3\<lparr>transports :=
        (transports W)(t \<mapsto> tr\<lparr>to_threads := to_threads tr @ [okay (s_id s) (s_id r)]\<rparr>)\<rparr>)"
      using s run Drained F(1) nc by (simp add: event_func_write_def frame)
    then show ?thesis using Drained es(2,3) q F(2,3)
      by (intro exI [of _ True]) (simp add: queued_def setS_def)
  qed (use st in simp)
qed

theorem local_socket_drains_in_order_witness:
  "\<exists>W' s'. event_func_write offline_env 5 1 pair_busy = Inr (False, W') \<and> sockets W' 1 = Some s' \<and> written W' 5 @ queued s' = ''abc''"
proof -
  let ?s = "pair_local\<lparr>pkts := [get_apacket\<lparr>data := ''abc'', p_len := 3\<rparr>]\<rparr>"
  obtain st ps W1 where run: "event_write_queue (s_fd ?s) (pkts ?s) pair_busy = (st, ps, W1)" by (metis prod_cases3)
  have z: "s_fd ?s = 5" "written pair_busy 5 = []" "queued ?s = ''abc''"
    by (simp_all add: pair_local_def pair_busy_def setS_def pair_world_def world_init_def queued_def unsent_def get_apacket_def)
  have b: "st = Blocked"
    using run by (simp add: event_write.simps w_write_def unsent_def pair_busy_def setS_def pair_defs get_apacket_def)
  have pre: "ready pair_remote = Remote_socket_ready" "\<not> closing ?s" "\<forall>p \<in> set (pkts ?s). wf_pkt p" "st \<noteq> Broken"
    using b by (simp_all add: pair_defs blank_socket_def wf_pkt_def get_apacket_def)
  from local_socket_drains_in_order [OF pair_busy_connected pre(1,2,3) run pre(4), of offline_env] b show ?thesis unfolding z by auto
qed

text \<open>C30: When the descriptor of a local socket connected to the device becomes readable, at most 4096 bytes are read and sent
  as the payload of one WRTE packet with both ids, nothing is lost, and the socket stops reading until the device's
  OKAY makes it ready again.\<close>

theorem local_socket_read_sends_one_write:
  assumes cp: "connected_pair a s b r t tr W" and re: "enqueue r = Remote_socket_enqueue"
    and run: "event_read fd MAX_PAYLOAD [] 0 W = (got, False, r0, W1)" and ne: "got \<noteq> []"
  shows "\<exists>W'. event_func_read E fd a W = Inr W' \<and> length got \<le> 4096
    \<and> all_data (incoming W fd) = got @ all_data (incoming W' fd)
    \<and> transports W' = (transports W)(t \<mapsto> tr\<lparr>to_threads := to_threads tr @ [wrte (s_id s) (s_id r) got]\<rparr>)
    \<and> (\<exists>f. fdes (fds W') a = Some f \<and> \<not> has (fde_state f) FDE_READ)"
proof -
  from event_read_spec [OF run] have er: "length got \<le> 4096" "all_data (incoming W fd) = got @ all_data (incoming W1 fd)"
    "W1 = W\<lparr>incoming := (incoming W)(fd := incoming W1 fd)\<rparr>" by (auto simp: MAX_PAYLOAD_def)
  have frame: "sockets W1 = sockets W" "transports W1 = transports W" "fds W1 = fds W" by (subst er(3), simp)+
  have s: "sockets W a = Some s" "sockets W b = Some r" "peer s = Some b" "peer r = Some a" "a \<noteq> b"
    "s_transport r = Some t" "transports W t = Some tr" "\<not> pair_broken tr" "wired a W"
    using cp by (simp_all add: connected_pair_def)
  let ?W2 = "W1\<lparr>transports := (transports W)(t \<mapsto> tr\<lparr>to_threads := to_threads tr @ [wrte (s_id s) (s_id r) got]\<rparr>)\<rparr>"
  have msg0: "msg (get_apacket\<lparr>data := got, p_len := length got\<rparr>) = zero_msg" by (simp add: get_apacket_def)
  have enq: "enqueue_socket E b (get_apacket\<lparr>data := got, p_len := length got\<rparr>) W1 = Inr (1, ?W2)"
    using s re by (simp add: enqueue_socket_def enqueue_depth_def eval_nat_numeral remote_socket_enqueue_def send_packet_def
        frame wrte_def msg0)
  have "wired a ?W2" using s(9) by (simp add: wired_def frame)
  from wired_del [OF this, of FDE_READ] obtain F f' where
    F: "on_fds (fdevent_del a FDE_READ) ?W2 = Inr (?W2\<lparr>fds := F\<rparr>)" "fdes F a = Some f'" "\<not> has (fde_state f') FDE_READ"
    by auto
  have pass: "event_pass_on E a got r0 W1 = Inr (True, 1, ?W2\<lparr>fds := F\<rparr>)"
    using s ne enq F(1) by (simp add: event_pass_on_def frame)
  have "event_func_read E fd a W = Inr (?W2\<lparr>fds := F\<rparr>)"
    using run pass s(1) F(2) by (simp add: event_func_read_def frame)
  then show ?thesis using er(1,2) F(2,3) by simp
qed

definition pair_reading :: world where
  "pair_reading = pair_world\<lparr>incoming := (\<lambda>_. [RData ''ls'', RErr EAGAIN])\<rparr>"

theorem local_socket_read_sends_one_write_witness:
  "\<exists>W' tr. event_func_read offline_env 5 1 pair_reading = Inr W' \<and> transports W' 20 = Some tr \<and> to_threads tr = [wrte 1 77 ''ls'']"
proof -
  have cp: "connected_pair 1 pair_local 3 pair_remote 20 pair_transport pair_reading"
    using pair_connected by (simp add: connected_pair_def pair_reading_def wired_def)
  obtain W1 where run: "event_read 5 MAX_PAYLOAD [] 0 pair_reading = (''ls'', False, -1, W1)"
    by (simp add: event_read.simps MAX_PAYLOAD_def pair_reading_def w_read_def)
  have re: "enqueue pair_remote = Remote_socket_enqueue" by (simp add: pair_remote_def)
  from local_socket_read_sends_one_write [OF cp re run, of offline_env] show ?thesis
    by (auto simp: pair_defs dev_def blank_transport_def)
qed

text \<open>A local socket that has no peer but still has queued packets makes the server dereference a null pointer as soon as
  the last of them has been written: this is what a WRTE for a socket that is not connected leads to.\<close>

theorem unpaired_socket_write_crashes:
  assumes "sockets W a = Some s" "peer s = None" "\<not> closing s" "wired a W"
    and "event_write_queue fd (pkts s) W = (Drained, ps, W1)" "\<forall>p \<in> set (pkts s). wf_pkt p" "has ev FDE_WRITE"
  shows "local_socket_event_func E fd ev a W = Inl NullDeref"
proof -
  from event_write_queue_spec [OF assms(5)] assms(6) have es: "wrote_on fd W W1" by blast
  note frame = wrote_on_simps [OF es]
  have "wired a (setS a (s\<lparr>pkts := ps\<rparr>) W1)" using assms(4) by (simp add: wired_def setS_def frame)
  from wired_del [OF this, of FDE_WRITE] obtain F where
    "on_fds (fdevent_del a FDE_WRITE) (setS a (s\<lparr>pkts := ps\<rparr>) W1) = Inr ((setS a (s\<lparr>pkts := ps\<rparr>) W1)\<lparr>fds := F\<rparr>)" by blast
  then show ?thesis
    using assms by (simp add: local_socket_event_func_def event_func_write_def frame)
qed

theorem unpaired_socket_write_crashes_witness:
  "local_socket_event_func offline_env 5 FDE_WRITE 1
     (setS 1 (pair_local\<lparr>peer := None, pkts := [get_apacket\<lparr>data := ''x'', p_len := 1\<rparr>]\<rparr>) pair_world) = Inl NullDeref"
proof -
  let ?s = "pair_local\<lparr>peer := None, pkts := [get_apacket\<lparr>data := ''x'', p_len := 1\<rparr>]\<rparr>"
  let ?W = "setS 1 ?s pair_world"
  have q: "\<exists>W1. event_write_queue 5 (pkts ?s) ?W = (Drained, [], W1)"
    by (simp add: event_write.simps w_write_def unsent_def setS_def pair_world_def get_apacket_def)
  have pre: "sockets ?W 1 = Some ?s" "peer ?s = None" "\<not> closing ?s" "wired 1 ?W" "\<forall>p \<in> set (pkts ?s). wf_pkt p"
    "has FDE_WRITE FDE_WRITE"
    using pair_wired by (simp_all add: pair_local_def blank_socket_def wired_def setS_def wf_pkt_def get_apacket_def)
  from q unpaired_socket_write_crashes [OF pre(1-4) _ pre(5,6), of 5 "[]"] show ?thesis by blast
qed

end
