(* ===== verification/Adb_Server.thy ===== *)
theory Adb_Server
  imports Smart_Socket
begin

text \<open>
  The protocol engine of adb.c (\<^verbatim>\<open>handle_packet\<close>), the disconnect callbacks and the registration of transports
  in transport.c, and the listeners' callbacks of adb.c.
\<close>

section \<open>Sending\<close>

definition send_ready :: "u32 \<Rightarrow> u32 \<Rightarrow> addr \<Rightarrow> world \<Rightarrow> world res" where
  "send_ready lid rid t W =
     send_packet (get_apacket\<lparr>msg := zero_msg\<lparr>command := A_OKAY, arg0 := lid, arg1 := rid\<rparr>\<rparr>) (Some t) W"

definition send_close :: "u32 \<Rightarrow> u32 \<Rightarrow> addr \<Rightarrow> world \<Rightarrow> world res" where
  "send_close lid rid t W =
     send_packet (get_apacket\<lparr>msg := zero_msg\<lparr>command := A_CLSE, arg0 := lid, arg1 := rid\<rparr>\<rparr>) (Some t) W"

definition adb_device_banner :: string where "adb_device_banner = ''device''"

definition send_connect :: "addr \<Rightarrow> world \<Rightarrow> world res" where
  "send_connect t W =
     (let text = snprintf MAX_PAYLOAD ((if HOST W then ''host'' else adb_device_banner) @ ''::'') in
      send_packet (get_apacket\<lparr>data := text @ [NUL],
          msg := zero_msg\<lparr>command := A_CNXN, arg0 := A_VERSION, arg1 := of_nat MAX_PAYLOAD,
                          data_length := of_nat (length text + 1)\<rparr>\<rparr>) (Some t) W)"

section \<open>Going offline and online\<close>

text \<open>
  \<^verbatim>\<open>run_transport_disconnects\<close>. A callback only ever takes entries off the list, so the entries after the
  current one are those of the list at the start that are still on it. The next entry is read before the call;
  if the call has taken that entry away, going on reads freed memory.
\<close>

definition disconnect_func :: "adisconnect \<Rightarrow> world \<Rightarrow> world res" where
  "disconnect_func d W =
     (case d of
        Remote_socket_disconnect a \<Rightarrow> remote_socket_disconnect a W
      | Listener_disconnect a \<Rightarrow> listener_disconnect a W)"

function disconnect_loop :: "addr \<Rightarrow> adisconnect list \<Rightarrow> world \<Rightarrow> world res" where
  "disconnect_loop t [] W = Inr W"
| "disconnect_loop t (d # ds) W =
     rbind (getT t W) (\<lambda>tr.
       let later = filter (\<lambda>x. x \<in> set (disconnects tr)) ds in
       rbind (disconnect_func d W) (\<lambda>W1.
       rbind (getT t W1) (\<lambda>tr1.
         if later \<noteq> [] \<and> hd later \<notin> set (disconnects tr1) then Inl (UseAfterFree t)
         else disconnect_loop t later W1)))"
  by pat_completeness auto
termination by (relation "measure (\<lambda>(t, ds, W). length ds)") (auto simp: less_Suc_eq_le)

definition run_transport_disconnects :: "addr \<Rightarrow> world \<Rightarrow> world res" where
  "run_transport_disconnects t W = rbind (getT t W) (\<lambda>tr. disconnect_loop t (disconnects tr) W)"

definition handle_offline :: "addr \<Rightarrow> world \<Rightarrow> world res" where
  "handle_offline t W = run_transport_disconnects t W"

text \<open>\<^verbatim>\<open>parse_banner\<close>: type and product are the first two fields, and any other type than the four known ones
  is taken for a host.\<close>

definition banner_type :: "string \<Rightarrow> string" where
  "banner_type banner = before banner (CHR '':'')"

definition banner_product :: "string \<Rightarrow> string" where
  "banner_product banner =
     (case strchr banner (CHR '':'') of None \<Rightarrow> [] | Some r \<Rightarrow> before (tl r) (CHR '':''))"

definition set_product :: "string \<Rightarrow> atransport \<Rightarrow> atransport" where
  "set_product x t =
     (case product t of
        None \<Rightarrow> t\<lparr>product := Some x\<rparr>
      | Some y \<Rightarrow> if x \<noteq> y then t\<lparr>product := Some x\<rparr> else t)"

definition set_state :: "connection_state \<Rightarrow> addr \<Rightarrow> world \<Rightarrow> world res" where
  "set_state st t W = updT t (\<lambda>x. x\<lparr>connection_state := st\<rparr>) W"

definition parse_banner :: "net_env \<Rightarrow> string \<Rightarrow> addr \<Rightarrow> world \<Rightarrow> world res" where
  "parse_banner E banner t W =
     (let ty = banner_type banner in
      rbind (updT t (set_product (banner_product banner)) W) (\<lambda>W1.
        if ty = ''bootloader'' then rbind (set_state CS_BOOTLOADER t W1) (update_transports (enqueue_socket E))
        else if ty = ''device'' then rbind (set_state CS_DEVICE t W1) (update_transports (enqueue_socket E))
        else if ty = ''recovery'' then rbind (set_state CS_RECOVERY t W1) (update_transports (enqueue_socket E))
        else if ty = ''sideload'' then rbind (set_state CS_SIDELOAD t W1) (update_transports (enqueue_socket E))
        else set_state CS_HOST t W1))"

section \<open>Packets from a transport\<close>

text \<open>The banner of a CNXN packet is read up to its NUL; without one the reader runs into memory that was never
  written.\<close>

definition handle_sync :: "apacket \<Rightarrow> addr \<Rightarrow> world \<Rightarrow> world res" where
  "handle_sync p t W =
     (if arg0 (msg p) \<noteq> 0 then
        rbind (send_packet p (Some t) W) (\<lambda>W1. if HOST W1 then send_connect t W1 else Inr W1)
      else
        rbind (set_state CS_OFFLINE t W) (\<lambda>W1.
        rbind (handle_offline t W1) (send_packet p (Some t))))"

definition handle_cnxn :: "net_env \<Rightarrow> apacket \<Rightarrow> addr \<Rightarrow> world \<Rightarrow> world res" where
  "handle_cnxn E p t W =
     rbind (getT t W) (\<lambda>tr.
     rbind (if connection_state tr \<noteq> CS_OFFLINE
            then rbind (set_state CS_OFFLINE t W) (handle_offline t) else Inr W) (\<lambda>W1.
       if NUL \<notin> set (data p) then Inl UninitRead
       else rbind (parse_banner E (c_str (data p)) t W1) (\<lambda>W2.
         if HOST W2 then Inr W2 else send_connect t W2)))"

text \<open>\<^verbatim>\<open>name[data_length - 1] = 0\<close>: the name is what comes before the last byte of the payload.\<close>

definition handle_open :: "net_env \<Rightarrow> apacket \<Rightarrow> addr \<Rightarrow> world \<Rightarrow> world res" where
  "handle_open E p t W =
     (let name = c_str (take (unat (data_length (msg p)) - 1) (data p)) in
      rbind (create_local_service_socket E name W) (\<lambda>(r, W1).
        case r of
          None \<Rightarrow> send_close 0 (arg0 (msg p)) t W1
        | Some a \<Rightarrow>
            rbind (create_remote_socket (arg0 (msg p)) t W1) (\<lambda>(b, W2).
            rbind (updS a (\<lambda>s. s\<lparr>peer := Some b\<rparr>) W2) (\<lambda>W3.
            rbind (updS b (\<lambda>s. s\<lparr>peer := Some a\<rparr>) W3) (\<lambda>W4.
            rbind (getS a W4) (\<lambda>s.
            rbind (getS b W4) (\<lambda>r.
            rbind (send_ready (s_id s) (s_id r) t W4) (ready_socket E a))))))))"

definition handle_okay :: "net_env \<Rightarrow> apacket \<Rightarrow> addr \<Rightarrow> world \<Rightarrow> world res" where
  "handle_okay E p t W =
     rbind (find_local_socket (arg1 (msg p)) W) (\<lambda>r.
       case r of
         None \<Rightarrow> Inr W
       | Some a \<Rightarrow>
           rbind (getS a W) (\<lambda>s.
           rbind (if peer s = None then
                    rbind (create_remote_socket (arg0 (msg p)) t W) (\<lambda>(b, W1).
                    rbind (updS a (\<lambda>s. s\<lparr>peer := Some b\<rparr>) W1) (updS b (\<lambda>s. s\<lparr>peer := Some a\<rparr>)))
                  else Inr W) (ready_socket E a)))"

definition handle_clse :: "apacket \<Rightarrow> world \<Rightarrow> world res" where
  "handle_clse p W =
     rbind (find_local_socket (arg1 (msg p)) W) (\<lambda>r.
       case r of None \<Rightarrow> Inr W | Some a \<Rightarrow> close_socket a W)"

definition handle_wrte :: "net_env \<Rightarrow> apacket \<Rightarrow> addr \<Rightarrow> world \<Rightarrow> world res" where
  "handle_wrte E p t W =
     rbind (find_local_socket (arg1 (msg p)) W) (\<lambda>r.
       case r of
         None \<Rightarrow> Inr W
       | Some a \<Rightarrow>
           rbind (enqueue_socket E a (p\<lparr>p_len := unat (data_length (msg p))\<rparr>) W) (\<lambda>(q, W1).
             if q = 0 then rbind (getS a W1) (\<lambda>s. send_ready (s_id s) (arg0 (msg p)) t W1) else Inr W1))"

definition handle_packet :: "net_env \<Rightarrow> apacket \<Rightarrow> addr \<Rightarrow> world \<Rightarrow> world res" where
  "handle_packet E p t W =
     (let c = command (msg p) in
      if c = A_SYNC then handle_sync p t W
      else if c = A_CNXN then handle_cnxn E p t W
      else if c \<notin> {A_OPEN, A_OKAY, A_CLSE, A_WRTE} then Inr W
      else rbind (getT t W) (\<lambda>tr.
        if connection_state tr = CS_OFFLINE then Inr W
        else if c = A_OPEN then handle_open E p t W
        else if c = A_OKAY then handle_okay E p t W
        else if c = A_CLSE then handle_clse p W
        else handle_wrte E p t W))"

section \<open>Callbacks of the event loop\<close>

text \<open>The pair's end of the event loop is not blocking: without a packet the read fails and nothing happens.\<close>

definition transport_socket_events :: "net_env \<Rightarrow> u16 \<Rightarrow> addr \<Rightarrow> world \<Rightarrow> world res" where
  "transport_socket_events E ev t W =
     (if has ev FDE_READ then
        rbind (getT t W) (\<lambda>tr.
          case to_loop tr of
            [] \<Rightarrow> Inr W
          | p # ps \<Rightarrow> rbind (updT t (\<lambda>tr. tr\<lparr>to_loop := ps\<rparr>) W) (handle_packet E p t))
      else Inr W)"

text \<open>
  \<^verbatim>\<open>transport_registration_func\<close>; \<open>pair\<close> is what \<^verbatim>\<open>adb_socketpair\<close> yields. The result also says for which
  transport the input and the output thread have been started.
\<close>

definition remove_registered :: "net_env \<Rightarrow> addr \<Rightarrow> world \<Rightarrow> world res" where
  "remove_registered E t W =
     rbind (on_fds (fdevent_remove t) W) (\<lambda>W1.
     rbind (getT t W1) (\<lambda>tr.
     rbind (unlink_transport t (W1\<lparr>shut_fds := shut_fds W1 @ [t_fd tr]\<rparr>)) (\<lambda>W2.
     rbind (run_transport_disconnects t W2) (\<lambda>W3.
       update_transports (enqueue_socket E) (W3\<lparr>transports := (transports W3)(t := None)\<rparr>)))))"

definition start_transport :: "net_env \<Rightarrow> (int \<times> int) option \<Rightarrow> addr \<Rightarrow> world \<Rightarrow> world res" where
  "start_transport E pair t W =
     rbind (updT t (\<lambda>tr. tr\<lparr>ref_count := 2\<rparr>) W) (\<lambda>W1.
       case pair of
         None \<Rightarrow> Inl (Fatal ''cannot open transport socketpair'')
       | Some (s0, s1) \<Rightarrow>
           rbind (updT t (\<lambda>tr. tr\<lparr>transport_socket := s0, t_fd := s1\<rparr>) W1) (\<lambda>W2.
           rbind (on_fds (fdevent_install t s0 Transport_socket_events t) W2) (\<lambda>W3.
           rbind (on_fds (fdevent_set t FDE_READ) W3) (\<lambda>W4.
             if thread_ok E then Inr W4 else Inl (Fatal ''cannot create input thread'')))))"

definition transport_registration_func ::
    "net_env \<Rightarrow> (int \<times> int) option \<Rightarrow> u16 \<Rightarrow> world \<Rightarrow> (addr option \<times> world) res" where
  "transport_registration_func E pair ev W =
     (if \<not> has ev FDE_READ then Inr (None, W)
      else case registration W of
        [] \<Rightarrow> Inl (Fatal ''cannot read transport registration socket'')
      | (t, False) # ms \<Rightarrow>
          rbind (remove_registered E t (W\<lparr>registration := ms\<rparr>)) (\<lambda>W1. Inr (None, W1))
      | (t, True) # ms \<Rightarrow>
          rbind (getT t (W\<lparr>registration := ms\<rparr>)) (\<lambda>tr.
          rbind (if connection_state tr \<noteq> CS_NOPERM
                 then rbind (start_transport E pair t (W\<lparr>registration := ms\<rparr>)) (\<lambda>W1. Inr (Some t, W1))
                 else Inr (None, W\<lparr>registration := ms\<rparr>)) (\<lambda>(started, W1).
          rbind (link_transport t W1) (\<lambda>W2.
          rbind (updT t (\<lambda>tr. tr\<lparr>disconnects := []\<rparr>) W2) (\<lambda>W3.
          rbind (update_transports (enqueue_socket E) W3) (\<lambda>W4. Inr (started, W4)))))))"

text \<open>\<open>fd\<close> is the new connection, what \<^verbatim>\<open>adb_socket_accept\<close> yields.\<close>

definition ss_listener_event_func :: "net_env \<Rightarrow> int \<Rightarrow> u16 \<Rightarrow> world \<Rightarrow> world res" where
  "ss_listener_event_func E fd ev W =
     (if has ev FDE_READ then
        if fd < 0 then Inr W
        else rbind (create_local_socket fd W) (\<lambda>(a, W1). connect_to_smartsocket E a W1)
      else Inr W)"

definition listener_event_func :: "int \<Rightarrow> u16 \<Rightarrow> addr \<Rightarrow> world \<Rightarrow> world res" where
  "listener_event_func fd ev a W =
     (if has ev FDE_READ then
        if fd < 0 then Inr W
        else rbind (create_local_socket fd W) (\<lambda>(b, W1).
             rbind (getL a W1) (\<lambda>l.
             rbind (updS b (\<lambda>s. s\<lparr>s_transport := l_transport l\<rparr>) W1) (connect_to_remote b (connect_to l))))
      else Inr W)"

section \<open>Creating a connected pair\<close>

text \<open>What the next allocation needs: the event loop is consistent and the next address is not in use.\<close>

definition can_allocate :: "world \<Rightarrow> bool" where
  "can_allocate W \<longleftrightarrow> fd_inv (fds W) \<and> (\<forall>a \<ge> next_addr W. fdes (fds W) a = None)"

lemma created_socket:
  assumes "can_allocate W" "fresh_fd fd (fds W)"
  defines "a \<equiv> next_addr W"
  shows "\<exists>F. create_local_socket fd W = Inr (a, W\<lparr>next_addr := a + 1,
       sockets := (sockets W)(a \<mapsto> blank_socket\<lparr>s_fd := fd, s_id := local_socket_next_id W\<rparr>),
       local_socket_next_id := local_socket_next_id W + 1, local_socket_list := local_socket_list W @ [a], fds := F\<rparr>)
    \<and> wired a (W\<lparr>fds := F\<rparr>)"
proof -
  from fdevent_install_inv [of "fds W" fd a Local_socket_event_func a] assms obtain F where
    F: "fdevent_install a fd Local_socket_event_func a (fds W) = Inr F" "fd_inv F"
      "fdes F = (fdes (fds W))(a \<mapsto> \<lparr>fde_fd = fd, force_eof = False, fde_state = FDE_ACTIVE, fde_events = 0,
         fde_func = Local_socket_event_func, fde_arg = a\<rparr>)" by (auto simp: can_allocate_def)
  have "has FDE_ACTIVE FDE_ACTIVE" "\<not> has FDE_ACTIVE FDE_DONT_CLOSE" by (simp_all add: fde_bits)
  then have "wired a (W\<lparr>fds := F\<rparr>)" using F by (simp add: wired_def active_def)
  moreover have "create_local_socket fd W = Inr (a, W\<lparr>next_addr := a + 1,
       sockets := (sockets W)(a \<mapsto> blank_socket\<lparr>s_fd := fd, s_id := local_socket_next_id W\<rparr>),
       local_socket_next_id := local_socket_next_id W + 1, local_socket_list := local_socket_list W @ [a], fds := F\<rparr>)"
    using F(1) by (simp add: create_local_socket_def install_local_socket_def setS_def on_fds_def a_def blank_socket_def Let_def)
  ultimately show ?thesis by blast
qed

text \<open>A remote socket is made for a local one and the two are connected.\<close>

definition remote_half :: "u32 \<Rightarrow> addr \<Rightarrow> addr \<Rightarrow> asocket" where
  "remote_half i t a = blank_socket\<lparr>s_id := i, enqueue := Remote_socket_enqueue, ready := Remote_socket_ready,
     close := Remote_socket_close, s_transport := Some t, peer := Some a\<rparr>"

lemma created_remote:
  assumes "transports W t = Some tr"
  defines "b \<equiv> next_addr W"
  shows "create_remote_socket i t W = Inr (b, W\<lparr>next_addr := b + 1,
       sockets := (sockets W)(b \<mapsto> (remote_half i t a)\<lparr>peer := None\<rparr>),
       transports := (transports W)(t \<mapsto> tr\<lparr>disconnects := disconnects tr @ [Remote_socket_disconnect b]\<rparr>)\<rparr>)"
  using assms by (simp add: create_remote_socket_def add_transport_disconnect_def setS_def remote_half_def blank_socket_def Let_def)

lemma remote_half_peer [simp]: "(remote_half i t a)\<lparr>peer := Some a\<rparr> = remote_half i t a"
  by (simp add: remote_half_def blank_socket_def)

lemma ready_local:
  assumes "sockets W a = Some s" "ready s = Local_socket_ready" "wired a W"
  shows "\<exists>F f. ready_socket E a W = Inr (W\<lparr>fds := F\<rparr>) \<and> wired a (W\<lparr>fds := F\<rparr>) \<and> fdes F a = Some f \<and> has (fde_state f) FDE_READ"
  using wired_add [OF assms(3), of FDE_READ] assms(1,2)
  by (auto simp: ready_socket_def sock_ready_def local_socket_ready_def)

lemma service_to_fd_frame:
  assumes "service_to_fd E name W = (fd, W')"
  shows "\<exists>sp sh. W' = W\<lparr>spawned := sp, shut_fds := sh\<rparr>"
proof -
  define P where "P = (\<lambda>V. \<exists>sp sh. V = W\<lparr>spawned := sp, shut_fds := sh\<rparr>)"
  have one: "P (W\<lparr>spawned := sp\<rparr>)" "P (W\<lparr>shut_fds := sh\<rparr>)" for sp sh
    unfolding P_def by (intro exI [of _ sp] exI [of _ "shut_fds W"], simp) (intro exI [of _ "spawned W"] exI [of _ sh], simp)
  have refl: "P W" using one(1) [of "spawned W"] by simp
  with one have "P (snd (create_service_thread E x W))" for x
    by (simp add: create_service_thread_def split: option.splits)
  with refl have "P (snd (service_to_fd E name W))" by (simp add: service_to_fd_def split: option.splits)
  then show ?thesis using assms by (simp add: P_def)
qed

section \<open>Losing a transport\<close>

text \<open>Closing a local socket that has no peer touches this socket and its fdevent only.\<close>

lemma closed_alone:
  assumes s: "sockets W a = Some s" "peer s = None" "close s = Local_socket_close" "\<not> exit_on_close s"
    and W: "wired a W" "\<not> socket_list_lock W"
  shows "\<exists>F x ls cs. close_socket a W = Inr (W\<lparr>sockets := (sockets W)(a := x), fds := F, local_socket_list := ls,
       local_socket_closing_list := cs\<rparr>) \<and> fd_inv F \<and> (\<forall>c. c \<noteq> a \<longrightarrow> fdes F c = fdes (fds W) c)
    \<and> (if pkts s = [] \<or> closing s then x = None else \<exists>i. x = Some (s\<lparr>closing := True, s_id := i\<rparr>))"
proof -
  let ?L = "W\<lparr>socket_list_lock := True\<rparr>"
  have "close_socket a W = sock_close 2 a W"
    using close_alone_local [OF s(1-3), of 6] by (simp add: close_socket_def close_depth_def del: sock_close.simps)
  also have "\<dots> = rbind (local_socket_close_locked 1 a ?L) (\<lambda>W1. Inr (W1\<lparr>socket_list_lock := False\<rparr>))"
    using s(1,3) W(2) by (simp add: numeral_2_eq_2 local_socket_close_def)
  finally have run: "close_socket a W = rbind (local_socket_close_locked 1 a ?L) (\<lambda>W1. Inr (W1\<lparr>socket_list_lock := False\<rparr>))" .
  have result: ?thesis
    if "local_socket_close_locked 1 a ?L = Inr (?L\<lparr>sockets := (sockets W)(a := x), fds := F, local_socket_list := ls,
       local_socket_closing_list := cs\<rparr>)" "fd_inv F" "fdes F = (fdes (fds W))(a := y)"
      "if pkts s = [] \<or> closing s then x = None else \<exists>i. x = Some (s\<lparr>closing := True, s_id := i\<rparr>)" for F x ls cs y
  proof -
    have "?L\<lparr>sockets := (sockets W)(a := x), fds := F, local_socket_list := ls, local_socket_closing_list := cs,
       socket_list_lock := False\<rparr> = W\<lparr>sockets := (sockets W)(a := x), fds := F, local_socket_list := ls,
       local_socket_closing_list := cs\<rparr>" by (rule world.equality) (use W(2) in simp_all)
    with that(1) run have "close_socket a W = Inr (W\<lparr>sockets := (sockets W)(a := x), fds := F, local_socket_list := ls,
       local_socket_closing_list := cs\<rparr>)" by simp
    moreover have "\<forall>c. c \<noteq> a \<longrightarrow> fdes F c = fdes (fds W) c" using that(3) by simp
    ultimately show ?thesis using that(2,4) by blast
  qed
  from W(1) obtain f where f: "fd_inv (fds W)" "fdes (fds W) a = Some f" "active f" by (auto simp: wired_def)
  show ?thesis
  proof (cases "pkts s = [] \<or> closing s")
    case True
    from fdevent_remove_inv [OF f] obtain F where F: "fdevent_remove a (fds W) = Inr F" "fd_inv F"
      "fdes F = (fdes (fds W))(a \<mapsto> f\<lparr>fde_state := 0, fde_events := 0\<rparr>)" by blast
    have "local_socket_close_locked 1 a ?L = local_socket_destroy a ?L"
      using s(1,2) True by (auto simp: local_socket_close_body_def)
    also have "\<dots> = Inr (?L\<lparr>sockets := (sockets W)(a := None), fds := F, local_socket_list := remove1 a (local_socket_list W),
      local_socket_closing_list := remove1 a (local_socket_closing_list W)\<rparr>)"
      using destroy_eq [of ?L a s F] s F(1) by (simp add: freeS_def)
    finally show ?thesis by (rule result [OF _ F(2,3)]) (use True in simp)
  next
    case False
    from fdevent_del_result [OF f, of FDE_READ] obtain F f' where F: "fdevent_del a FDE_READ (fds W) = Inr F" "fd_inv F"
      "fdes F = (fdes (fds W))(a \<mapsto> f')" by blast
    let ?i = "if a \<in> set (local_socket_list W) \<or> a \<in> set (local_socket_closing_list W) then 0 else s_id s"
    have "local_socket_close_locked 1 a ?L = Inr (?L\<lparr>sockets := (sockets W)(a \<mapsto> s\<lparr>closing := True, s_id := ?i\<rparr>), fds := F,
       local_socket_list := remove1 a (local_socket_list W),
       local_socket_closing_list := remove1 a (local_socket_closing_list W) @ [a]\<rparr>)"
      using s(1,2) False F(1) by (simp add: local_socket_close_body_def on_fds_def remove_socket_def setS_def remove1_idem)
    then show ?thesis by (rule result [OF _ F(2,3)]) (unfold if_not_P [OF False], blast)
  qed
qed

text \<open>The remote sockets that a transport's disconnect list names, each connected to a local socket.\<close>

definition attached :: "addr \<Rightarrow> addr \<Rightarrow> world \<Rightarrow> bool" where
  "attached t b W \<longleftrightarrow> (\<exists>r a s. sockets W b = Some r \<and> close r = Remote_socket_close \<and> s_transport r = Some t \<and> peer r = Some a
     \<and> sockets W a = Some s \<and> peer s = Some b \<and> close s = Local_socket_close \<and> \<not> exit_on_close s \<and> wired a W)"

text \<open>The local socket behind a remote one has let go of it: it is gone, or it only waits for its queue to drain.\<close>

definition let_go :: "addr \<Rightarrow> world \<Rightarrow> bool" where
  "let_go a W \<longleftrightarrow> (case sockets W a of None \<Rightarrow> True | Some s \<Rightarrow> peer s = None \<and> closing s \<and> pkts s \<noteq> [])"

lemma disconnected:
  assumes b: "attached t b W" and t: "transports W t = Some tr" and W: "\<not> socket_list_lock W"
  shows "\<exists>W' r a. remote_socket_disconnect b W = Inr W' \<and> sockets W b = Some r \<and> peer r = Some a
    \<and> (\<forall>c. c \<noteq> a \<longrightarrow> c \<noteq> b \<longrightarrow> sockets W' c = sockets W c) \<and> sockets W' b = None \<and> let_go a W'
    \<and> transports W' = (transports W)(t \<mapsto> tr\<lparr>disconnects := remove1 (Remote_socket_disconnect b) (disconnects tr)\<rparr>)
    \<and> \<not> socket_list_lock W' \<and> (\<forall>c. c \<noteq> a \<longrightarrow> wired c W \<longrightarrow> wired c W')"
proof -
  from b obtain r a s where r: "sockets W b = Some r" "close r = Remote_socket_close" "s_transport r = Some t" "peer r = Some a"
    and s: "sockets W a = Some s" "close s = Local_socket_close" "\<not> exit_on_close s" "wired a W" by (auto simp: attached_def)
  have ab: "a \<noteq> b" using r(1,2) s(1,2) by auto
  let ?W1 = "setS a (s\<lparr>peer := None\<rparr>) W"
  have "wired a ?W1" "\<not> socket_list_lock ?W1" using s(4) W by (simp_all add: wired_def setS_def)
  from closed_alone [of ?W1 a "s\<lparr>peer := None\<rparr>", OF _ _ _ _ this] s(2,3) obtain F x ls cs where
    c: "close_socket a ?W1 = Inr (?W1\<lparr>sockets := (sockets ?W1)(a := x), fds := F, local_socket_list := ls,
       local_socket_closing_list := cs\<rparr>)" "fd_inv F" "\<forall>c. c \<noteq> a \<longrightarrow> fdes F c = fdes (fds W) c"
      "if pkts s = [] \<or> closing s then x = None else \<exists>i. x = Some (s\<lparr>peer := None, closing := True, s_id := i\<rparr>)"
    by (auto simp: setS_def)
  let ?W2 = "W\<lparr>sockets := (sockets W)(a := x), fds := F, local_socket_list := ls, local_socket_closing_list := cs\<rparr>"
  let ?W3 = "freeS b (?W2\<lparr>transports := (transports W)(t \<mapsto>
      tr\<lparr>disconnects := remove1 (Remote_socket_disconnect b) (disconnects tr)\<rparr>)\<rparr>)"
  have "remote_socket_disconnect b W = Inr ?W3"
    using r s(1) c(1) ab t by (simp add: remote_socket_disconnect_def remove_transport_disconnect_def setS_def)
  moreover have "let_go a ?W3" using c(4) ab by (auto simp: let_go_def freeS_def split: if_splits)
  moreover have "wired c ?W3" if "c \<noteq> a" "wired c W" for c using that c(2,3) by (simp add: wired_def freeS_def)
  moreover have "sockets ?W3 b = None" "\<not> socket_list_lock ?W3" "\<forall>c. c \<noteq> a \<longrightarrow> c \<noteq> b \<longrightarrow> sockets ?W3 c = sockets W c"
    "transports ?W3 = (transports W)(t \<mapsto> tr\<lparr>disconnects := remove1 (Remote_socket_disconnect b) (disconnects tr)\<rparr>)"
    using W by (simp_all add: freeS_def)
  ultimately show ?thesis using r(1,4) by blast
qed

text \<open>The peers of a list of remote sockets, and what a run over the list leaves alone.\<close>

definition behind :: "addr list \<Rightarrow> world \<Rightarrow> addr set" where
  "behind bs W = {a. \<exists>b \<in> set bs. \<exists>r. sockets W b = Some r \<and> peer r = Some a}"

lemma attached_other:
  assumes "attached t b W" "attached t c W" "b \<noteq> c" "sockets W b = Some r" "peer r = Some a"
    and "\<forall>x. x \<noteq> a \<longrightarrow> x \<noteq> b \<longrightarrow> sockets W' x = sockets W x" "\<forall>x. x \<noteq> a \<longrightarrow> wired x W \<longrightarrow> wired x W'"
  shows "attached t c W'" "c \<noteq> a" "sockets W' c = sockets W c" "a \<notin> behind [c] W" "b \<notin> behind [c] W"
proof -
  from assms(1,4,5) obtain s where s: "sockets W a = Some s" "close s = Local_socket_close" "peer s = Some b" "close r = Remote_socket_close"
    by (auto simp: attached_def)
  from assms(2) obtain r' a' s' where c: "sockets W c = Some r'" "close r' = Remote_socket_close" "s_transport r' = Some t"
    "peer r' = Some a'" "sockets W a' = Some s'" "peer s' = Some c" "close s' = Local_socket_close" "\<not> exit_on_close s'" "wired a' W"
    by (auto simp: attached_def)
  have ne: "c \<noteq> a" "a' \<noteq> a" "a' \<noteq> b" using s c assms(3,4) by auto
  show "c \<noteq> a" by (rule ne(1))
  show "sockets W' c = sockets W c" using assms(3,6) ne(1) by metis
  moreover have "sockets W' a' = Some s'" using assms(6) ne(2,3) c(5) by metis
  ultimately show "attached t c W'" using c assms(7) ne(2) by (auto simp: attached_def)
  show "a \<notin> behind [c] W" "b \<notin> behind [c] W" using c(1,4) ne(2,3) by (auto simp: behind_def)
qed

lemma disconnect_all:
  assumes "\<forall>b \<in> set bs. attached t b W" "distinct bs" "transports W t = Some tr"
    "disconnects tr = map Remote_socket_disconnect bs" "\<not> socket_list_lock W"
  shows "\<exists>W'. disconnect_loop t (map Remote_socket_disconnect bs) W = Inr W' \<and> transports W' = (transports W)(t \<mapsto> tr\<lparr>disconnects := []\<rparr>)
    \<and> \<not> socket_list_lock W' \<and> (\<forall>b \<in> set bs. sockets W' b = None) \<and> (\<forall>a \<in> behind bs W. let_go a W')
    \<and> (\<forall>c. c \<notin> set bs \<longrightarrow> c \<notin> behind bs W \<longrightarrow> sockets W' c = sockets W c)"
  using assms
proof (induction bs arbitrary: W tr)
  case Nil
  then show ?case by (auto simp: behind_def)
next
  case (Cons b bs)
  from disconnected [of t b W tr] Cons.prems obtain W1 r a where
    d: "remote_socket_disconnect b W = Inr W1" "sockets W b = Some r" "peer r = Some a"
      "\<forall>c. c \<noteq> a \<longrightarrow> c \<noteq> b \<longrightarrow> sockets W1 c = sockets W c" "sockets W1 b = None" "let_go a W1"
      "transports W1 = (transports W)(t \<mapsto> tr\<lparr>disconnects := map Remote_socket_disconnect bs\<rparr>)"
      "\<not> socket_list_lock W1" "\<forall>c. c \<noteq> a \<longrightarrow> wired c W \<longrightarrow> wired c W1" by auto
  have other: "attached t c W1" "c \<noteq> a" "sockets W1 c = sockets W c" "a \<notin> behind [c] W" "b \<notin> behind [c] W" if "c \<in> set bs" for c
    using attached_other [of t b W c r a W1] Cons.prems(1,2) that d(2,3,4,9) by auto
  have bh: "behind bs W1 = behind bs W" "a \<notin> behind bs W" "a \<notin> set bs" "behind (b # bs) W = insert a (behind bs W)"
    "b \<notin> behind bs W" using other d(2,3) by (auto simp: behind_def)
  let ?tr1 = "tr\<lparr>disconnects := map Remote_socket_disconnect bs\<rparr>"
  have pre: "\<forall>b \<in> set bs. attached t b W1" "distinct bs" "transports W1 t = Some ?tr1" "disconnects ?tr1 = map Remote_socket_disconnect bs"
    using other(1) Cons.prems(2) d(7) by simp_all
  from Cons.IH [OF pre d(8)] obtain W' where
    W': "disconnect_loop t (map Remote_socket_disconnect bs) W1 = Inr W'" "transports W' = (transports W1)(t \<mapsto> ?tr1\<lparr>disconnects := []\<rparr>)"
      "\<not> socket_list_lock W'" "\<forall>b \<in> set bs. sockets W' b = None" "\<forall>a \<in> behind bs W. let_go a W'"
      "\<forall>c. c \<notin> set bs \<longrightarrow> c \<notin> behind bs W \<longrightarrow> sockets W' c = sockets W1 c" unfolding bh(1) by blast
  have tw: "transports W' = (transports W)(t \<mapsto> tr\<lparr>disconnects := []\<rparr>)" unfolding W'(2) d(7) by simp
  have later: "filter (\<lambda>x. x \<in> set (disconnects tr)) (map Remote_socket_disconnect bs) = map Remote_socket_disconnect bs"
    using Cons.prems(4) by (auto simp: filter_id_conv)
  have "disconnect_loop t (map Remote_socket_disconnect (b # bs)) W = Inr W'"
    using Cons.prems(3) d(1,7) W'(1) later by (cases bs) (simp_all add: disconnect_func_def)
  moreover have "let_go a W'" using W'(6) bh(2,3) d(6) by (simp add: let_go_def)
  moreover have "sockets W' b = None" using W'(6) bh(5) Cons.prems(2) d(5) by simp
  moreover have "sockets W' c = sockets W c" if "c \<notin> set (b # bs)" "c \<notin> behind (b # bs) W" for c
    using that W'(6) d(4) bh(4) by auto
  ultimately show ?case using W'(3-5) tw bh(4) by auto
qed

section \<open>Properties\<close>

text \<open>C9: An OPEN from a device that is online leads to exactly one answer. If the service cannot be reached, the answer is a
  CLSE for the device's id and nothing else changes but what starting the service changed. Otherwise a new local
  socket with the next id is connected to a new remote socket with the device's id, the socket reads from the
  service's descriptor, the transport knows the remote socket, and the answer is an OKAY with both ids.\<close>

theorem open_connects_service:
  assumes t: "transports W t = Some tr" "connection_state tr \<noteq> CS_OFFLINE" "\<not> pair_broken tr"
    and p: "command (msg p) = A_OPEN" "rid = arg0 (msg p)"
    and svc: "service_to_fd E (c_str (take (unat (data_length (msg p)) - 1) (data p))) W = (fd, W0)"
    and W: "can_allocate W" "\<not> socket_list_lock W" "fd < 0 \<or> fresh_fd fd (fds W)"
  shows "\<exists>W'. handle_packet E p t W = Inr W'
    \<and> (if fd < 0 then W' = W0\<lparr>transports := (transports W)(t \<mapsto> tr\<lparr>to_threads := to_threads tr @ [clse 0 rid]\<rparr>)\<rparr>
       else let a = next_addr W; b = a + 1; lid = local_socket_next_id W;
              s = blank_socket\<lparr>s_fd := fd, s_id := lid, peer := Some b\<rparr>;
              tr' = tr\<lparr>disconnects := disconnects tr @ [Remote_socket_disconnect b], to_threads := to_threads tr @ [okay lid rid]\<rparr>
         in connected_pair a s b (remote_half rid t a) t tr' W' \<and> transports W' = (transports W)(t \<mapsto> tr')
          \<and> local_socket_list W' = local_socket_list W @ [a] \<and> local_socket_next_id W' = lid + 1
          \<and> (\<exists>f. fdes (fds W') a = Some f \<and> has (fde_state f) FDE_READ))"
proof -
  from service_to_fd_frame [OF svc] obtain sp sh where W0: "W0 = W\<lparr>spawned := sp, shut_fds := sh\<rparr>" by blast
  have hp: "handle_packet E p t W = handle_open E p t W"
    using t p by (simp add: handle_packet_def command_defs)
  show ?thesis
  proof (cases "fd < 0")
    case True
    then show ?thesis unfolding hp using t p svc W0
      by (simp add: handle_open_def create_local_service_socket_def send_close_def send_packet_def clse_def)
  next
    case False
    define a where "a = next_addr W"
    let ?lid = "local_socket_next_id W"
    from W False have "can_allocate W0" "fresh_fd fd (fds W0)" by (auto simp: can_allocate_def W0)
    from created_socket [OF this] obtain F where F: "create_local_socket fd W0 = Inr (a, W0\<lparr>next_addr := a + 1,
       sockets := (sockets W)(a \<mapsto> blank_socket\<lparr>s_fd := fd, s_id := ?lid\<rparr>),
       local_socket_next_id := ?lid + 1, local_socket_list := local_socket_list W @ [a], fds := F\<rparr>)" "wired a (W0\<lparr>fds := F\<rparr>)"
      by (auto simp: W0 a_def)
    let ?b = "a + 1" let ?s = "blank_socket\<lparr>s_fd := fd, s_id := ?lid, peer := Some ?b\<rparr>" let ?r = "remote_half rid t a"
    let ?tr = "tr\<lparr>disconnects := disconnects tr @ [Remote_socket_disconnect ?b], to_threads := to_threads tr @ [okay ?lid rid]\<rparr>"
    let ?W4 = "W0\<lparr>local_socket_next_id := ?lid + 1, local_socket_list := local_socket_list W @ [a], fds := F,
       next_addr := a + 2, sockets := (sockets W)(a \<mapsto> ?s, ?b \<mapsto> ?r), transports := (transports W)(t \<mapsto> ?tr)\<rparr>"
    have "wired a ?W4" using F(2) by (simp add: wired_def)
    moreover have s4: "sockets ?W4 a = Some ?s" "ready ?s = Local_socket_ready" by (simp_all add: blank_socket_def)
    ultimately obtain F' f where F': "ready_socket E a ?W4 = Inr (?W4\<lparr>fds := F'\<rparr>)" "wired a (?W4\<lparr>fds := F'\<rparr>)"
      "fdes F' a = Some f" "has (fde_state f) FDE_READ" using ready_local [of ?W4 a ?s E] by blast
    have "handle_open E p t W = ready_socket E a ?W4"
      using t p(2) svc False F(1)
      by (simp add: handle_open_def create_local_service_socket_def created_remote [where a = a] W0 send_ready_def
          send_packet_def okay_def setS_def blank_socket_def remote_half_def fun_upd_twist numeral_2_eq_2)
    moreover have "connected_pair a ?s ?b ?r t ?tr (?W4\<lparr>fds := F'\<rparr>)"
      using F'(2) t(3) W(2) by (simp add: connected_pair_def blank_socket_def remote_half_def W0)
    ultimately show ?thesis unfolding hp using False F'
      by (auto simp: Let_def a_def numeral_2_eq_2)
  qed
qed

definition open_packet :: apacket where
  "open_packet = get_apacket\<lparr>data := ''tcp:80'' @ [NUL], msg := zero_msg\<lparr>command := A_OPEN, arg0 := 42, data_length := 7\<rparr>\<rparr>"

lemma pair_can_allocate: "can_allocate pair_world"
proof -
  have "fdes sample_fds a = None" if "30 \<le> a" for a
    using that by (cases "fdes sample_fds a") (auto simp: sample_simps)
  then show ?thesis by (simp add: can_allocate_def pair_world_def sample_fd_inv)
qed

theorem open_connects_service_witness:
  "\<exists>W' s tr. handle_packet (offline_env\<lparr>loopback_client := (\<lambda>_. 9)\<rparr>) open_packet 20 pair_world = Inr W'
     \<and> connected_pair 30 s 31 (remote_half 42 20 30) 20 tr W' \<and> to_threads tr = [okay 2 42]"
proof -
  let ?E = "offline_env\<lparr>loopback_client := (\<lambda>_. 9)\<rparr>"
  have name: "c_str (take (unat (data_length (msg open_packet)) - 1) (data open_packet)) = ''tcp:80''"
    by (simp add: open_packet_def c_str_def)
  have svc: "service_to_fd ?E (c_str (take (unat (data_length (msg open_packet)) - 1) (data open_packet))) pair_world = (9, pair_world)"
    unfolding name by (simp add: service_to_fd_def starts_with_def strchr_def)
  have fresh: "fresh_fd 9 (fds pair_world)"
    using sample_used by (simp add: fresh_fd_def pair_world_def FD_SETSIZE_def)
  have tr: "transports pair_world 20 = Some pair_transport" "connection_state pair_transport \<noteq> CS_OFFLINE"
    "\<not> pair_broken pair_transport" "command (msg open_packet) = A_OPEN" "42 = arg0 (msg open_packet)"
    "\<not> socket_list_lock pair_world"
    by (simp_all add: pair_defs dev_def blank_transport_def open_packet_def world_init_def)
  let ?tr = "pair_transport\<lparr>disconnects := disconnects pair_transport @ [Remote_socket_disconnect 31],
    to_threads := to_threads pair_transport @ [okay 2 42]\<rparr>"
  have n: "next_addr pair_world = 30" "local_socket_next_id pair_world = 2" by (simp_all add: pair_world_def)
  from open_connects_service [OF tr(1-5) svc pair_can_allocate tr(6)] fresh
  have "\<exists>W' s. handle_packet ?E open_packet 20 pair_world = Inr W' \<and> connected_pair 30 s 31 (remote_half 42 20 30) 20 ?tr W'"
    unfolding n by (auto simp: Let_def)
  moreover have "to_threads ?tr = [okay 2 42]" by (simp add: pair_transport_def dev_def blank_transport_def)
  ultimately show ?thesis by blast
qed

text \<open>C18: The first OKAY for a client's socket that waits for its connection connects it: a remote socket with the device's id
  becomes its peer, the client is told OKAY, from now on its data is read, and closing it no longer reports a failure.\<close>

theorem okay_completes_connection:
  assumes t: "transports W t = Some tr" "connection_state tr \<noteq> CS_OFFLINE" "\<not> pair_broken tr"
    and p: "command (msg p) = A_OKAY" "find_local_socket (arg1 (msg p)) W = Inr (Some a)"
    and s: "sockets W a = Some s" "peer s = None" "ready s = Local_socket_ready_notify" "\<not> exit_on_close s" "wired a W"
    and W: "a < next_addr W" "\<not> socket_list_lock W" "fst (w_write (s_fd s) ''OKAY'' W) = Inr 4"
  shows "\<exists>W'. handle_packet E p t W = Inr W' \<and> written W' (s_fd s) = written W (s_fd s) @ ''OKAY''
    \<and> (let b = next_addr W in
        connected_pair a (s\<lparr>peer := Some b, ready := Local_socket_ready, close := Local_socket_close\<rparr>)
          b (remote_half (arg0 (msg p)) t a) t (tr\<lparr>disconnects := disconnects tr @ [Remote_socket_disconnect b]\<rparr>) W')
    \<and> (\<exists>f. fdes (fds W') a = Some f \<and> has (fde_state f) FDE_READ)"
proof -
  define b where "b = next_addr W"
  let ?s = "s\<lparr>peer := Some b, ready := Local_socket_ready, close := Local_socket_close\<rparr>"
  let ?tr = "tr\<lparr>disconnects := disconnects tr @ [Remote_socket_disconnect b]\<rparr>"
  have ab: "a \<noteq> b" using W(1) by (simp add: b_def)
  obtain q where q: "adb_write (length ''OKAY'') (outgoing W (s_fd s)) = (Inr 4, q)"
    using W(3) unfolding w_write_def by (cases "adb_write (length ''OKAY'') (outgoing W (s_fd s))") auto
  let ?W3 = "W\<lparr>next_addr := b + 1, transports := (transports W)(t \<mapsto> ?tr),
      sockets := (sockets W)(a \<mapsto> ?s, b \<mapsto> remote_half (arg0 (msg p)) t a), outgoing := (outgoing W)(s_fd s := q),
      written := (written W)(s_fd s := written W (s_fd s) @ ''OKAY'')\<rparr>"
  have w3: "wired a ?W3" using s(5) by (simp add: wired_def)
  from wired_add [OF this, of FDE_READ] obtain F f where F: "on_fds (fdevent_add a FDE_READ) ?W3 = Inr (?W3\<lparr>fds := F\<rparr>)"
    "wired a (?W3\<lparr>fds := F\<rparr>)" "fdes F a = Some f" "has (fde_state f) FDE_READ" by auto
  have "handle_packet E p t W = handle_okay E p t W" using t p by (simp add: handle_packet_def command_defs)
  also have "\<dots> = local_socket_ready a ?W3"
    using t p(2) s ab q
    by (simp add: handle_okay_def created_remote [where a = a] b_def [symmetric] setS_def remote_half_def blank_socket_def
        ready_socket_def sock_ready_def local_socket_ready_notify_def w_write_def fun_upd_twist)
  also have "\<dots> = Inr (?W3\<lparr>fds := F\<rparr>)" using F(1) ab by (simp add: local_socket_ready_def)
  finally have run: "handle_packet E p t W = Inr (?W3\<lparr>fds := F\<rparr>)" .
  have "connected_pair a ?s b (remote_half (arg0 (msg p)) t a) t ?tr (?W3\<lparr>fds := F\<rparr>)"
    using F(2) s t W ab by (simp add: connected_pair_def remote_half_def)
  with run F show ?thesis by (auto simp: Let_def b_def)
qed

definition waiting_client :: world where
  "waiting_client = pair_world\<lparr>sockets := [1 \<mapsto> pair_local\<lparr>peer := None, ready := Local_socket_ready_notify,
     close := Local_socket_close_notify\<rparr>], outgoing := (\<lambda>_. [WOk 4])\<rparr>"

definition device_packet :: "u32 \<Rightarrow> u32 \<Rightarrow> bytes \<Rightarrow> apacket" where
  "device_packet c i bs = get_apacket\<lparr>data := bs, msg := zero_msg\<lparr>command := c, arg0 := i, arg1 := 1, data_length := of_nat (length bs)\<rparr>\<rparr>"

theorem okay_completes_connection_witness:
  "\<exists>W'. handle_packet offline_env (device_packet A_OKAY 77 []) 20 waiting_client = Inr W' \<and> written W' 5 = ''OKAY''"
proof -
  let ?s = "pair_local\<lparr>peer := None, ready := Local_socket_ready_notify, close := Local_socket_close_notify\<rparr>"
  let ?p = "device_packet A_OKAY 77 []"
  have pre: "transports waiting_client 20 = Some pair_transport" "connection_state pair_transport \<noteq> CS_OFFLINE"
    "\<not> pair_broken pair_transport" "command (msg ?p) = A_OKAY" "find_local_socket (arg1 (msg ?p)) waiting_client = Inr (Some 1)"
    "sockets waiting_client 1 = Some ?s" "peer ?s = None" "ready ?s = Local_socket_ready_notify" "\<not> exit_on_close ?s"
    by (simp_all add: waiting_client_def pair_defs dev_def blank_transport_def device_packet_def blank_socket_def
        find_local_socket_def world_init_def)
  have w: "wired 1 waiting_client" using pair_wired by (simp add: wired_def waiting_client_def)
  have fd: "s_fd ?s = 5" "written waiting_client 5 = []" by (simp_all add: waiting_client_def pair_defs world_init_def)
  have out: "1 < next_addr waiting_client" "\<not> socket_list_lock waiting_client"
    "fst (w_write (s_fd ?s) ''OKAY'' waiting_client) = Inr 4"
    by (simp_all add: waiting_client_def pair_defs world_init_def w_write_def)
  from okay_completes_connection [OF pre w out, of offline_env] show ?thesis unfolding fd by auto
qed

text \<open>C4: Data from the device is passed on with flow control: unless a write to the socket's descriptor fails, the payload of a WRTE is written to the socket's descriptor or
  queued, in order and completely, and the device gets an OKAY with both ids at once if everything could be written;
  while packets are queued it gets none.\<close>

theorem write_flow_control:
  assumes t: "transports W t = Some tr" "connection_state tr \<noteq> CS_OFFLINE" "\<not> pair_broken tr"
    and p: "command (msg p) = A_WRTE" "find_local_socket (arg1 (msg p)) W = Inr (Some a)" "wf_packet p"
    and s: "sockets W a = Some s" "enqueue s = Local_socket_enqueue" "wired a W"
    and ok: "pkts s \<noteq> [] \<or> fst (enqueue_write (s_fd s) (p\<lparr>p_len := unat (data_length (msg p)), p_ptr := 0\<rparr>) W) \<noteq> Broken"
  shows "\<exists>W' s'. handle_packet E p t W = Inr W' \<and> sockets W' a = Some s'
    \<and> written W' (s_fd s) @ queued s' = written W (s_fd s) @ queued s @ payload p
    \<and> transports W' = (if pkts s' = []
        then (transports W)(t \<mapsto> tr\<lparr>to_threads := to_threads tr @ [okay (s_id s) (arg0 (msg p))]\<rparr>)
        else transports W)
    \<and> (pkts s' \<noteq> [] \<longrightarrow> (\<exists>f. fdes (fds W') a = Some f \<and> has (fde_state f) FDE_WRITE))"
proof -
  let ?p = "p\<lparr>p_len := unat (data_length (msg p))\<rparr>"
  have "p_len ?p \<le> length (data ?p)" using p(3) by (simp add: wf_packet_def)
  moreover have "pkts s \<noteq> [] \<or> fst (enqueue_write (s_fd s) (?p\<lparr>p_ptr := 0\<rparr>) W) \<noteq> Broken" using ok by simp
  ultimately obtain r W1 ps where e: "local_socket_enqueue a ?p W = Inr (r, W1)" "sockets W1 = (sockets W)(a \<mapsto> s\<lparr>pkts := ps\<rparr>)"
    "written W1 (s_fd s) @ concat (map unsent ps) = written W (s_fd s) @ queued s @ payload p"
    "r = 0 \<longleftrightarrow> ps = []" "r = 0 \<or> r = 1" "transports W1 = transports W"
    "r = 1 \<longrightarrow> (\<exists>f. fdes (fds W1) a = Some f \<and> has (fde_state f) FDE_WRITE)"
    using local_enqueue_result [OF s(1,3), of ?p] by (auto simp: payload_def)
  have "handle_packet E p t W = handle_wrte E p t W" using t p by (simp add: handle_packet_def command_defs)
  also have "\<dots> = (if ps = [] then Inr (W1\<lparr>transports := (transports W)(t \<mapsto>
      tr\<lparr>to_threads := to_threads tr @ [okay (s_id s) (arg0 (msg p))]\<rparr>)\<rparr>) else Inr W1)"
    using p(2) s(1,2) e(1,2,4,6) t
    by (simp add: handle_wrte_def enqueue_socket_def enqueue_depth_def eval_nat_numeral send_ready_def send_packet_def okay_def)
  finally show ?thesis using e(2-7) by (auto simp: queued_def)
qed

theorem write_flow_control_witness:
  "\<exists>W' s'. handle_packet offline_env (device_packet A_WRTE 77 ''abc'') 20 pair_world = Inr W' \<and> sockets W' 1 = Some s'
     \<and> written W' 5 @ queued s' = ''abc''"
proof -
  let ?p = "device_packet A_WRTE 77 ''abc''"
  have pre: "transports pair_world 20 = Some pair_transport" "connection_state pair_transport \<noteq> CS_OFFLINE"
    "\<not> pair_broken pair_transport" "command (msg ?p) = A_WRTE" "find_local_socket (arg1 (msg ?p)) pair_world = Inr (Some 1)"
    "wf_packet ?p" "sockets pair_world 1 = Some pair_local" "enqueue pair_local = Local_socket_enqueue"
    by (simp_all add: pair_defs dev_def blank_transport_def device_packet_def blank_socket_def find_local_socket_def
        world_init_def wf_packet_def MAX_PAYLOAD_def)
  have "fst (enqueue_write 5 (?p\<lparr>p_len := unat (data_length (msg ?p)), p_ptr := 0\<rparr>) pair_world) \<noteq> Broken"
    by (simp add: enqueue_write.simps w_write_def unsent_def pair_world_def device_packet_def get_apacket_def)
  moreover have z: "s_fd pair_local = 5" "written pair_world 5 = []" "queued pair_local = []" "payload ?p = ''abc''"
    by (simp_all add: pair_defs world_init_def queued_def blank_socket_def payload_def device_packet_def)
  ultimately have ok: "pkts pair_local \<noteq> [] \<or>
    fst (enqueue_write (s_fd pair_local) (?p\<lparr>p_len := unat (data_length (msg ?p)), p_ptr := 0\<rparr>) pair_world) \<noteq> Broken" by simp
  from write_flow_control [OF pre pair_wired ok, of offline_env] show ?thesis unfolding z by auto
qed

text \<open>C7: When the threads report that a device is gone (SYNC 0), the transport goes offline and every connection over it is
  torn down: each remote socket is freed, the local socket behind it is destroyed or only kept to drain what it still
  has queued, other sockets are untouched, no freed memory is used on the way, and the report is then passed on to the input thread as the last thing. (The device is one no port is forwarded to: only remote sockets wait for its disconnect.)\<close>

theorem offline_tears_down_connections:
  assumes t: "transports W t = Some tr" "\<not> pair_broken tr" "disconnects tr = map Remote_socket_disconnect bs"
    and bs: "\<forall>b \<in> set bs. attached t b W" "distinct bs" and W: "\<not> socket_list_lock W"
    and p: "command (msg p) = A_SYNC" "arg0 (msg p) = 0"
  shows "\<exists>W'. handle_packet E p t W = Inr W' \<and> (\<forall>b \<in> set bs. sockets W' b = None) \<and> (\<forall>a \<in> behind bs W. let_go a W')
    \<and> (\<forall>c. c \<notin> set bs \<longrightarrow> c \<notin> behind bs W \<longrightarrow> sockets W' c = sockets W c)
    \<and> transports W' = (transports W)(t \<mapsto> tr\<lparr>connection_state := CS_OFFLINE, disconnects := [],
         to_threads := to_threads tr @ [seal_packet p]\<rparr>)"
proof -
  let ?tr = "tr\<lparr>connection_state := CS_OFFLINE\<rparr>" let ?W = "W\<lparr>transports := (transports W)(t \<mapsto> ?tr)\<rparr>"
  have pre: "\<forall>b \<in> set bs. attached t b ?W" "transports ?W t = Some ?tr" "disconnects ?tr = map Remote_socket_disconnect bs"
    "\<not> socket_list_lock ?W" using bs t W by (simp_all add: attached_def wired_def)
  have bh: "behind bs ?W = behind bs W" by (simp add: behind_def)
  from disconnect_all [OF pre(1) bs(2) pre(2,3,4)] obtain W1 where
    W1: "disconnect_loop t (map Remote_socket_disconnect bs) ?W = Inr W1" "transports W1 = (transports W)(t \<mapsto> ?tr\<lparr>disconnects := []\<rparr>)"
      "\<forall>b \<in> set bs. sockets W1 b = None" "\<forall>a \<in> behind bs W. let_go a W1"
      "\<forall>c. c \<notin> set bs \<longrightarrow> c \<notin> behind bs W \<longrightarrow> sockets W1 c = sockets W c" unfolding bh by auto
  have "handle_packet E p t W = send_packet p (Some t) W1"
    using t p W1(1) by (simp add: handle_packet_def handle_sync_def set_state_def handle_offline_def run_transport_disconnects_def)
  also have "\<dots> = Inr (W1\<lparr>transports := (transports W)(t \<mapsto> tr\<lparr>connection_state := CS_OFFLINE, disconnects := [],
         to_threads := to_threads tr @ [seal_packet p]\<rparr>)\<rparr>)"
    using W1(2) t(2) by (simp add: send_packet_def)
  finally show ?thesis using W1(3-5) by (simp add: let_go_def)
qed

theorem offline_tears_down_connections_witness:
  "\<exists>W' tr. handle_packet offline_env (device_packet A_SYNC 0 []) 20 pair_world = Inr W' \<and> sockets W' 3 = None
     \<and> let_go 1 W' \<and> transports W' 20 = Some tr \<and> disconnects tr = [] \<and> connection_state tr = CS_OFFLINE"
proof -
  have pre: "transports pair_world 20 = Some pair_transport" "\<not> pair_broken pair_transport"
    "disconnects pair_transport = map Remote_socket_disconnect [3]" "distinct [3 :: addr]" "\<not> socket_list_lock pair_world"
    "command (msg (device_packet A_SYNC 0 [])) = A_SYNC" "arg0 (msg (device_packet A_SYNC 0 [])) = 0"
    by (simp_all add: pair_defs dev_def blank_transport_def world_init_def device_packet_def)
  have s: "sockets pair_world 1 = Some pair_local" "sockets pair_world 3 = Some pair_remote"
    "peer pair_remote = Some 1" "close pair_remote = Remote_socket_close" "s_transport pair_remote = Some 20"
    "peer pair_local = Some 3" "close pair_local = Local_socket_close" "\<not> exit_on_close pair_local"
    by (simp_all add: pair_defs blank_socket_def)
  have "\<forall>b \<in> set [3]. attached 20 b pair_world" using s pair_wired by (simp add: attached_def)
  from offline_tears_down_connections [OF pre(1-3) this pre(4-7), of offline_env] s(2,3) show ?thesis
    by (auto simp: behind_def)
qed

end
