(* ===== verification/Transport_Threads.thy ===== *)
theory Transport_Threads
  imports Adb_Server
begin

text \<open>
  The two threads of a transport (transport.c) and the turns of the event loop (fdevent.c). A thread is a program
  counter and a step function, so that its steps can interleave with those of the event loop; \<open>rd\<close> and \<open>wr\<close>
  stand for the function pointers \<^verbatim>\<open>read_from_remote\<close> and \<^verbatim>\<open>write_to_remote\<close> of the transport.
\<close>

section \<open>The threads of a transport\<close>

type_synonym read_call = "addr \<Rightarrow> world \<Rightarrow> (int \<times> apacket \<times> world) res"
type_synonym write_call = "apacket \<Rightarrow> addr \<Rightarrow> world \<Rightarrow> (int \<times> world) res"

text \<open>\<^verbatim>\<open>read_from_remote\<close> and \<^verbatim>\<open>write_to_remote\<close> of a socket transport; once it has been kicked its descriptor is
  \<open>-1\<close> and the kernel refuses both.\<close>

definition socket_read :: read_call where
  "socket_read t W =
     rbind (getT t W) (\<lambda>tr.
       if sfd tr < 0 then Inr (-1, get_apacket, W)
       else case remote_read get_apacket (incoming W (sfd tr)) of
         (r, p, q) \<Rightarrow> Inr (r, p, W\<lparr>incoming := (incoming W)(sfd tr := q)\<rparr>))"

definition socket_write :: write_call where
  "socket_write p t W =
     rbind (getT t W) (\<lambda>tr.
       if sfd tr < 0 then Inr (-1, W)
       else case remote_write p (outgoing W (sfd tr)) of
         (r, sent, q) \<Rightarrow>
           Inr (r, W\<lparr>outgoing := (outgoing W)(sfd tr := q),
                     written := (written W)(sfd tr := written W (sfd tr) @ sent)\<rparr>))"

text \<open>\<^verbatim>\<open>write_packet(t->fd, ...)\<close>: whether it succeeded.\<close>

definition thread_write :: "apacket \<Rightarrow> addr \<Rightarrow> world \<Rightarrow> (bool \<times> world) res" where
  "thread_write p t W =
     rbind (getT t W) (\<lambda>tr.
       if pair_broken tr then Inr (False, W)
       else rbind (updT t (\<lambda>tr. tr\<lparr>to_loop := to_loop tr @ [p]\<rparr>) W) (\<lambda>W1. Inr (True, W1)))"

definition sync_packet :: "u32 \<Rightarrow> u32 \<Rightarrow> apacket" where
  "sync_packet x y =
     get_apacket\<lparr>msg := zero_msg\<lparr>command := A_SYNC, arg0 := x, arg1 := y, magic := A_SYNC XOR 0xffffffff\<rparr>\<rparr>"

text \<open>The output thread: announce itself, pump packets from the device to the event loop until a read fails,
  announce the end, then kick the transport and drop its reference. Marking the transport, calling its \<^verbatim>\<open>kick\<close> and dropping the reference
  are three steps: the locks are released in between.\<close>

datatype out_pc = Out_online | Out_pump | Out_offline | Out_oops | Out_kick | Out_unref | Out_ended

definition output_step :: "read_call \<Rightarrow> addr \<Rightarrow> out_pc \<Rightarrow> world \<Rightarrow> (out_pc \<times> world) res" where
  "output_step rd t pc W =
     (case pc of
        Out_online \<Rightarrow>
          rbind (updT t (\<lambda>tr. tr\<lparr>sync_token := sync_token tr + 1\<rparr>) W) (\<lambda>W1.
          rbind (getT t W1) (\<lambda>tr.
          rbind (thread_write (sync_packet 1 (sync_token tr)) t W1) (\<lambda>(sent, W2).
            Inr (if sent then Out_pump else Out_oops, W2))))
      | Out_pump \<Rightarrow>
          rbind (rd t W) (\<lambda>(r, p, W1).
            if r = 0 then
              rbind (thread_write p t W1) (\<lambda>(sent, W2). Inr (if sent then Out_pump else Out_oops, W2))
            else Inr (Out_offline, W1))
      | Out_offline \<Rightarrow> rbind (thread_write (sync_packet 0 0) t W) (\<lambda>(sent, W1). Inr (Out_oops, W1))
      | Out_oops \<Rightarrow> rbind (kick_mark t W) (\<lambda>(first, W1). Inr (if first then Out_kick else Out_unref, W1))
      | Out_kick \<Rightarrow> rbind (t_kick t W) (\<lambda>W1. Inr (Out_unref, W1))
      | Out_unref \<Rightarrow> rbind (transport_unref (Some t) W) (\<lambda>W1. Inr (Out_ended, W1))
      | Out_ended \<Rightarrow> Inr (Out_ended, W))"

text \<open>The input thread: take packets from the event loop; a SYNC with the current token opens the way to the
  device, a SYNC with 0 ends the thread. With nothing to read the thread waits. On its way out it closes the sockets of the
  transport, then goes on as the output thread does.\<close>

datatype in_pc = In_read bool | In_exit | In_oops | In_kick | In_unref | In_ended

definition input_step :: "write_call \<Rightarrow> addr \<Rightarrow> in_pc \<Rightarrow> world \<Rightarrow> (in_pc \<times> world) res" where
  "input_step wr t pc W =
     (case pc of
        In_read act \<Rightarrow>
          rbind (getT t W) (\<lambda>tr.
            case to_threads tr of
              [] \<Rightarrow> Inr (if pair_broken tr then In_exit else In_read act, W)
            | p # ps \<Rightarrow>
                rbind (updT t (\<lambda>tr. tr\<lparr>to_threads := ps\<rparr>) W) (\<lambda>W1.
                  if command (msg p) = A_SYNC then
                    if arg0 (msg p) = 0 then Inr (In_exit, W1)
                    else Inr (In_read (act \<or> arg1 (msg p) = sync_token tr), W1)
                  else if act then rbind (wr p t W1) (\<lambda>(r, W2). Inr (In_read act, W2))
                  else Inr (In_read act, W1)))
      | In_exit \<Rightarrow> rbind (close_all_sockets t W) (\<lambda>W1. Inr (In_oops, W1))
      | In_oops \<Rightarrow> rbind (kick_mark t W) (\<lambda>(first, W1). Inr (if first then In_kick else In_unref, W1))
      | In_kick \<Rightarrow> rbind (t_kick t W) (\<lambda>W1. Inr (In_unref, W1))
      | In_unref \<Rightarrow> rbind (transport_unref (Some t) W) (\<lambda>W1. Inr (In_ended, W1))
      | In_ended \<Rightarrow> Inr (In_ended, W))"

text \<open>A thread that runs without interruption: the loop goes on until the thread has ended, and need not end.\<close>

partial_function (option) output_thread :: "read_call \<Rightarrow> addr \<Rightarrow> out_pc \<Rightarrow> world \<Rightarrow> world res option" where
  "output_thread rd t pc W =
     (if pc = Out_ended then Some (Inr W)
      else case output_step rd t pc W of
        Inl f \<Rightarrow> Some (Inl f)
      | Inr (pc', W') \<Rightarrow> output_thread rd t pc' W')"

partial_function (option) input_thread :: "write_call \<Rightarrow> addr \<Rightarrow> in_pc \<Rightarrow> world \<Rightarrow> world res option" where
  "input_thread wr t pc W =
     (if pc = In_ended then Some (Inr W)
      else case input_step wr t pc W of
        Inl f \<Rightarrow> Some (Inl f)
      | Inr (pc', W') \<Rightarrow> input_thread wr t pc' W')"

section \<open>The event loop\<close>

text \<open>One callback; \<open>acc\<close> is what \<^verbatim>\<open>adb_socket_accept\<close> yields for a descriptor, \<open>pair\<close> what
  \<^verbatim>\<open>adb_socketpair\<close> yields. The result names the transport whose threads have been started, if any.\<close>

definition plain_fdfunc ::
    "net_env \<Rightarrow> (int \<Rightarrow> int) \<Rightarrow> (int \<times> int) option \<Rightarrow> fdcall \<Rightarrow> world \<Rightarrow> (addr option \<times> world) res" where
  "plain_fdfunc E acc pair c W =
     (case c of
        (Local_socket_event_func, fd, ev, a) \<Rightarrow> rbind (local_socket_event_func E fd ev a W) (\<lambda>W1. Inr (None, W1))
      | (Ss_listener_event_func, fd, ev, a) \<Rightarrow> rbind (ss_listener_event_func E (acc fd) ev W) (\<lambda>W1. Inr (None, W1))
      | (Listener_event_func, fd, ev, a) \<Rightarrow> rbind (listener_event_func (acc fd) ev a W) (\<lambda>W1. Inr (None, W1))
      | (Transport_socket_events, fd, ev, a) \<Rightarrow> rbind (transport_socket_events E ev a W) (\<lambda>W1. Inr (None, W1))
      | (Transport_registration_func, fd, ev, a) \<Rightarrow> transport_registration_func E pair ev W
      | (Fdevent_subproc_event_func, fd, ev, a) \<Rightarrow> Inr (None, W))"

text \<open>The callback for exited subprocesses may call one other callback; \<open>rcount\<close> is what \<^verbatim>\<open>FIONREAD\<close> answers.\<close>

definition call_fdfunc ::
    "net_env \<Rightarrow> (int \<Rightarrow> int) \<Rightarrow> (int \<times> int) option \<Rightarrow> (int \<Rightarrow> int) \<Rightarrow> fdcall \<Rightarrow> world \<Rightarrow> (addr option \<times> world) res" where
  "call_fdfunc E acc pair rcount c W =
     (case c of
        (Fdevent_subproc_event_func, fd, ev, a) \<Rightarrow>
          rbind (fdevent_subproc_event_func fd ev (incoming W fd) rcount (fds W)) (\<lambda>(c', q, F).
            let W1 = W\<lparr>fds := F, incoming := (incoming W)(fd := q)\<rparr> in
            case c' of None \<Rightarrow> Inr (None, W1) | Some c' \<Rightarrow> plain_fdfunc E acc pair c' W1)
      | _ \<Rightarrow> plain_fdfunc E acc pair c W)"

text \<open>One turn of \<^verbatim>\<open>while((fde = fdevent_plist_dequeue())) fdevent_call_fdfunc(fde)\<close>; \<open>None\<close> when nothing is
  pending.\<close>

definition loop_turn ::
    "net_env \<Rightarrow> (int \<Rightarrow> int) \<Rightarrow> (int \<times> int) option \<Rightarrow> (int \<Rightarrow> int) \<Rightarrow> world \<Rightarrow> (addr option \<times> world) option res" where
  "loop_turn E acc pair rcount W =
     rbind (fdevent_next (fds W)) (\<lambda>r.
       case r of
         None \<Rightarrow> Inr None
       | Some (c, F) \<Rightarrow>
           (case c of
              None \<Rightarrow> Inr (Some (None, W\<lparr>fds := F\<rparr>))
            | Some c \<Rightarrow> rbind (call_fdfunc E acc pair rcount c (W\<lparr>fds := F\<rparr>)) (\<lambda>x. Inr (Some x))))"

definition loop_wait :: "select_result \<Rightarrow> (nat \<Rightarrow> bool) \<Rightarrow> world \<Rightarrow> world res" where
  "loop_wait sel bad W = on_fds (fdevent_process sel bad) W"

definition init_transport_registration :: "(int \<times> int) option \<Rightarrow> world \<Rightarrow> world res" where
  "init_transport_registration pair W =
     (case pair of
        None \<Rightarrow> Inl (Fatal ''cannot open transport registration socketpair'')
      | Some (s0, s1) \<Rightarrow>
          let a = next_addr W in
          rbind (on_fds (fdevent_install a s1 Transport_registration_func 0) (W\<lparr>next_addr := a + 1\<rparr>))
            (on_fds (fdevent_set a FDE_READ)))"

section \<open>Runs of the threads\<close>

text \<open>A packet that passes the checks of the receiving side.\<close>

definition good_packet :: "apacket \<Rightarrow> bool" where
  "good_packet p \<longleftrightarrow> wf_packet p \<and> check_header p = 0 \<and> check_data p = 0"

text \<open>What the receiving side makes of it: the header and the payload.\<close>

definition received :: "apacket \<Rightarrow> apacket" where
  "received p = get_apacket\<lparr>msg := msg p, data := payload p\<rparr>"

lemma output_step_go:
  assumes "output_step rd t pc W = Inr (pc', W')" "pc \<noteq> Out_ended"
  shows "output_thread rd t pc W = output_thread rd t pc' W'"
  using assms by (simp add: output_thread.simps [of rd t pc W])

lemma input_step_go:
  assumes "input_step wr t pc W = Inr (pc', W')" "pc \<noteq> In_ended"
  shows "input_thread wr t pc W = input_thread wr t pc' W'"
  using assms by (simp add: input_thread.simps [of wr t pc W])

lemma pump_run:
  assumes "transports W t = Some tr" "0 \<le> sfd tr" "\<not> pair_broken tr" "\<forall>p \<in> set ps. good_packet p"
    "readable (incoming W (sfd tr)) = concat (map packet_bytes ps)"
  shows "\<exists>q. output_thread socket_read t Out_pump W =
    output_thread socket_read t Out_offline (W\<lparr>incoming := (incoming W)(sfd tr := q),
      transports := (transports W)(t \<mapsto> tr\<lparr>to_loop := to_loop tr @ map received ps\<rparr>)\<rparr>)"
  using assms
proof (induction ps arbitrary: W tr)
  case Nil
  obtain r p q where rd: "remote_read get_apacket (incoming W (sfd tr)) = (r, p, q)" by (metis prod_cases3)
  have "r \<noteq> 0"
    using rx.decode_short [of "incoming W (sfd tr)" get_apacket] Nil.prems(5) rd by (simp add: remote_read_eq sizeof_amessage_def)
  then have "output_step socket_read t Out_pump W = Inr (Out_offline, W\<lparr>incoming := (incoming W)(sfd tr := q)\<rparr>)"
    using Nil.prems(1,2) rd by (simp add: output_step_def socket_read_def)
  then have "output_thread socket_read t Out_pump W = output_thread socket_read t Out_offline (W\<lparr>incoming := (incoming W)(sfd tr := q)\<rparr>)"
    by (rule output_step_go) simp
  moreover have "(transports W)(t \<mapsto> tr\<lparr>to_loop := to_loop tr @ map received []\<rparr>) = transports W"
    using Nil.prems(1) by (simp add: fun_upd_idem)
  then have "W\<lparr>incoming := (incoming W)(sfd tr := q), transports := (transports W)(t \<mapsto> tr\<lparr>to_loop := to_loop tr @ map received []\<rparr>)\<rparr>
      = W\<lparr>incoming := (incoming W)(sfd tr := q)\<rparr>" by (intro world.equality) simp_all
  ultimately show ?case by metis
next
  case (Cons p ps)
  from rx.decode_accepts [of p "incoming W (sfd tr)" "concat (map packet_bytes ps)" get_apacket] Cons.prems(4,5) obtain q where
    q: "remote_read get_apacket (incoming W (sfd tr)) = (0, received p, q)" "readable q = concat (map packet_bytes ps)"
    by (auto simp: good_packet_def received_def remote_read_eq)
  let ?tr = "tr\<lparr>to_loop := to_loop tr @ [received p]\<rparr>"
  let ?W = "W\<lparr>incoming := (incoming W)(sfd tr := q), transports := (transports W)(t \<mapsto> ?tr)\<rparr>"
  have "output_step socket_read t Out_pump W = Inr (Out_pump, ?W)"
    using Cons.prems(1-3) q(1) by (simp add: output_step_def socket_read_def thread_write_def)
  then have go: "output_thread socket_read t Out_pump W = output_thread socket_read t Out_pump ?W"
    by (rule output_step_go) simp
  have pre: "transports ?W t = Some ?tr" "0 \<le> sfd ?tr" "\<not> pair_broken ?tr" "\<forall>p \<in> set ps. good_packet p"
    "readable (incoming ?W (sfd ?tr)) = concat (map packet_bytes ps)" using Cons.prems q(2) by simp_all
  from Cons.IH [OF pre] obtain q' where
    ih: "output_thread socket_read t Out_pump ?W = output_thread socket_read t Out_offline (?W\<lparr>incoming := (incoming ?W)(sfd ?tr := q'),
      transports := (transports ?W)(t \<mapsto> ?tr\<lparr>to_loop := to_loop ?tr @ map received ps\<rparr>)\<rparr>)" by blast
  have "?W\<lparr>incoming := (incoming ?W)(sfd ?tr := q'), transports := (transports ?W)(t \<mapsto> ?tr\<lparr>to_loop := to_loop ?tr @ map received ps\<rparr>)\<rparr>
    = W\<lparr>incoming := (incoming W)(sfd tr := q'), transports := (transports W)(t \<mapsto> tr\<lparr>to_loop := to_loop tr @ map received (p # ps)\<rparr>)\<rparr>"
    by simp
  with go ih show ?case by metis
qed

lemma leaving:
  assumes "transports W t = Some tr" "t_ops tr = Socket_ops" "\<not> kicked tr" "ref_count tr \<noteq> 1"
  shows "\<exists>W1 W2 W'. kick_mark t W = Inr (True, W1) \<and> t_kick t W1 = Inr W2 \<and> transport_unref (Some t) W2 = Inr W'
    \<and> transports W' = (transports W)(t \<mapsto> tr\<lparr>kicked := True, sfd := -1, ref_count := ref_count tr - 1\<rparr>)
    \<and> shut_fds W' = shut_fds W @ [sfd tr] \<and> incoming W' = incoming W \<and> written W' = written W \<and> sockets W' = sockets W
    \<and> registration W' = registration W"
  using assms by (simp add: kick_mark_def t_kick_def remote_kick_def transport_unref_def transport_unref_locked_def Let_def)

text \<open>A kernel that takes a sequence of packets, one \<^verbatim>\<open>writex\<close> each.\<close>

fun takes_all :: "wscript \<Rightarrow> apacket list \<Rightarrow> bool" where
  "takes_all q [] = True"
| "takes_all q (p # ps) = (case remote_write p q of (r, sent, q') \<Rightarrow> r = 0 \<and> takes_all q' ps)"

text \<open>While it is not active the input thread drops packets and SYNCs of an earlier token, while it is active it writes them to the device.\<close>

lemma input_drops:
  assumes "transports W t = Some tr" "to_threads tr = ps @ rest"
    "\<forall>p \<in> set ps. command (msg p) \<noteq> A_SYNC \<or> arg0 (msg p) \<noteq> 0 \<and> arg1 (msg p) \<noteq> sync_token tr"
  shows "input_thread wr t (In_read False) W =
    input_thread wr t (In_read False) (W\<lparr>transports := (transports W)(t \<mapsto> tr\<lparr>to_threads := rest\<rparr>)\<rparr>)"
  using assms
proof (induction ps arbitrary: W tr)
  case Nil
  then have "W\<lparr>transports := (transports W)(t \<mapsto> tr\<lparr>to_threads := rest\<rparr>)\<rparr> = W"
    by (intro world.equality) (simp_all add: fun_upd_idem)
  then show ?case by metis
next
  case (Cons p ps)
  let ?tr = "tr\<lparr>to_threads := ps @ rest\<rparr>" let ?W = "W\<lparr>transports := (transports W)(t \<mapsto> ?tr)\<rparr>"
  have "input_step wr t (In_read False) W = Inr (In_read False, ?W)" using Cons.prems by (auto simp: input_step_def)
  then have "input_thread wr t (In_read False) W = input_thread wr t (In_read False) ?W" by (rule input_step_go) simp
  also have "\<dots> = input_thread wr t (In_read False) (?W\<lparr>transports := (transports ?W)(t \<mapsto> ?tr\<lparr>to_threads := rest\<rparr>)\<rparr>)"
    by (rule Cons.IH) (use Cons.prems in simp_all)
  also have "?W\<lparr>transports := (transports ?W)(t \<mapsto> ?tr\<lparr>to_threads := rest\<rparr>)\<rparr> = W\<lparr>transports := (transports W)(t \<mapsto> tr\<lparr>to_threads := rest\<rparr>)\<rparr>"
    by simp
  finally show ?case .
qed

lemma input_forwards:
  assumes "transports W t = Some tr" "to_threads tr = ps @ rest" "\<forall>p \<in> set ps. command (msg p) \<noteq> A_SYNC" "0 \<le> sfd tr"
    "takes_all (outgoing W (sfd tr)) ps"
  shows "\<exists>W'. input_thread socket_write t (In_read True) W = input_thread socket_write t (In_read True) W'
    \<and> transports W' = (transports W)(t \<mapsto> tr\<lparr>to_threads := rest\<rparr>)
    \<and> written W' (sfd tr) = written W (sfd tr) @ concat (map packet_bytes ps)"
  using assms
proof (induction ps arbitrary: W tr)
  case Nil
  then show ?case by (intro exI [of _ W]) (simp add: fun_upd_idem)
next
  case (Cons p ps)
  obtain r sent q where w: "remote_write p (outgoing W (sfd tr)) = (r, sent, q)" by (metis prod_cases3)
  with Cons.prems(5) have r: "r = 0" "takes_all q ps" by simp_all
  from remote_write_bytes [OF w r(1)] have sent: "sent = packet_bytes p" .
  let ?tr = "tr\<lparr>to_threads := ps @ rest\<rparr>"
  let ?W = "W\<lparr>transports := (transports W)(t \<mapsto> ?tr), outgoing := (outgoing W)(sfd tr := q),
      written := (written W)(sfd tr := written W (sfd tr) @ sent)\<rparr>"
  have "input_step socket_write t (In_read True) W = Inr (In_read True, ?W)"
    using Cons.prems w r(1) by (simp add: input_step_def socket_write_def)
  then have go: "input_thread socket_write t (In_read True) W = input_thread socket_write t (In_read True) ?W"
    by (rule input_step_go) simp
  have pre: "transports ?W t = Some ?tr" "to_threads ?tr = ps @ rest" "\<forall>p \<in> set ps. command (msg p) \<noteq> A_SYNC" "0 \<le> sfd ?tr"
    "takes_all (outgoing ?W (sfd ?tr)) ps" using Cons.prems r(2) by simp_all
  from Cons.IH [OF pre] obtain W' where
    W': "input_thread socket_write t (In_read True) ?W = input_thread socket_write t (In_read True) W'"
      "transports W' = (transports ?W)(t \<mapsto> ?tr\<lparr>to_threads := rest\<rparr>)"
      "written W' (sfd ?tr) = written ?W (sfd ?tr) @ concat (map packet_bytes ps)" by blast
  show ?case unfolding go W'(1) using W'(2,3) sent by (intro exI [of _ W']) simp
qed

section \<open>Properties\<close>

text \<open>C10: The output thread of a socket transport ends once the device's stream ends, and hands the event loop exactly this:
  the announcement SYNC(1, token) with a new token, then every packet of the stream in order with its header and
  payload, then SYNC(0, 0). On its way out it shuts the device's descriptor down and gives up its reference.\<close>

theorem output_thread_delivers:
  assumes t: "transports W t = Some tr" "t_ops tr = Socket_ops" "0 \<le> sfd tr" "\<not> pair_broken tr" "\<not> kicked tr" "ref_count tr = 2"
    and ps: "\<forall>p \<in> set ps. good_packet p" "readable (incoming W (sfd tr)) = concat (map packet_bytes ps)"
  shows "\<exists>W' tr'. output_thread socket_read t Out_online W = Some (Inr W') \<and> transports W' t = Some tr'
    \<and> to_loop tr' = to_loop tr @ sync_packet 1 (sync_token tr + 1) # map received ps @ [sync_packet 0 0]
    \<and> to_threads tr' = to_threads tr \<and> ref_count tr' = 1 \<and> sfd tr' = -1 \<and> shut_fds W' = shut_fds W @ [sfd tr]"
proof -
  let ?tr1 = "tr\<lparr>sync_token := sync_token tr + 1, to_loop := to_loop tr @ [sync_packet 1 (sync_token tr + 1)]\<rparr>"
  let ?W1 = "W\<lparr>transports := (transports W)(t \<mapsto> ?tr1)\<rparr>"
  have "output_step socket_read t Out_online W = Inr (Out_pump, ?W1)"
    using t by (simp add: output_step_def thread_write_def)
  then have s1: "output_thread socket_read t Out_online W = output_thread socket_read t Out_pump ?W1"
    by (rule output_step_go) simp
  let ?tr2 = "?tr1\<lparr>to_loop := to_loop ?tr1 @ map received ps\<rparr>"
  have pre: "transports ?W1 t = Some ?tr1" "0 \<le> sfd ?tr1" "\<not> pair_broken ?tr1"
    "readable (incoming ?W1 (sfd ?tr1)) = concat (map packet_bytes ps)" using t ps(2) by simp_all
  from pump_run [OF pre(1-3) ps(1) pre(4)] obtain q where
    s2: "output_thread socket_read t Out_pump ?W1 = output_thread socket_read t Out_offline
      (?W1\<lparr>incoming := (incoming ?W1)(sfd ?tr1 := q), transports := (transports ?W1)(t \<mapsto> ?tr2)\<rparr>)" by blast
  let ?tr3 = "?tr2\<lparr>to_loop := to_loop ?tr2 @ [sync_packet 0 0]\<rparr>"
  let ?W3 = "W\<lparr>incoming := (incoming W)(sfd tr := q), transports := (transports W)(t \<mapsto> ?tr3)\<rparr>"
  have "output_step socket_read t Out_offline (?W1\<lparr>incoming := (incoming ?W1)(sfd ?tr1 := q), transports := (transports ?W1)(t \<mapsto> ?tr2)\<rparr>)
    = Inr (Out_oops, ?W3)" using t by (simp add: output_step_def thread_write_def)
  then have s3: "output_thread socket_read t Out_offline (?W1\<lparr>incoming := (incoming ?W1)(sfd ?tr1 := q), transports := (transports ?W1)(t \<mapsto> ?tr2)\<rparr>)
    = output_thread socket_read t Out_oops ?W3" by (rule output_step_go) simp
  from leaving [of ?W3 t ?tr3] t obtain V1 V2 W' where
    V: "kick_mark t ?W3 = Inr (True, V1)" "t_kick t V1 = Inr V2" "transport_unref (Some t) V2 = Inr W'" and
    W': "transports W' = (transports ?W3)(t \<mapsto> ?tr3\<lparr>kicked := True, sfd := -1, ref_count := ref_count tr - 1\<rparr>)"
      "shut_fds W' = shut_fds W @ [sfd tr]" by auto
  have "output_step socket_read t Out_oops ?W3 = Inr (Out_kick, V1)" "output_step socket_read t Out_kick V1 = Inr (Out_unref, V2)"
    "output_step socket_read t Out_unref V2 = Inr (Out_ended, W')" using V by (simp_all add: output_step_def)
  then have "output_thread socket_read t Out_oops ?W3 = Some (Inr W')"
    by (simp add: output_step_go [of _ _ Out_oops] output_step_go [of _ _ Out_kick] output_step_go [of _ _ Out_unref]
      output_thread.simps [of _ _ Out_ended])
  then show ?thesis unfolding s1 s2 s3 using W' t(6) by simp
qed

text \<open>C17: The input thread of a socket transport sends nothing to the device before the SYNC that carries the current token, whatever
  packets and SYNCs with other tokens come before it; from then on it writes every packet of the event loop to the device, in order and completely, and with the SYNC(0)
  of the event loop it stops reading.\<close>

theorem input_thread_forwards:
  assumes t: "transports W t = Some tr" "0 \<le> sfd tr"
    and q: "to_threads tr = early @ go # ps @ stop # rest" "\<forall>p \<in> set ps. command (msg p) \<noteq> A_SYNC"
    and early: "\<forall>p \<in> set early. command (msg p) \<noteq> A_SYNC \<or> arg0 (msg p) \<noteq> 0 \<and> arg1 (msg p) \<noteq> sync_token tr"
    and go: "command (msg go) = A_SYNC" "arg0 (msg go) \<noteq> 0" "arg1 (msg go) = sync_token tr"
    and stop: "command (msg stop) = A_SYNC" "arg0 (msg stop) = 0"
    and out: "takes_all (outgoing W (sfd tr)) ps"
  shows "\<exists>W'. input_thread socket_write t (In_read False) W = input_thread socket_write t In_exit W'
    \<and> transports W' = (transports W)(t \<mapsto> tr\<lparr>to_threads := rest\<rparr>)
    \<and> written W' (sfd tr) = written W (sfd tr) @ concat (map packet_bytes ps)"
proof -
  let ?tr1 = "tr\<lparr>to_threads := go # ps @ stop # rest\<rparr>" let ?W1 = "W\<lparr>transports := (transports W)(t \<mapsto> ?tr1)\<rparr>"
  have s1: "input_thread socket_write t (In_read False) W = input_thread socket_write t (In_read False) ?W1"
    by (rule input_drops [OF t(1) q(1) early])
  let ?tr2 = "tr\<lparr>to_threads := ps @ stop # rest\<rparr>" let ?W2 = "W\<lparr>transports := (transports W)(t \<mapsto> ?tr2)\<rparr>"
  have "input_step socket_write t (In_read False) ?W1 = Inr (In_read True, ?W2)"
    using go by (simp add: input_step_def)
  then have s2: "input_thread socket_write t (In_read False) ?W1 = input_thread socket_write t (In_read True) ?W2"
    by (rule input_step_go) simp
  have pre: "transports ?W2 t = Some ?tr2" "to_threads ?tr2 = ps @ stop # rest" "\<forall>p \<in> set ps. command (msg p) \<noteq> A_SYNC"
    "0 \<le> sfd ?tr2" "takes_all (outgoing ?W2 (sfd ?tr2)) ps" using t q(2) out by simp_all
  from input_forwards [OF pre] obtain W3 where
    W3: "input_thread socket_write t (In_read True) ?W2 = input_thread socket_write t (In_read True) W3"
      "transports W3 = (transports ?W2)(t \<mapsto> ?tr2\<lparr>to_threads := stop # rest\<rparr>)"
      "written W3 (sfd ?tr2) = written ?W2 (sfd ?tr2) @ concat (map packet_bytes ps)" by blast
  let ?W4 = "W3\<lparr>transports := (transports W3)(t \<mapsto> tr\<lparr>to_threads := rest\<rparr>)\<rparr>"
  have "input_step socket_write t (In_read True) W3 = Inr (In_exit, ?W4)"
    using stop W3(2) by (simp add: input_step_def)
  then have "input_thread socket_write t (In_read True) W3 = input_thread socket_write t In_exit ?W4"
    by (rule input_step_go) simp
  then show ?thesis unfolding s1 s2 W3(1) using W3(2,3) by (intro exI [of _ ?W4]) simp
qed

text \<open>A server with a device on descriptor 9, and the packets of a short conversation.\<close>

definition link_transport_state :: atransport where
  "link_transport_state = (dev ''SER1'' KTransportLocal CS_DEVICE)\<lparr>sfd := 9, sync_token := 4, ref_count := 2\<rparr>"

definition device_world :: "apacket list \<Rightarrow> world" where
  "device_world ps = world_init\<lparr>transports := [20 \<mapsto> link_transport_state\<lparr>to_threads := ps\<rparr>],
     incoming := (\<lambda>_. [RData (packet_bytes (okay 3 1))]), outgoing := (\<lambda>_. [WOk 100])\<rparr>"

lemma good_seal: "wf_packet p \<Longrightarrow> good_packet (seal_packet p)"
  using seal_passes_checks by (simp add: good_packet_def)

theorem output_thread_delivers_witness:
  "\<exists>W' tr'. output_thread socket_read 20 Out_online (device_world []) = Some (Inr W') \<and> transports W' 20 = Some tr'
     \<and> to_loop tr' = [sync_packet 1 5, received (okay 3 1), sync_packet 0 0]"
proof -
  let ?tr = "link_transport_state\<lparr>to_threads := []\<rparr>"
  have t: "transports (device_world []) 20 = Some ?tr" "t_ops ?tr = Socket_ops" "0 \<le> sfd ?tr" "\<not> pair_broken ?tr" "\<not> kicked ?tr"
    "ref_count ?tr = 2" by (simp_all add: device_world_def link_transport_state_def dev_def blank_transport_def)
  have g: "\<forall>p \<in> set [okay 3 1]. good_packet p"
    using good_seal by (simp add: okay_def wf_packet_def get_apacket_def zero_msg_def)
  have "packet_bytes (okay 3 1) \<noteq> []"
    using length_amessage_bytes [of "msg (okay 3 1)"] by (auto simp: packet_bytes_def sizeof_amessage_def simp del: length_amessage_bytes)
  then have r: "readable (incoming (device_world []) (sfd ?tr)) = concat (map packet_bytes [okay 3 1])"
    by (simp add: device_world_def)
  have z: "to_loop ?tr = []" "sync_token ?tr = 4" by (simp_all add: link_transport_state_def dev_def blank_transport_def)
  from output_thread_delivers [OF t g r] show ?thesis unfolding z by auto
qed

theorem input_thread_forwards_witness:
  "\<exists>W'. input_thread socket_write 20 (In_read False) (device_world [sync_packet 1 3, okay 1 2, sync_packet 1 4, okay 3 1, sync_packet 0 0])
       = input_thread socket_write 20 In_exit W' \<and> written W' 9 = packet_bytes (okay 3 1)"
proof -
  let ?ps = "[sync_packet 1 3, okay 1 2, sync_packet 1 4, okay 3 1, sync_packet 0 0]" let ?W = "device_world ?ps"
  let ?tr = "link_transport_state\<lparr>to_threads := ?ps\<rparr>"
  have t: "transports ?W 20 = Some ?tr" "0 \<le> sfd ?tr"
    "to_threads ?tr = [sync_packet 1 3, okay 1 2] @ sync_packet 1 4 # [okay 3 1] @ sync_packet 0 0 # []"
    by (simp_all add: device_world_def link_transport_state_def)
  have c: "\<forall>p \<in> set [okay 3 1]. command (msg p) \<noteq> A_SYNC"
    "\<forall>p \<in> set [sync_packet 1 3, okay 1 2]. command (msg p) \<noteq> A_SYNC \<or> arg0 (msg p) \<noteq> 0 \<and> arg1 (msg p) \<noteq> sync_token ?tr"
    "command (msg (sync_packet 1 4)) = A_SYNC" "arg0 (msg (sync_packet 1 4)) \<noteq> 0" "arg1 (msg (sync_packet 1 4)) = sync_token ?tr"
    "command (msg (sync_packet 0 0)) = A_SYNC" "arg0 (msg (sync_packet 0 0)) = 0"
    by (simp_all add: okay_def command_defs sync_packet_def link_transport_state_def zero_msg_def)
  have len: "length (packet_bytes (okay 3 1)) = 24"
    by (simp add: packet_bytes_def payload_def okay_def sizeof_amessage_def zero_msg_def)
  have "writex (packet_bytes (okay 3 1)) [WOk 100] = (0, packet_bytes (okay 3 1), [])"
    using len by (cases "packet_bytes (okay 3 1)") (simp_all add: writex_def write_loop.simps)
  then have out: "takes_all (outgoing ?W (sfd ?tr)) [okay 3 1]"
    by (simp add: device_world_def remote_write_def packet_bytes_def payload_def)
  have z: "sfd ?tr = 9" "written ?W 9 = []" by (simp_all add: link_transport_state_def device_world_def world_init_def)
  from input_thread_forwards [OF t c out] show ?thesis unfolding z by auto
qed

end
