(* ===== verification/Server_Inv.thy ===== *)
theory Server_Inv
  imports Transport_Threads
begin

text \<open>
  Invariants of the whole server. An invariant is stated once, as a predicate on worlds, and has to survive the elementary
  changes the sources make: these are the laws of the locales \<open>close_inv\<close> (what closing connections does) and \<open>server_inv\<close>
  (everything the event loop and the threads do). Inside the locales every operation of the server is shown to keep the
  invariant; theory \<open>Server_Run\<close> interprets them on the invariants of the server.
\<close>

section \<open>Outcomes\<close>

text \<open>What holds of the result of an operation, if it does not fault.\<close>

definition ends_in :: "('a \<Rightarrow> bool) \<Rightarrow> 'a res \<Rightarrow> bool" where
  "ends_in Q r \<longleftrightarrow> (\<forall>x. r = Inr x \<longrightarrow> Q x)"

named_theorems vc "verification conditions: outcomes of operations"

lemma ends_in_simps [simp]: "ends_in Q (Inl e)" "ends_in Q (Inr x) \<longleftrightarrow> Q x"
  by (simp_all add: ends_in_def)

lemma ends_in_bind: "ends_in P m \<Longrightarrow> (\<And>x. P x \<Longrightarrow> ends_in Q (f x)) \<Longrightarrow> ends_in Q (rbind m f)"
  by (auto simp: ends_in_def rbind_eq_Inr_iff)

lemma ends_in_mono: "ends_in P r \<Longrightarrow> (\<And>x. P x \<Longrightarrow> Q x) \<Longrightarrow> ends_in Q r"
  by (auto simp: ends_in_def)

lemma ends_in_getS [vc]: "(\<And>s. sockets W a = Some s \<Longrightarrow> ends_in Q (f s)) \<Longrightarrow> ends_in Q (rbind (getS a W) f)"
  by (auto simp: ends_in_def rbind_eq_Inr_iff getS_def split: option.splits)

lemma ends_in_getT [vc]: "(\<And>t. transports W a = Some t \<Longrightarrow> ends_in Q (f t)) \<Longrightarrow> ends_in Q (rbind (getT a W) f)"
  by (auto simp: ends_in_def rbind_eq_Inr_iff getT_def split: option.splits)

lemma ends_in_getL [vc]: "(\<And>l. listeners W a = Some l \<Longrightarrow> ends_in Q (f l)) \<Longrightarrow> ends_in Q (rbind (getL a W) f)"
  by (auto simp: ends_in_def rbind_eq_Inr_iff getL_def split: option.splits)

lemma ends_in_deref [vc]: "(\<And>a. p = Some a \<Longrightarrow> ends_in Q (f a)) \<Longrightarrow> ends_in Q (rbind (deref p) f)"
  by (cases p) auto

lemma ends_in_if: "ends_in Q x \<Longrightarrow> ends_in Q y \<Longrightarrow> ends_in Q (if c then x else y)"
  by simp

lemma rbind_rbind [simp]: "rbind (rbind m f) g = rbind m (\<lambda>x. rbind (f x) g)"
  by (cases m) simp_all

text \<open>Queries whose answer does not matter.\<close>

lemma ends_in_any: "(\<And>x. m = Inr x \<Longrightarrow> ends_in Q (f x)) \<Longrightarrow> ends_in Q (rbind m f)"
  by (auto simp: ends_in_def rbind_eq_Inr_iff)

section \<open>Elementary changes\<close>

declare updS_Some [simp del] updT_Some [simp del]

text \<open>Two worlds that differ at most in what no invariant here speaks of: descriptors, the event loop, listeners, the lock,
  the list of closing sockets, the list of trackers.\<close>

definition quiet :: "world \<Rightarrow> world \<Rightarrow> bool" where
  "quiet W W' \<longleftrightarrow>
     sockets W' = sockets W \<and> local_socket_list W' = local_socket_list W \<and> local_socket_next_id W' = local_socket_next_id W
   \<and> transports W' = transports W \<and> dev_nxt W' = dev_nxt W \<and> dev_prv W' = dev_prv W \<and> transport_list W' = transport_list W
   \<and> local_transports W' = local_transports W
   \<and> registration W' = registration W \<and> HOST W' = HOST W \<and> next_addr W' = next_addr W"

text \<open>A transport with the same port; its pipes may have lost packets, its list of disconnects entries.\<close>

definition same_link :: "atransport \<Rightarrow> atransport \<Rightarrow> bool" where
  "same_link t t' \<longleftrightarrow>
     set (to_threads t') \<subseteq> set (to_threads t) \<and> set (to_loop t') \<subseteq> set (to_loop t) \<and> set (disconnects t') \<subseteq> set (disconnects t)
   \<and> adb_port t' = adb_port t"

lemma quiet_w_write [simp]: "quiet W (snd (w_write fd bs W))"
  by (simp add: quiet_def w_write_def split: prod.splits)

lemma quiet_w_writex [simp]: "quiet W (snd (w_writex fd bs W))"
  by (simp add: quiet_def w_writex_def split: prod.splits)

lemma quiet_w_read [simp]: "quiet W (snd (w_read fd n W))"
  by (simp add: quiet_def w_read_def split: prod.splits)

lemma quiet_trans: "quiet U V \<Longrightarrow> quiet V W \<Longrightarrow> quiet U W"
  by (simp add: quiet_def)

lemma quiet_sendfailmsg [simp]: "quiet W (snd (sendfailmsg fd reason W))"
proof -
  let ?len = "min (length reason) 0xffff"
  obtain r W1 where w: "w_writex fd (take 8 (snprintf 9 (''FAIL'' @ fmt_04x ?len))) W = (r, W1)" by (metis surj_pair)
  then have "quiet W W1" using quiet_w_writex [of W fd "take 8 (snprintf 9 (''FAIL'' @ fmt_04x ?len))"] by simp
  then show ?thesis
    using w quiet_trans [OF _ quiet_w_writex, of W W1 fd "take ?len reason"] by (simp add: sendfailmsg_def Let_def)
qed

lemma wf_empty_packet [simp]: "wf_packet (get_apacket\<lparr>msg := zero_msg\<lparr>command := c, arg0 := x, arg1 := y\<rparr>\<rparr>)"
  by (simp add: wf_packet_def get_apacket_def zero_msg_def)

section \<open>Closing connections\<close>

text \<open>
  A socket is free to be freed only if it is not on the list of local sockets. \<open>I X W\<close> says that the invariant holds and that no socket of
  \<open>X\<close> is on that list, now and later: a remote, smart or tracker socket joins \<open>X\<close> when it is about to be closed (\<open>I_loose\<close>), a remote
  socket also when its transport calls it back (\<open>I_called\<close>), and may be freed in the end (\<open>I_free\<close>) whatever happened in between.
\<close>

definition unlisted :: "asocket \<Rightarrow> bool" where
  "unlisted s \<longleftrightarrow> close s \<notin> {Local_socket_close, Local_socket_close_notify} \<or> enqueue s = Device_tracker_enqueue"

definition same_role :: "asocket \<Rightarrow> asocket \<Rightarrow> bool" where
  "same_role s s' \<longleftrightarrow> s_id s' = s_id s \<and> (unlisted s' \<longrightarrow> unlisted s)"

declare unlisted_def [simp] same_role_def [simp]

locale close_inv =
  fixes I :: "addr set \<Rightarrow> world \<Rightarrow> bool"
  assumes I_quiet: "I X W \<Longrightarrow> quiet W W' \<Longrightarrow> I X W'"
    and I_set_socket: "I X W \<Longrightarrow> sockets W a = Some s \<Longrightarrow> same_role s s' \<Longrightarrow> I X (setS a s' W)"
    and I_loose: "I X W \<Longrightarrow> sockets W a = Some s \<Longrightarrow> unlisted s \<Longrightarrow> I (insert a X) W"
    and I_called: "I X W \<Longrightarrow> transports W b = Some t \<Longrightarrow> Remote_socket_disconnect a \<in> set (disconnects t) \<Longrightarrow> I (insert a X) W"
    and I_forget: "I (insert a X) W \<Longrightarrow> I X W"
    and I_free: "I (insert a X) W \<Longrightarrow> I (insert a X) (freeS a W)"
    and I_unlist: "I X W \<Longrightarrow> remove_socket a W = Inr W' \<Longrightarrow> I X W'"
    and I_destroy: "I X W \<Longrightarrow> remove_socket a W = Inr W' \<Longrightarrow> I X (freeS a W')"
    and I_set_transport: "I X W \<Longrightarrow> transports W a = Some t \<Longrightarrow> same_link t t' \<Longrightarrow> I X (W\<lparr>transports := (transports W)(a \<mapsto> t')\<rparr>)"
    and I_note: "I X W \<Longrightarrow> transports W a = Some t \<Longrightarrow> \<forall>x. d = Remote_socket_disconnect x \<longrightarrow> x \<in> X \<Longrightarrow>
      I X (W\<lparr>transports := (transports W)(a \<mapsto> t\<lparr>disconnects := disconnects t @ [d]\<rparr>)\<rparr>)"
    and I_send: "I X W \<Longrightarrow> transports W a = Some t \<Longrightarrow> good_packet p \<Longrightarrow>
      I X (W\<lparr>transports := (transports W)(a \<mapsto> t\<lparr>to_threads := to_threads t @ [p]\<rparr>)\<rparr>)"
begin

lemma quiet_updates [vc]:
  assumes "I X W"
  shows "I X (W\<lparr>local_socket_closing_list := as\<rparr>)" "I X (W\<lparr>socket_list_lock := b\<rparr>)" "I X (W\<lparr>device_tracker_list := as\<rparr>)"
    "I X (W\<lparr>listeners := ls\<rparr>)" "I X (W\<lparr>listener_list := as\<rparr>)" "I X (W\<lparr>fds := F\<rparr>)" "I X (W\<lparr>incoming := q\<rparr>)" "I X (W\<lparr>outgoing := q'\<rparr>)"
    "I X (W\<lparr>written := wr\<rparr>)" "I X (W\<lparr>shut_fds := xs\<rparr>)" "I X (W\<lparr>usb_kicked := as\<rparr>)" "I X (W\<lparr>usb_closed := as\<rparr>)" "I X (W\<lparr>spawned := sp\<rparr>)"
    "I X (snd (w_write fd bs W))" "I X (snd (w_writex fd bs W))" "I X (snd (w_read fd n W))" "I X (snd (sendfailmsg fd reason W))"
  by (rule I_quiet [OF assms]; simp add: quiet_def quiet_w_write [unfolded quiet_def] quiet_w_writex [unfolded quiet_def]
      quiet_w_read [unfolded quiet_def] quiet_sendfailmsg [unfolded quiet_def])+

lemma set_object [vc]:
  "I X W \<Longrightarrow> \<exists>s. sockets W a = Some s \<and> same_role s s' \<Longrightarrow> I X (setS a s' W)"
  "I X W \<Longrightarrow> \<exists>t. transports W a = Some t \<and> same_link t t' \<Longrightarrow> I X (W\<lparr>transports := (transports W)(a \<mapsto> t')\<rparr>)"
  using I_set_socket I_set_transport by blast+

lemma upd_socket [vc]: "I X W \<Longrightarrow> (\<And>s. same_role s (f s)) \<Longrightarrow> ends_in (I X) (updS a f W)"
  by (auto simp: updS_def getS_def intro: I_set_socket split: option.split)

lemma upd_transport [vc]: "I X W \<Longrightarrow> (\<And>t. same_link t (f t)) \<Longrightarrow> ends_in (I X) (updT a f W)"
  by (auto simp: updT_def getT_def intro: I_set_transport split: option.split)

lemma event_op [vc]: "I X W \<Longrightarrow> ends_in (I X) (on_fds f W)"
  by (auto simp: on_fds_def ends_in_def rbind_eq_Inr_iff quiet_def intro: I_quiet)

lemma unlist [vc]: "I X W \<Longrightarrow> ends_in (I X) (remove_socket a W)"
  by (auto simp: ends_in_def intro: I_unlist)

lemma send [vc]: "I X W \<Longrightarrow> wf_packet p \<Longrightarrow> ends_in (I X) (send_packet p t W)"
  by (auto simp: send_packet_def Let_def getT_def updT_def good_seal intro!: I_send split: option.split)

lemmas basic_binds [vc] = upd_socket [THEN ends_in_bind] upd_transport [THEN ends_in_bind] event_op [THEN ends_in_bind]
  unlist [THEN ends_in_bind] send [THEN ends_in_bind]

lemma forget_disconnect [vc]: "I X W \<Longrightarrow> ends_in (I X) (remove_transport_disconnect t d W)"
  by (auto simp: remove_transport_disconnect_def same_link_def intro!: vc dest: set_remove1_subset [THEN subsetD])

lemma note_disconnect [vc]: "I X W \<Longrightarrow> \<forall>x. d = Remote_socket_disconnect x \<longrightarrow> x \<in> X \<Longrightarrow> ends_in (I X) (add_transport_disconnect t d W)"
  by (auto simp: add_transport_disconnect_def updT_def getT_def intro!: ends_in_deref I_note split: option.split)

lemmas disconnect_binds [vc] = forget_disconnect [THEN ends_in_bind] note_disconnect [THEN ends_in_bind]

lemma destroy [vc]: "I X W \<Longrightarrow> ends_in (I X) (local_socket_destroy a W)"
  unfolding local_socket_destroy_def
  by (auto intro!: vc ends_in_any [where m = "remove_socket _ _"] dest: I_destroy)

lemmas destroy_bind [vc] = destroy [THEN ends_in_bind]

lemma close_body:
  assumes "I X W" and cl: "\<And>X a W. I X W \<Longrightarrow> ends_in (I X) (cl a W)" "\<And>X a W. I X W \<Longrightarrow> ends_in (I X) (close_locked a W)"
  shows "ends_in (I X) (local_socket_close_body close_locked cl a W)"
  using assms(1) unfolding local_socket_close_body_def
  by (auto intro!: vc cl cl [THEN ends_in_bind] split: option.split)

lemma close_local:
  assumes "I X W" and cl: "\<And>X a W. I X W \<Longrightarrow> ends_in (I X) (cl a W)"
  shows "ends_in (I X) (local_socket_close cl a W)"
  using assms(1) unfolding local_socket_close_def
  by (auto intro!: vc cl [THEN ends_in_bind])

lemma close_notify:
  assumes "I X W" and cl: "\<And>X a W. I X W \<Longrightarrow> ends_in (I X) (cl a W)"
  shows "ends_in (I X) (local_socket_close_notify cl a W)"
  using assms(1) unfolding local_socket_close_notify_def by (auto intro!: vc cl)

lemma close_remote:
  assumes "I (insert a X) W" and cl: "\<And>X a W. I X W \<Longrightarrow> ends_in (I X) (cl a W)"
  shows "ends_in (I X) (remote_socket_close cl a W)"
  using assms(1) unfolding remote_socket_close_def
  by (auto intro!: vc cl [THEN ends_in_bind] I_forget [OF I_free] split: option.split)

lemma close_smart:
  assumes "I (insert a X) W" and cl: "\<And>X a W. I X W \<Longrightarrow> ends_in (I X) (cl a W)"
  shows "ends_in (I X) (smart_socket_close cl a W)"
  using assms(1) unfolding smart_socket_close_def
  by (auto intro!: vc cl [THEN ends_in_bind] I_forget [OF I_free] split: option.split)

lemma close_tracker:
  assumes "I (insert a X) W" and cl: "\<And>X a W. I X W \<Longrightarrow> ends_in (I X) (cl a W)"
  shows "ends_in (I X) (device_tracker_close cl a W)"
  using assms(1) unfolding device_tracker_close_def device_tracker_remove_def
  by (auto intro!: vc cl [THEN ends_in_bind] I_forget [OF I_free] split: option.split)

lemma loosens:
  assumes "I X W" "sockets W a = Some s"
  shows "close s = Remote_socket_close \<Longrightarrow> I (insert a X) W" "close s = Smart_socket_close \<Longrightarrow> I (insert a X) W"
    "close s = Device_tracker_close \<Longrightarrow> I (insert a X) W" "enqueue s = Device_tracker_enqueue \<Longrightarrow> I (insert a X) W"
  using I_loose [OF assms] by simp_all

lemma close_at_depth: "(I X W \<longrightarrow> ends_in (I X) (local_socket_close_locked n a W)) \<and> (I X W \<longrightarrow> ends_in (I X) (sock_close n a W))"
proof (induction n arbitrary: X a W)
  case (Suc n)
  then have cl: "\<And>X a W. I X W \<Longrightarrow> ends_in (I X) (local_socket_close_locked n a W)" "\<And>X a W. I X W \<Longrightarrow> ends_in (I X) (sock_close n a W)" by blast+
  then show ?case
    by (auto intro!: ends_in_getS close_body close_local close_notify close_remote close_smart close_tracker cl intro: loosens split: close_fn.split)
qed simp

lemma closes [vc]: "I X W \<Longrightarrow> ends_in (I X) (close_socket a W)" "I X W \<Longrightarrow> ends_in (I X) (local_socket_close_locked n a W)"
  using close_at_depth by (auto simp: close_socket_def)

lemma tracker_closes [vc]: "I (insert a X) W \<Longrightarrow> ends_in (I X) (device_tracker_close close_socket a W)"
  by (rule close_tracker [OF _ closes(1)])

lemmas close_binds [vc] = closes [THEN ends_in_bind] tracker_closes [THEN ends_in_bind]

lemma close_all [vc]: "I X W \<Longrightarrow> ends_in (I X) (close_all_sockets t W)"
proof -
  have loop: "ends_in (I X) (close_all_loop n t W)" if "I X W" for n W
    using that by (induction n arbitrary: W) (auto intro!: ends_in_any [where m = "bound_to _ _ _"] closes(2) [THEN ends_in_bind] split: option.split)
  assume "I X W"
  then show ?thesis
    unfolding close_all_sockets_def by (auto intro!: vc loop [THEN ends_in_bind] simp del: close_all_loop.simps)
qed

lemma remote_disconnect [vc]: "I (insert a X) W \<Longrightarrow> ends_in (I X) (remote_socket_disconnect a W)"
  unfolding remote_socket_disconnect_def by (auto intro!: vc I_forget [OF I_free] split: option.split)

lemma listener_freed [vc]: "I X W \<Longrightarrow> ends_in (I X) (free_listener a W)"
  unfolding free_listener_def by (auto intro!: vc split: option.split)

lemma disconnects_run [vc]: "I X W \<Longrightarrow> ends_in (I X) (run_transport_disconnects t W)"
proof -
  have loop: "ends_in (I X) (disconnect_loop t ds W)"
    if "I X W" "\<forall>tr. ds \<noteq> [] \<longrightarrow> transports W t = Some tr \<longrightarrow> hd ds \<in> set (disconnects tr)" for ds W
    using that
  proof (induction t ds W rule: disconnect_loop.induct)
    case (2 t d ds W)
    have "ends_in (I X) (disconnect_func d W)" if "transports W t = Some tr" for tr
      using 2 that by (auto simp: disconnect_func_def listener_disconnect_def intro!: vc intro: I_called split: adisconnect.split)
    then show ?case using 2 by (fastforce simp: ends_in_def rbind_eq_Inr_iff getT_def Let_def split: if_splits option.splits)
  qed simp
  assume "I X W"
  then show ?thesis unfolding run_transport_disconnects_def by (auto intro!: ends_in_getT loop)
qed

lemmas teardown_binds [vc] = close_all [THEN ends_in_bind] remote_disconnect [THEN ends_in_bind] listener_freed [THEN ends_in_bind]
  disconnects_run [THEN ends_in_bind]

end

section \<open>Facts for the operations\<close>

text \<open>A packet whose bytes fit into one message.\<close>

definition fits :: "apacket \<Rightarrow> bool" where
  "fits p \<longleftrightarrow> p_len p \<le> MAX_PAYLOAD \<and> p_len p \<le> length (data p)"

lemma wf_fits: "fits p \<Longrightarrow> wf_packet (p\<lparr>msg := m\<lparr>command := c, arg0 := x, arg1 := y, data_length := of_nat (p_len p)\<rparr>\<rparr>)"
  by (simp add: fits_def wf_packet_def MAX_PAYLOAD_def unat_of_nat)

lemma fits_payload [simp]: "fits (get_apacket\<lparr>data := bs, p_len := length bs\<rparr>) \<longleftrightarrow> length bs \<le> MAX_PAYLOAD"
  by (simp add: fits_def)

lemma fits_received: "wf_packet p \<Longrightarrow> fits (p\<lparr>p_len := unat (data_length (msg p))\<rparr>)"
  by (simp add: fits_def wf_packet_def)

lemma tracker_message_fits:
  assumes "list_transports_msg 1024 W = Inr b"
  shows "length b \<le> MAX_PAYLOAD"
proof -
  from assms obtain ls where "b = take 4 (fmt_04x (length (list_loop 1020 ls))) @ list_loop 1020 ls"
    by (auto simp: list_transports_msg_def list_transports_def walked_def Let_def rbind_eq_Inr_iff split: prod.splits option.splits if_splits)
  then show ?thesis using length_list_loop [of 1020 ls] by (simp add: MAX_PAYLOAD_def)
qed

lemma quiet_refl [simp]: "quiet W W"
  by (simp add: quiet_def)

lemma quiet_enqueue_write: "quiet W (snd (snd (enqueue_write fd p W)))"
proof (induction fd p W rule: enqueue_write.induct)
  case (1 fd p W)
  obtain r W1 where w: "w_write fd (unsent p) W = (r, W1)" by (metis surj_pair)
  then have q: "quiet W W1" using quiet_w_write [of W fd "unsent p"] by simp
  show ?case
  proof (cases "p_len p = 0 \<or> (\<forall>n. r \<noteq> Inr n) \<or> r = Inr 0")
    case True
    then show ?thesis using w q by (cases r) (auto simp: enqueue_write.simps [of fd p W])
  next
    case False
    then obtain n where "r = Inr n" "n \<noteq> 0" "p_len p \<noteq> 0" by (cases r) auto
    then show ?thesis using 1 [of "Inr n" W1 n] w quiet_trans [OF q] by (simp add: enqueue_write.simps [of fd p W])
  qed
qed

lemma quiet_event_write: "quiet W (snd (snd (event_write fd p W)))"
proof (induction fd p W rule: event_write.induct)
  case (1 fd p W)
  obtain r W1 where w: "w_write fd (unsent p) W = (r, W1)" by (metis surj_pair)
  then have q: "quiet W W1" using quiet_w_write [of W fd "unsent p"] by simp
  show ?case
  proof (cases "p_len p = 0")
    case False
    show ?thesis
    proof (cases r)
      case (Inl e)
      then show ?thesis
        using "1.IH"(1) [OF False w [symmetric] Inl] w q False quiet_trans [OF q] by (cases "e = EINTR") (auto simp: event_write.simps [of fd p W])
    next
      case (Inr n)
      then show ?thesis
        using "1.IH"(2) [OF False w [symmetric] Inr] w q False quiet_trans [OF q] by (cases "n = 0") (auto simp: event_write.simps [of fd p W])
    qed
  qed (simp add: event_write.simps [of fd p W])
qed

lemma quiet_event_write_queue: "quiet W (snd (snd (event_write_queue fd ps W)))"
proof (induction ps arbitrary: W)
  case (Cons p ps)
  obtain st p1 W1 where w: "event_write fd p W = (st, p1, W1)" by (metis prod_cases3)
  then have "quiet W W1" using quiet_event_write [of W fd p] by simp
  then show ?case using w Cons [of W1] quiet_trans by (cases st) auto
qed simp

lemma event_read_result:
  "quiet W (snd (snd (snd (event_read fd avail got r W)))) \<and> length (fst (event_read fd avail got r W)) \<le> length got + avail"
proof (induction fd avail got r W rule: event_read.induct)
  case (1 fd avail got r W)
  obtain x W1 where w: "w_read fd avail W = (x, W1)" by (metis surj_pair)
  then have q: "quiet W W1" using quiet_w_read [of W fd avail] by simp
  show ?case
  proof (cases "avail = 0")
    case False
    show ?thesis
    proof (cases x)
      case (Inl e)
      then show ?thesis
        using "1.IH"(1) [OF False w [symmetric] Inl] w q False quiet_trans [OF q] by (cases "e = EINTR") (auto simp: event_read.simps [of fd avail got r W])
    next
      case (Inr bs)
      then have "length bs \<le> avail"
        using w by (cases "(avail, incoming W fd)" rule: adb_read.cases) (auto simp: w_read_def split: if_splits)
      then show ?thesis
        using "1.IH"(2) [OF False w [symmetric] Inr] Inr w q False quiet_trans [OF q] by (cases "bs = []") (auto simp: event_read.simps [of fd avail got r W])
    qed
  qed (simp add: event_read.simps [of fd 0 got r W])
qed

section \<open>The whole server\<close>

locale server_inv = close_inv +
  assumes I_alloc: "I X W \<Longrightarrow> I X (W\<lparr>next_addr := next_addr W + 1\<rparr>)"
    and I_new_socket: "I X W \<Longrightarrow> unlisted s \<Longrightarrow> I X (setS (next_addr W) s (W\<lparr>next_addr := next_addr W + 1\<rparr>))"
    and I_new_local: "I X W \<Longrightarrow> \<not> unlisted s \<Longrightarrow> install_local_socket (next_addr W) (setS (next_addr W) s (W\<lparr>next_addr := next_addr W + 1\<rparr>)) = Inr W' \<Longrightarrow> I X W'"
    and I_deliver: "I X W \<Longrightarrow> transports W a = Some tr \<Longrightarrow> wf_packet p \<Longrightarrow>
      I X (W\<lparr>transports := (transports W)(a \<mapsto> tr\<lparr>to_loop := to_loop tr @ [p]\<rparr>)\<rparr>)"
    and I_delivered: "I X W \<Longrightarrow> transports W a = Some tr \<Longrightarrow> p \<in> set (to_loop tr) \<Longrightarrow> wf_packet p"
    and I_clear: "I X W \<Longrightarrow> I X (W\<lparr>local_transports := clear_slot a (local_transports W)\<rparr>)"
    and I_announce: "I X W \<Longrightarrow> I X (remove_transport a W)"
    and I_register_socket: "I X W \<Longrightarrow> register_socket_transport fd (Some ser) port loc W = Inr W' \<Longrightarrow> I X W'"
    and I_register_usb: "I X W \<Longrightarrow> I X (register_usb_transport h usb_ser w W)"
    and I_pop: "I X W \<Longrightarrow> registration W = m # ms \<Longrightarrow> I X (W\<lparr>registration := ms\<rparr>)"
    and I_link: "I X W \<Longrightarrow> registration W = (t, True) # ms \<Longrightarrow> link_transport t (W\<lparr>registration := ms\<rparr>) = Inr W' \<Longrightarrow> I X W'"
    and I_unlink: "I X W \<Longrightarrow> unlink_transport a W = Inr W' \<Longrightarrow> I X W'"
    and I_drop: "I X W \<Longrightarrow> I X (W\<lparr>transports := (transports W)(t := None)\<rparr>)"
begin

lemma unlinks [vc]: "I X W \<Longrightarrow> ends_in (I X) (unlink_transport a W)"
  by (auto simp: ends_in_def intro: I_unlink)

lemma clears [vc]: "I X W \<Longrightarrow> I X (W\<lparr>shut_fds := xs, local_transports := clear_slot a (local_transports W)\<rparr>)"
  using I_clear [of X "W\<lparr>shut_fds := xs\<rparr>" a] quiet_updates(10) by simp

lemma kick_call [vc]: "I X W \<Longrightarrow> ends_in (I X) (t_kick a W)"
  unfolding t_kick_def remote_kick_def usb_remote_kick_def Let_def
  by (auto intro!: vc simp: same_link_def split: transport_ops.split)

lemma marks [vc]: "I X W \<Longrightarrow> ends_in (\<lambda>(first, W). I X W) (kick_mark a W)"
  unfolding kick_mark_def by (auto intro!: vc simp: same_link_def)

lemmas kick_binds [vc] = kick_call [THEN ends_in_bind] marks [THEN ends_in_bind] unlinks [THEN ends_in_bind]

lemma kick [vc]: "I X W \<Longrightarrow> ends_in (I X) (kick_transport p W)"
  by (auto simp: kick_transport_def intro!: vc split: option.split)

lemma closed [vc]: "I X W \<Longrightarrow> ends_in (I X) (t_close a W)"
  by (auto simp: t_close_def remote_close_def usb_remote_close_def same_link_def intro!: vc split: transport_ops.split)

lemmas closed_bind [vc] = closed [THEN ends_in_bind]

lemma unref_locked [vc]: "I X W \<Longrightarrow> ends_in (I X) (transport_unref_locked a W)"
  unfolding transport_unref_locked_def
  by (auto intro!: vc I_announce simp: same_link_def)

lemma unref [vc]: "I X W \<Longrightarrow> ends_in (I X) (transport_unref p W)"
  by (auto simp: transport_unref_def intro!: vc split: option.split)

lemmas unref_binds [vc] = kick [THEN ends_in_bind] unref_locked [THEN ends_in_bind] unref [THEN ends_in_bind]

lemma unregistered [vc]: "I X W \<Longrightarrow> ends_in (I X) (unregister_transport a W)"
  unfolding unregister_transport_def by (auto intro!: vc)

lemma tcp_unregistered [vc]: "I X W \<Longrightarrow> ends_in (I X) (unregister_all_tcp_transports W)"
proof -
  have "ends_in (I X) (unregister_tcp_loop as W)" if "I X W" for as W
    using that by (induction as arbitrary: W) (auto intro!: vc simp: same_link_def)
  then show "I X W \<Longrightarrow> ends_in (I X) (unregister_all_tcp_transports W)" by (simp add: unregister_all_tcp_transports_def)
qed

lemma usb_unregistered [vc]: "I X W \<Longrightarrow> ends_in (I X) (unregister_usb_transport h W)"
  unfolding unregister_usb_transport_def by (auto intro!: vc simp: walked_def split: option.split prod.split)

lemma usb_closed_down [vc]: "I X W \<Longrightarrow> ends_in (I X) (close_usb_devices W)"
proof -
  have "ends_in (I X) (kick_loop as W)" if "I X W" for as W
    using that by (induction as arbitrary: W) (auto intro!: vc simp: same_link_def)
  then show "I X W \<Longrightarrow> ends_in (I X) (close_usb_devices W)" by (simp add: close_usb_devices_def)
qed

lemma registers [vc]: "I X W \<Longrightarrow> ends_in (I X) (register_socket_transport fd (Some ser) port loc W)"
  by (auto simp: ends_in_def intro: I_register_socket)

lemmas register_binds [vc] = unregistered [THEN ends_in_bind] tcp_unregistered [THEN ends_in_bind] registers [THEN ends_in_bind]

lemma connects [vc]: "I X W \<Longrightarrow> ends_in (\<lambda>(r, W). I X W) (local_connect_arbitrary_ports E console port W)"
  unfolding local_connect_arbitrary_ports_def by (auto simp: Let_def intro!: vc split: option.split)

lemma connects_port [vc]: "I X W \<Longrightarrow> ends_in (\<lambda>(r, W). I X W) (local_connect E port W)"
  unfolding local_connect_def by (rule connects)

lemmas connect_binds [vc] = connects [THEN ends_in_bind] connects_port [THEN ends_in_bind]

lemma client_thread [vc]: "I X W \<Longrightarrow> ends_in (I X) (client_socket_thread E W)"
proof -
  have "ends_in (I X) (client_socket_loop E n port W)" if "I X W" for n port W
    using that by (induction n arbitrary: port W) (auto intro!: vc)
  then show "I X W \<Longrightarrow> ends_in (I X) (client_socket_thread E W)" by (simp add: client_socket_thread_def)
qed

text \<open>Sockets.\<close>

lemma creates_local [vc]: "I X W \<Longrightarrow> ends_in (\<lambda>(a, W). I X W) (create_local_socket fd W)"
  unfolding create_local_socket_def Let_def
  by (rule ends_in_any, drule (1) I_new_local [rotated 2]) (auto intro!: vc simp: blank_socket_def)

lemma creates_remote [vc]: "I X W \<Longrightarrow> ends_in (\<lambda>(a, W). I X W) (create_remote_socket i t W)"
proof -
  let ?s = "blank_socket\<lparr>s_id := i, enqueue := Remote_socket_enqueue, ready := Remote_socket_ready, close := Remote_socket_close, s_transport := Some t\<rparr>"
  let ?W = "setS (next_addr W) ?s (W\<lparr>next_addr := next_addr W + 1\<rparr>)"
  assume "I X W"
  then have "I (insert (next_addr W) X) ?W" using I_new_socket [of X W ?s] by (intro I_loose) (auto simp: setS_def)
  then show ?thesis
    unfolding create_remote_socket_def Let_def by (rule note_disconnect [THEN ends_in_bind]) (auto dest: I_forget)
qed

lemma creates_tracker [vc]: "I X W \<Longrightarrow> I X (snd (create_device_tracker W))"
  by (rule I_quiet [OF I_new_socket [where s = "blank_socket\<lparr>enqueue := Device_tracker_enqueue, ready := Device_tracker_ready,
      close := Device_tracker_close, update_needed := True\<rparr>"]]) (simp_all add: create_device_tracker_def Let_def quiet_def setS_def)

lemma creates_smart [vc]: "I X W \<Longrightarrow> I X (snd (create_smart_socket W))"
  using I_new_socket by (simp add: create_smart_socket_def Let_def)

lemmas create_binds [vc] = creates_local [THEN ends_in_bind] creates_remote [THEN ends_in_bind]

lemma enqueues_local [vc]: "I X W \<Longrightarrow> ends_in (\<lambda>(r, W). I X W) (local_socket_enqueue a p W)"
proof -
  have w: "I X W1" if "I X W" "enqueue_write fd p W = (st, p1, W1)" for W W1 fd p st p1
    using I_quiet [OF that(1)] quiet_enqueue_write [of W fd p] that(2) by simp
  show "I X W \<Longrightarrow> ends_in (\<lambda>(r, W). I X W) (local_socket_enqueue a p W)"
    unfolding local_socket_enqueue_def Let_def by (auto intro!: vc dest: w split: wstat.split prod.split)
qed

lemma enqueues_remote: "I X W \<Longrightarrow> fits p \<Longrightarrow> ends_in (\<lambda>(r, W). I X W) (remote_socket_enqueue a p W)"
  unfolding remote_socket_enqueue_def by (auto intro!: vc wf_fits)

lemma enqueues_tracker [vc]: "I (insert a X) W \<Longrightarrow> ends_in (\<lambda>(r, W). I X W) (device_tracker_enqueue a p W)"
  unfolding device_tracker_enqueue_def by (auto intro!: vc)

lemma remote_ready [vc]: "I X W \<Longrightarrow> ends_in (I X) (remote_socket_ready a W)"
  unfolding remote_socket_ready_def by (auto intro!: vc)

lemma local_ready [vc]: "I X W \<Longrightarrow> ends_in (I X) (local_socket_ready a W)"
  unfolding local_socket_ready_def by (auto intro!: vc)

lemma notified [vc]: "I X W \<Longrightarrow> ends_in (I X) (local_socket_ready_notify a W)"
  unfolding local_socket_ready_notify_def by (auto intro!: vc)

lemma opens [vc]: "I X W \<Longrightarrow> ends_in (I X) (connect_to_remote a destination W)"
proof -
  have "wf_packet (get_apacket\<lparr>data := destination @ [NUL], msg := zero_msg\<lparr>command := A_OPEN, arg0 := x, data_length := of_nat (length destination + 1)\<rparr>\<rparr>)"
    if "\<not> MAX_PAYLOAD - 1 < length destination + 1" for x
    using that by (simp add: wf_packet_def MAX_PAYLOAD_def unat_of_nat del: of_nat_add of_nat_Suc)
  then show "I X W \<Longrightarrow> ends_in (I X) (connect_to_remote a destination W)" unfolding connect_to_remote_def Let_def by (auto intro!: vc)
qed

text \<open>Trackers: \<open>enq\<close> is the call through the function pointer.\<close>

lemma tracker_sends:
  assumes enq: "\<And>a p W. I X W \<Longrightarrow> fits p \<Longrightarrow> ends_in (\<lambda>(r, W). I X W) (enq a p W)" and "I X W" "length b \<le> MAX_PAYLOAD"
  shows "ends_in (\<lambda>(r, W). I X W) (device_tracker_send enq a b W)"
  using assms(2,3) unfolding device_tracker_send_def by (auto intro!: vc enq)

lemma tracker_ready:
  assumes enq: "\<And>a p W. I X W \<Longrightarrow> fits p \<Longrightarrow> ends_in (\<lambda>(r, W). I X W) (enq a p W)" and "I X W"
  shows "ends_in (I X) (device_tracker_ready enq a W)"
  using assms(2) unfolding device_tracker_ready_def
  by (auto intro!: vc ends_in_any [where m = "list_transports_msg _ _"] tracker_sends [OF enq, THEN ends_in_bind] dest: tracker_message_fits)

lemma updates:
  assumes enq: "\<And>a p W. I X W \<Longrightarrow> fits p \<Longrightarrow> ends_in (\<lambda>(r, W). I X W) (enq a p W)" and "I X W"
  shows "ends_in (I X) (update_transports enq W)"
proof -
  have "ends_in (I X) (update_loop enq b as W)" if "I X W" "length b \<le> MAX_PAYLOAD" for b as W
    using that by (induction as arbitrary: W) (auto intro!: tracker_sends [OF enq, THEN ends_in_bind])
  with assms(2) show ?thesis
    unfolding update_transports_def by (auto intro!: ends_in_any dest: tracker_message_fits)
qed

text \<open>Host requests.\<close>

lemma removes_listener [vc]: "I X W \<Longrightarrow> ends_in (\<lambda>(r, W). I X W) (remove_listener lname cto t W)"
  unfolding remove_listener_def listener_disconnect_def
  by (rule ends_in_any) (auto intro!: vc split: option.split)

lemma installs_listener [vc]: "I X W \<Longrightarrow> ends_in (\<lambda>(r, W). I X W) (install_listener E lname cto t W)"
  unfolding install_listener_def Let_def
  by (rule ends_in_any) (auto intro!: vc I_alloc simp del: One_nat_def add_Suc_right split: option.split)

lemma connects_device [vc]: "I X W \<Longrightarrow> ends_in (\<lambda>(r, W). I X W) (connect_device E host n W)"
  unfolding connect_device_def Let_def
  by (rule ends_in_any) (auto intro!: vc ends_in_any [where m = "find_transport _ _"] split: sum.split)

lemma connects_emulator [vc]: "I X W \<Longrightarrow> ends_in (\<lambda>(r, W). I X W) (connect_emulator E spec n W)"
  unfolding connect_emulator_def Let_def
  by (auto intro!: vc ends_in_any [where m = "find_emulator_transport_by_adb_port _ _"] split: option.split)

lemmas request_binds [vc] = removes_listener [THEN ends_in_bind] installs_listener [THEN ends_in_bind]
  connects_device [THEN ends_in_bind] connects_emulator [THEN ends_in_bind]

lemma replies [vc]: "I X W \<Longrightarrow> I X (reply_okay fd x W)"
  by (simp add: reply_okay_def vc)

lemma requests_transport [vc]: "I X W \<Longrightarrow> ends_in (\<lambda>(r, W). I X W) (request_transport service ser fd s W)"
  unfolding request_transport_def Let_def
  by (auto intro!: vc ends_in_any [where m = "acquire_one_transport _ _ _"] split: option.split prod.split)

lemma requests_disconnect [vc]: "I X W \<Longrightarrow> ends_in (\<lambda>(r, W). I X W) (request_disconnect ser fd W)"
  unfolding request_disconnect_def Let_def
  by (auto intro!: vc ends_in_any [where m = "find_transport _ _"] split: option.split)

lemma requests_forward [vc]: "I X W \<Longrightarrow> ends_in (\<lambda>(r, W). I X W) (request_forward E create spec ttype ser fd W)"
  unfolding request_forward_def Let_def
  by (auto intro!: vc ends_in_any [where m = "acquire_one_transport _ _ _"] split: option.split)

lemma handles_request [vc]: "I X W \<Longrightarrow> ends_in (\<lambda>(r, W). I X W) (handle_host_request E service ttype ser fd s W)"
  unfolding handle_host_request_def Let_def
  by (intro ends_in_if) (auto intro!: vc ends_in_any [where m = "acquire_one_transport _ _ _"] ends_in_any [where m = "list_transports _ _"] split: option.split)

lemma service_thread: "create_service_thread E svc W = (fd, W') \<Longrightarrow> I X W \<Longrightarrow> I X W'"
  by (auto simp: create_service_thread_def intro!: vc split: option.splits if_splits)

lemma service_fd: "service_to_fd E name W = (fd, W') \<Longrightarrow> I X W \<Longrightarrow> I X W'"
  by (auto simp: service_to_fd_def intro: service_thread split: option.splits if_splits)

lemma creates_service [vc]: "I X W \<Longrightarrow> ends_in (\<lambda>(r, W). I X W) (create_local_service_socket E name W)"
  unfolding create_local_service_socket_def by (auto intro!: vc dest: service_fd split: prod.split)

lemma host_service [vc]: "I X W \<Longrightarrow> ends_in (\<lambda>(r, W). I X W) (host_service_to_socket E name ser W)"
  using creates_tracker [of X W] unfolding host_service_to_socket_def Let_def
  by (auto intro!: vc dest: service_thread split: option.split prod.split)

lemmas service_binds [vc] = handles_request [THEN ends_in_bind] creates_service [THEN ends_in_bind] host_service [THEN ends_in_bind]

text \<open>The smart socket and the calls through function pointers.\<close>

lemma smart_connects [vc]: "I X W \<Longrightarrow> ends_in (\<lambda>(r, W). I X W) (smart_socket_connect a service W)"
  unfolding smart_socket_connect_def
  by (auto intro!: vc opens [THEN ends_in_bind] split: option.split)

lemma smart_hosts:
  assumes rdy: "\<And>a W. I X W \<Longrightarrow> ends_in (I X) (rdy a W)" and "I X W"
  shows "ends_in (\<lambda>(r, W). I X W) (smart_socket_host E rdy a service ttype ser W)"
  using assms(2) unfolding smart_socket_host_def
  by (auto intro!: vc rdy [THEN ends_in_bind] split: option.split)

lemma smart_enqueues:
  assumes rdy: "\<And>a W. I X W \<Longrightarrow> ends_in (I X) (rdy a W)" and "I X W"
  shows "ends_in (\<lambda>(r, W). I X W) (smart_socket_enqueue E rdy a p W)"
  using assms(2) unfolding smart_socket_enqueue_def Let_def
  by (auto intro!: vc smart_hosts [OF rdy] split: option.split)

lemma readies:
  assumes enq: "\<And>a p W. I X W \<Longrightarrow> fits p \<Longrightarrow> ends_in (\<lambda>(r, W). I X W) (enq a p W)" and "I X W"
  shows "ends_in (I X) (sock_ready enq a W)"
  using assms(2) unfolding sock_ready_def by (auto intro!: vc tracker_ready [OF enq] split: ready_fn.split)

lemma enqueues_at_depth: "I X W \<Longrightarrow> fits p \<Longrightarrow> ends_in (\<lambda>(r, W). I X W) (sock_enqueue n E a p W)"
proof (induction n arbitrary: a p W)
  case (Suc n)
  then show ?case
    by (auto intro!: ends_in_getS enqueues_local enqueues_remote enqueues_tracker smart_enqueues readies intro: loosens split: enqueue_fn.split)
qed simp

lemma enqueues [vc]: "I X W \<Longrightarrow> fits p \<Longrightarrow> ends_in (\<lambda>(r, W). I X W) (enqueue_socket E a p W)"
  unfolding enqueue_socket_def by (rule enqueues_at_depth)

lemma ready_call [vc]: "I X W \<Longrightarrow> ends_in (I X) (ready_socket E a W)"
  unfolding ready_socket_def by (rule readies [OF enqueues])

lemma updates_trackers [vc]: "I X W \<Longrightarrow> ends_in (I X) (update_transports (enqueue_socket E) W)"
  by (rule updates [OF enqueues])

lemmas call_binds [vc] = enqueues [THEN ends_in_bind] ready_call [THEN ends_in_bind] updates_trackers [THEN ends_in_bind]

lemma meets_smartsocket [vc]: "I X W \<Longrightarrow> ends_in (I X) (connect_to_smartsocket E a W)"
  using creates_smart [of X W] unfolding connect_to_smartsocket_def by (auto intro!: vc split: prod.split)

text \<open>The event callback of local sockets.\<close>

lemma event_writes [vc]: "I X W \<Longrightarrow> ends_in (\<lambda>(go, W). I X W) (event_func_write E fd a W)"
proof -
  have w: "I X W1" if "I X W" "event_write_queue fd ps W = (st, ps', W1)" for fd W W1 ps ps' st
    using I_quiet [OF that(1)] quiet_event_write_queue [of W fd ps] that(2) by simp
  show "I X W \<Longrightarrow> ends_in (\<lambda>(go, W). I X W) (event_func_write E fd a W)"
    unfolding event_func_write_def by (auto intro!: vc split: wstat.split prod.split) (rule w)
qed

lemma event_passes: "I X W \<Longrightarrow> length got \<le> MAX_PAYLOAD \<Longrightarrow> ends_in (\<lambda>(go, r, W). I X W) (event_pass_on E a got r W)"
  unfolding event_pass_on_def by (auto intro!: vc split: option.split)

lemma event_reads [vc]: "I X W \<Longrightarrow> ends_in (I X) (event_func_read E fd a W)"
proof -
  assume "I X W"
  obtain got e r W1 where rd: "event_read fd MAX_PAYLOAD [] 0 W = (got, e, r, W1)" by (metis prod_cases4)
  then have "I X W1" "length got \<le> MAX_PAYLOAD" using event_read_result [of W fd MAX_PAYLOAD "[]" 0] I_quiet [OF \<open>I X W\<close>] by simp_all
  with rd show ?thesis
    unfolding event_func_read_def
    by (auto intro!: vc event_passes [THEN ends_in_bind] ends_in_any [where m = "fetch _ _"])
qed

lemma local_events [vc]: "I X W \<Longrightarrow> ends_in (I X) (local_socket_event_func E fd ev a W)"
  unfolding local_socket_event_func_def by (auto intro!: vc event_writes [THEN ends_in_bind])

text \<open>Packets from a device.\<close>

lemma says_ready [vc]: "I X W \<Longrightarrow> ends_in (I X) (send_ready lid rid t W)" "I X W \<Longrightarrow> ends_in (I X) (send_close lid rid t W)"
  unfolding send_ready_def send_close_def by (auto intro!: vc)

lemma says_hello [vc]: "I X W \<Longrightarrow> ends_in (I X) (send_connect t W)"
proof -
  have "wf_packet (get_apacket\<lparr>data := tx @ [NUL], msg := zero_msg\<lparr>command := A_CNXN, arg0 := A_VERSION, arg1 := of_nat MAX_PAYLOAD,
      data_length := of_nat (length tx + 1)\<rparr>\<rparr>)" if "length tx \<le> 100" for tx
    using that by (simp add: wf_packet_def MAX_PAYLOAD_def unat_of_nat del: of_nat_add of_nat_Suc)
  moreover have "length (snprintf MAX_PAYLOAD ((if HOST W then ''host'' else adb_device_banner) @ ''::'')) \<le> 100"
    using length_take [of "MAX_PAYLOAD - 1"] by (simp add: snprintf_def adb_device_banner_def min_def)
  ultimately show "I X W \<Longrightarrow> ends_in (I X) (send_connect t W)" unfolding send_connect_def Let_def by (blast intro: send)
qed

lemma states [vc]: "I X W \<Longrightarrow> ends_in (I X) (set_state st t W)"
  unfolding set_state_def by (auto simp: same_link_def intro!: vc)

lemma goes_offline [vc]: "I X W \<Longrightarrow> ends_in (I X) (handle_offline t W)"
  unfolding handle_offline_def by (rule disconnects_run)

lemmas packet_binds [vc] = says_ready [THEN ends_in_bind] says_hello [THEN ends_in_bind] states [THEN ends_in_bind] goes_offline [THEN ends_in_bind]

lemma parses_banner [vc]: "I X W \<Longrightarrow> ends_in (I X) (parse_banner E banner t W)"
proof -
  have "same_link x (set_product b x)" for b x by (auto simp: set_product_def same_link_def split: option.split)
  then show "I X W \<Longrightarrow> ends_in (I X) (parse_banner E banner t W)"
    unfolding parse_banner_def Let_def by (auto intro!: vc)
qed

lemmas banner_bind [vc] = parses_banner [THEN ends_in_bind]

lemma syncs: "I X W \<Longrightarrow> wf_packet p \<Longrightarrow> ends_in (I X) (handle_sync p t W)"
  unfolding handle_sync_def by (auto intro!: vc)

lemma connects_back: "I X W \<Longrightarrow> ends_in (I X) (handle_cnxn E p t W)"
  unfolding handle_cnxn_def by (auto intro!: vc)

lemma opens_service: "I X W \<Longrightarrow> ends_in (I X) (handle_open E p t W)"
  unfolding handle_open_def Let_def by (auto intro!: vc split: option.split)

lemma okays: "I X W \<Longrightarrow> ends_in (I X) (handle_okay E p t W)"
  unfolding handle_okay_def by (auto intro!: vc ends_in_any [where m = "find_local_socket _ _"] split: option.split)

lemma closes_connection: "I X W \<Longrightarrow> ends_in (I X) (handle_clse p W)"
  unfolding handle_clse_def by (auto intro!: vc ends_in_any [where m = "find_local_socket _ _"] split: option.split)

lemma writes: "I X W \<Longrightarrow> wf_packet p \<Longrightarrow> ends_in (I X) (handle_wrte E p t W)"
  unfolding handle_wrte_def by (auto intro!: vc ends_in_any [where m = "find_local_socket _ _"] dest: fits_received split: option.split)

lemma handles_packet: "I X W \<Longrightarrow> wf_packet p \<Longrightarrow> ends_in (I X) (handle_packet E p t W)"
  unfolding handle_packet_def Let_def
  by (auto intro!: ends_in_getT syncs connects_back opens_service okays closes_connection writes)

text \<open>Callbacks of the event loop.\<close>

lemma transport_events [vc]: "I X W \<Longrightarrow> ends_in (I X) (transport_socket_events E ev t W)"
proof (cases "\<exists>tr p ps. transports W t = Some tr \<and> to_loop tr = p # ps")
  case True
  then obtain tr p ps where tr: "transports W t = Some tr" "to_loop tr = p # ps" by blast
  assume "I X W"
  then have "wf_packet p" using I_delivered [of X W t tr p] tr by simp
  moreover have "I X (W\<lparr>transports := (transports W)(t \<mapsto> tr\<lparr>to_loop := ps\<rparr>)\<rparr>)"
    using \<open>I X W\<close> tr by (intro set_object) (auto simp: same_link_def)
  ultimately show ?thesis
    using \<open>I X W\<close> tr by (simp add: transport_socket_events_def updT_Some handles_packet)
next
  case False
  then show "I X W \<Longrightarrow> ?thesis" by (auto simp: transport_socket_events_def intro!: ends_in_getT split: list.split)
qed

lemma removal:
  assumes "I X W" "registration W = (t, False) # ms"
  shows "ends_in (I X) (remove_registered E t (W\<lparr>registration := ms\<rparr>))"
  using I_pop [OF assms] unfolding remove_registered_def by (auto intro!: vc I_drop)

text \<open>Starting the threads does not depend on the messages that are waiting.\<close>

lemma start_popped:
  assumes "start_transport E pair t (W\<lparr>registration := ms\<rparr>) = Inr W1"
  shows "\<exists>W0. start_transport E pair t W = Inr W0 \<and> W1 = W0\<lparr>registration := ms\<rparr> \<and> registration W0 = registration W"
  using assms
  by (auto simp: start_transport_def updT_def getT_def on_fds_def rbind_eq_Inr_iff split: option.splits if_splits)

lemma starts: "I X W \<Longrightarrow> ends_in (I X) (start_transport E pair t W)"
  unfolding start_transport_def by (auto intro!: vc simp: same_link_def split: option.split)

lemma registration_events [vc]: "I X W \<Longrightarrow> ends_in (\<lambda>(r, W). I X W) (transport_registration_func E pair ev W)"
proof (cases "registration W")
  case (Cons m ms)
  assume "I X W"
  obtain t b where m: "m = (t, b)" by (cases m)
  show ?thesis
  proof (cases b)
    case True
    have go: "ends_in (I X) (link_transport t W1)" if "W1 = W\<lparr>registration := ms\<rparr> \<or> start_transport E pair t (W\<lparr>registration := ms\<rparr>) = Inr W1" for W1
    proof -
      from that consider "W1 = W\<lparr>registration := ms\<rparr>" | "start_transport E pair t (W\<lparr>registration := ms\<rparr>) = Inr W1" by blast
      then obtain W0 where "I X W0" "registration W0 = (t, True) # ms" "W1 = W0\<lparr>registration := ms\<rparr>"
      proof cases
        case 1
        then show thesis using that [of W] \<open>I X W\<close> Cons m True by simp
      next
        case 2
        from start_popped [OF this] show thesis using that starts [OF \<open>I X W\<close>, of E pair t] Cons m True by (auto simp: ends_in_def)
      qed
      then show ?thesis using I_link by (auto simp: ends_in_def)
    qed
    then show ?thesis
      unfolding transport_registration_func_def using Cons m True \<open>I X W\<close>
      by (auto intro!: ends_in_getT ends_in_any [where m = "start_transport _ _ _ _"] go [THEN ends_in_bind] upd_transport [THEN ends_in_bind]
          updates_trackers [THEN ends_in_bind] simp: same_link_def)
  next
    case False
    then show ?thesis
      unfolding transport_registration_func_def using Cons m removal [OF \<open>I X W\<close>, of t ms E] \<open>I X W\<close> by (auto intro: ends_in_bind)
  qed
qed (simp add: transport_registration_func_def)

lemma client_arrives [vc]: "I X W \<Longrightarrow> ends_in (I X) (ss_listener_event_func E fd ev W)"
  unfolding ss_listener_event_func_def by (auto intro!: vc)

lemma forward_arrives [vc]: "I X W \<Longrightarrow> ends_in (I X) (listener_event_func fd ev a W)"
  unfolding listener_event_func_def by (auto intro!: vc)

lemma calls_back: "I X W \<Longrightarrow> ends_in (\<lambda>(r, W). I X W) (plain_fdfunc E acc pair c W)"
  unfolding plain_fdfunc_def
  by (auto intro!: vc local_events [THEN ends_in_bind] client_arrives [THEN ends_in_bind] forward_arrives [THEN ends_in_bind]
      transport_events [THEN ends_in_bind] split: prod.split fd_func.split)

lemma calls_any: "I X W \<Longrightarrow> ends_in (\<lambda>(r, W). I X W) (call_fdfunc E acc pair rcount c W)"
  unfolding call_fdfunc_def Let_def
  by (auto intro!: calls_back vc ends_in_any [where m = "fdevent_subproc_event_func _ _ _ _ _"] split: prod.split fd_func.split option.split)

lemma turns: "I X W \<Longrightarrow> ends_in (\<lambda>x. case x of None \<Rightarrow> True | Some (r, W) \<Rightarrow> I X W) (loop_turn E acc pair rcount W)"
  unfolding loop_turn_def
  by (auto intro!: vc ends_in_any [where m = "fdevent_next _"] calls_any [THEN ends_in_bind] split: option.split)

lemma waits: "I X W \<Longrightarrow> ends_in (I X) (loop_wait sel bad W)"
  unfolding loop_wait_def by (rule event_op)

text \<open>The threads of a transport.\<close>

lemma thread_writes: "I X W \<Longrightarrow> wf_packet p \<Longrightarrow> ends_in (\<lambda>(sent, W). I X W) (thread_write p t W)"
  unfolding thread_write_def by (auto intro!: ends_in_getT I_deliver simp: updT_Some)

lemma output_steps:
  assumes rd: "\<And>W r p W'. I X W \<Longrightarrow> rd t W = Inr (r, p, W') \<Longrightarrow> I X W' \<and> (r = 0 \<longrightarrow> wf_packet p)" and "I X W"
  shows "ends_in (\<lambda>(pc, W). I X W) (output_step rd t pc W)"
proof -
  have "wf_packet (sync_packet x y)" for x y by (simp add: sync_packet_def wf_packet_def zero_msg_def)
  then show ?thesis
    using assms(2) unfolding output_step_def
    by (auto intro!: vc thread_writes [THEN ends_in_bind] ends_in_any [where m = "rd t W"] simp: same_link_def dest: rd split: out_pc.split)
qed

lemma input_steps:
  assumes wr: "\<And>p W r W'. I X W \<Longrightarrow> wr p t W = Inr (r, W') \<Longrightarrow> I X W'" and "I X W"
  shows "ends_in (\<lambda>(pc, W). I X W) (input_step wr t pc W)"
proof -
  have "I X (W\<lparr>transports := (transports W)(t \<mapsto> tr\<lparr>to_threads := ps\<rparr>)\<rparr>)" if "transports W t = Some tr" "to_threads tr = p # ps" for tr p ps
    using assms(2) that by (intro set_object) (auto simp: same_link_def)
  then show ?thesis
    using assms(2) unfolding input_step_def
    by (auto intro!: vc ends_in_any [where m = "wr _ t _"] simp: updT_Some split: in_pc.split list.split) (blast dest: wr)
qed

end

end
