(* ===== verification/Usb_Transfer.thy ===== *)
theory Usb_Transfer
  imports Packet
begin

text \<open>
  Transfers over USB: \<^verbatim>\<open>usb_bulk_write\<close>, \<^verbatim>\<open>usb_bulk_read\<close>, \<^verbatim>\<open>usb_write\<close> and \<^verbatim>\<open>usb_read\<close> of usb_linux.c and
  \<^verbatim>\<open>remote_read\<close> and \<^verbatim>\<open>remote_write\<close> of transport_usb.c. The kernel and the other threads that use the same handle
  are scripts: the results of the successive \<^verbatim>\<open>USBDEVFS_SUBMITURB\<close> and \<^verbatim>\<open>USBDEVFS_REAPURB\<close> calls, and for
  each return of \<^verbatim>\<open>pthread_cond_timedwait\<close> what it yields and what the reaping thread has meanwhile made of the handle.
  A result of \<open>None\<close> is a call that does not return.
\<close>

section \<open>State\<close>

datatype uerr = U_EINTR | U_ETIMEDOUT | U_EOTHER

datatype reap =
    Reap_fail uerr
  | Reap_in int bytes
  | Reap_out
  | Reap_stray

record wake =
  w_res :: int
  w_dead :: bool
  w_busy :: bool
  w_status :: int
  w_actual :: int

text \<open>The fields of \<^verbatim>\<open>usb_handle\<close> that transfers use, the thread's \<^verbatim>\<open>errno\<close>, the scripts and the data of the
  requests that were submitted to the out endpoint. The second component of a reaped request tells whether the handle
  was kicked meanwhile.\<close>

record usb =
  u_desc :: int
  zero_mask :: u32
  urb_in_busy :: bool
  urb_out_busy :: bool
  dead :: bool
  reaping :: bool
  u_errno :: uerr
  submits :: "uerr option list"
  reaps :: "(reap \<times> bool) list"
  wakes :: "wake list"
  u_out :: "bytes list"

section \<open>One request\<close>

text \<open>\<^verbatim>\<open>do res = ioctl(h->desc, USBDEVFS_SUBMITURB, urb); while (res < 0 && errno == EINTR)\<close>.\<close>

fun submit_loop :: "uerr option list \<Rightarrow> usb \<Rightarrow> bool \<times> usb" where
  "submit_loop [] U = (False, U\<lparr>u_errno := U_EOTHER, submits := []\<rparr>)"
| "submit_loop (None # q) U = (True, U\<lparr>submits := q\<rparr>)"
| "submit_loop (Some e # q) U =
     (if e = U_EINTR then submit_loop q (U\<lparr>u_errno := e\<rparr>) else (False, U\<lparr>u_errno := e, submits := q\<rparr>))"

text \<open>The wait for the reaping thread. \<^verbatim>\<open>pthread_cond_timedwait\<close> returns 0 or a positive error number.\<close>

fun wait_loop :: "wake list \<Rightarrow> usb \<Rightarrow> (int \<times> usb) option" where
  "wait_loop [] U = None"
| "wait_loop (w # ws) U =
     (let U1 = U\<lparr>wakes := ws, dead := w_dead w, urb_out_busy := w_busy w\<rparr> in
      if w_res w < 0 \<or> w_dead w then Some (w_res w, U1)
      else if \<not> w_busy w then Some (if w_status w = 0 then w_actual w else w_res w, U1)
      else wait_loop ws U1)"

definition usb_bulk_write :: "bytes \<Rightarrow> usb \<Rightarrow> (int \<times> usb) option" where
  "usb_bulk_write bs U =
     (if dead U then Some (-1, U)
      else case submit_loop (submits U) U of
        (ok, U1) \<Rightarrow>
          if \<not> ok then Some (-1, U1)
          else wait_loop (wakes U1) (U1\<lparr>u_out := u_out U1 @ [bs], urb_out_busy := True\<rparr>))"

fun reap_loop :: "nat \<Rightarrow> (reap \<times> bool) list \<Rightarrow> usb \<Rightarrow> int \<times> bytes \<times> usb" where
  "reap_loop len [] U = (-1, [], U\<lparr>u_errno := U_EOTHER, reaping := False, reaps := []\<rparr>)"
| "reap_loop len ((ev, kicked) # q) U =
     (let U1 = U\<lparr>reaping := False, dead := dead U \<or> kicked, reaps := q,
            u_errno := (case ev of Reap_fail e \<Rightarrow> e | _ \<Rightarrow> u_errno U)\<rparr> in
      if dead U1 then (-1, [], U1)
      else case ev of
        Reap_fail e \<Rightarrow> if e = U_EINTR then reap_loop len q U1 else (-1, [], U1)
      | Reap_in status bs \<Rightarrow>
          let U2 = U1\<lparr>urb_in_busy := False\<rparr> in
          if status = 0 then (int (length (take len bs)), take len bs, U2) else (-1, [], U2)
      | Reap_out \<Rightarrow> reap_loop len q (U1\<lparr>urb_out_busy := False\<rparr>)
      | Reap_stray \<Rightarrow> reap_loop len q U1)"

definition usb_bulk_read :: "nat \<Rightarrow> usb \<Rightarrow> int \<times> bytes \<times> usb" where
  "usb_bulk_read len U =
     (if dead U then (-1, [], U)
      else case submit_loop (submits U) U of
        (ok, U1) \<Rightarrow>
          if \<not> ok then (-1, [], U1)
          else reap_loop len (reaps U1) (U1\<lparr>urb_in_busy := True\<rparr>))"

section \<open>A sequence of requests\<close>

function write_chunks :: "bytes \<Rightarrow> usb \<Rightarrow> (int \<times> usb) option" where
  "write_chunks bs U =
     (if bs = [] then Some (0, U)
      else
        let xfer = (if 4096 < length bs then 4096 else length bs) in
        case usb_bulk_write (take xfer bs) U of
          None \<Rightarrow> None
        | Some (n, U1) \<Rightarrow> if n \<noteq> int xfer then Some (-1, U1) else write_chunks (drop xfer bs) U1)"
  by pat_completeness auto
termination
  by (relation "measure (\<lambda>(bs, U). length bs)") auto

declare write_chunks.simps [simp del]

definition need_zero :: "nat \<Rightarrow> usb \<Rightarrow> bool" where
  "need_zero len U \<longleftrightarrow> zero_mask U \<noteq> 0 \<and> of_nat len AND zero_mask U = 0"

definition usb_write :: "bytes \<Rightarrow> usb \<Rightarrow> (int \<times> usb) option" where
  "usb_write bs U =
     (case write_chunks bs U of
        None \<Rightarrow> None
      | Some (r, U1) \<Rightarrow>
          if r \<noteq> 0 then Some (-1, U1)
          else if need_zero (length bs) U then usb_bulk_write [] U1
          else Some (0, U1))"

text \<open>A short transfer is retried if \<^verbatim>\<open>errno\<close> says so, whichever call has set it.\<close>

partial_function (option) usb_read_loop :: "nat \<Rightarrow> bytes \<Rightarrow> usb \<Rightarrow> (int \<times> bytes \<times> usb) option" where
  "usb_read_loop len got U =
     (if len = 0 then Some (0, got, U)
      else
        let xfer = (if 4096 < len then 4096 else len) in
        case usb_bulk_read xfer U of
          (n, bs, U1) \<Rightarrow>
            if n \<noteq> int xfer then
              if u_errno U1 = U_ETIMEDOUT \<and> u_desc U1 \<noteq> -1 then
                if 0 < n then usb_read_loop (len - nat n) (got @ bs) U1 else usb_read_loop len got U1
              else Some (-1, got @ bs, U1)
            else usb_read_loop (len - xfer) (got @ bs) U1)"

definition usb_read :: "nat \<Rightarrow> usb \<Rightarrow> (int \<times> bytes \<times> usb) option" where
  "usb_read len U = usb_read_loop len [] U"

section \<open>Packets\<close>

definition usb_remote_read :: "apacket \<Rightarrow> usb \<Rightarrow> (int \<times> apacket \<times> usb) option" where
  "usb_remote_read p U =
     (case usb_read sizeof_amessage U of
        None \<Rightarrow> None
      | Some (r, hb, U1) \<Rightarrow>
          if r \<noteq> 0 then Some (-1, p, U1)
          else let p1 = p\<lparr>msg := amessage_of_bytes hb\<rparr> in
            if check_header p1 \<noteq> 0 then Some (-1, p1, U1)
            else case (if data_length (msg p1) \<noteq> 0 then usb_read (unat (data_length (msg p1))) U1 else Some (0, [], U1)) of
              None \<Rightarrow> None
            | Some (r, bs, U2) \<Rightarrow>
                let p2 = p1\<lparr>data := bs\<rparr> in
                if r \<noteq> 0 then Some (-1, p2, U2)
                else if check_data p2 \<noteq> 0 then Some (-1, p2, U2)
                else Some (0, p2, U2))"

definition usb_remote_write :: "apacket \<Rightarrow> usb \<Rightarrow> (int \<times> usb) option" where
  "usb_remote_write p U =
     (case usb_write (amessage_bytes (msg p)) U of
        None \<Rightarrow> None
      | Some (r, U1) \<Rightarrow>
          if r \<noteq> 0 then Some (-1, U1)
          else if data_length (msg p) = 0 then Some (0, U1)
          else case usb_write (take (unat (data_length (msg p))) (data p)) U1 of
            None \<Rightarrow> None
          | Some (r, U2) \<Rightarrow> if r \<noteq> 0 then Some (-1, U2) else Some (0, U2))"

section \<open>Sending\<close>

text \<open>The transfers a buffer should be cut into.\<close>

function blocks :: "nat \<Rightarrow> bytes \<Rightarrow> bytes list" where
  "blocks n bs = (if bs = [] \<or> n = 0 then [] else take n bs # blocks n (drop n bs))"
  by pat_completeness auto
termination
  by (relation "measure (\<lambda>(n, bs). length bs)") auto

declare blocks.simps [simp del]

lemma blocks_Nil [simp]: "blocks n [] = []"
  by (simp add: blocks.simps)

lemma concat_blocks: "0 < n \<Longrightarrow> concat (blocks n bs) = bs"
  by (induction n bs rule: blocks.induct) (subst blocks.simps, simp)

lemma blocks_short: "bs \<noteq> [] \<Longrightarrow> length bs \<le> n \<Longrightarrow> blocks n bs = [bs]"
  by (subst blocks.simps) (cases bs; auto)

lemma submit_loop_frame: "submit_loop q U = (ok, U') \<Longrightarrow> u_out U' = u_out U \<and> zero_mask U' = zero_mask U"
  by (induction q U rule: submit_loop.induct) (auto split: if_splits)

lemma wait_loop_frame: "wait_loop ws U = Some (n, U') \<Longrightarrow> u_out U' = u_out U \<and> zero_mask U' = zero_mask U"
  by (induction ws U rule: wait_loop.induct) (auto simp: Let_def split: if_splits)

lemma usb_bulk_write_out:
  assumes "usb_bulk_write bs U = Some (n, U')" "0 \<le> n"
  shows "u_out U' = u_out U @ [bs] \<and> zero_mask U' = zero_mask U"
  using assms submit_loop_frame wait_loop_frame
  by (fastforce simp: usb_bulk_write_def split: if_splits prod.splits)

lemma write_chunks_out:
  assumes "write_chunks bs U = Some (0, U')"
  shows "u_out U' = u_out U @ blocks 4096 bs \<and> zero_mask U' = zero_mask U"
  using assms
proof (induction bs U rule: write_chunks.induct)
  case (1 bs U)
  show ?case
  proof (cases "bs = []")
    case True
    with "1.prems" show ?thesis by (simp add: write_chunks.simps [of "[]"])
  next
    case False
    define xfer where "xfer = (if 4096 < length bs then 4096 else length bs)"
    have w: "(case usb_bulk_write (take xfer bs) U of None \<Rightarrow> None
      | Some (n, U1) \<Rightarrow> if n \<noteq> int xfer then Some (-1, U1) else write_chunks (drop xfer bs) U1) = Some (0, U')"
      using "1.prems" [unfolded write_chunks.simps [of bs U] if_not_P [OF False] Let_def] unfolding xfer_def .
    then obtain U1 where a: "usb_bulk_write (take xfer bs) U = Some (int xfer, U1)" and b: "write_chunks (drop xfer bs) U1 = Some (0, U')"
      by (auto split: option.splits prod.splits if_splits)
    from "1.IH" [OF False xfer_def a refl _ b] usb_bulk_write_out [OF a]
    have "u_out U' = u_out U @ take xfer bs # blocks 4096 (drop xfer bs) \<and> zero_mask U' = zero_mask U" by simp
    moreover have "take xfer bs = take 4096 bs" "drop xfer bs = drop 4096 bs" by (simp_all add: xfer_def)
    ultimately show ?thesis using False by (subst blocks.simps) simp
  qed
qed

lemma usb_write_out:
  assumes "usb_write bs U = Some (0, U')"
  shows "u_out U' = u_out U @ blocks 4096 bs @ (if need_zero (length bs) U then [[]] else []) \<and> zero_mask U' = zero_mask U"
proof -
  from assms obtain U1 where w: "write_chunks bs U = Some (0, U1)"
    and z: "(if need_zero (length bs) U then usb_bulk_write [] U1 else Some (0, U1)) = Some (0, U')"
    by (auto simp: usb_write_def split: option.splits prod.splits if_splits)
  from z usb_bulk_write_out [of "[]" U1 0 U'] have "u_out U' = u_out U1 @ (if need_zero (length bs) U then [[]] else []) \<and> zero_mask U' = zero_mask U1"
    by (auto split: if_splits)
  with write_chunks_out [OF w] show ?thesis by simp
qed

section \<open>Receiving\<close>

text \<open>The transfers that arrive before anything goes wrong, and the number of requests the kernel will accept.\<close>

fun arriving :: "(reap \<times> bool) list \<Rightarrow> bytes list" where
  "arriving [] = []"
| "arriving ((ev, kicked) # q) =
     (if kicked then []
      else case ev of
        Reap_in status bs \<Rightarrow> if status = 0 then bs # arriving q else []
      | Reap_fail e \<Rightarrow> if e = U_EINTR then arriving q else []
      | Reap_out \<Rightarrow> arriving q
      | Reap_stray \<Rightarrow> arriving q)"

fun accepting :: "uerr option list \<Rightarrow> nat" where
  "accepting [] = 0"
| "accepting (None # q) = Suc (accepting q)"
| "accepting (Some e # q) = (if e = U_EINTR then accepting q else 0)"

lemma submit_loop_accepts:
  assumes "accepting q = Suc n"
  shows "\<exists>U'. submit_loop q U = (True, U') \<and> accepting (submits U') = n \<and> reaps U' = reaps U \<and> dead U' = dead U"
  using assms by (induction q U rule: submit_loop.induct) (auto split: if_splits)

lemma reap_loop_arrives:
  assumes "arriving q = t # ts" "length t = len" "\<not> dead U"
  shows "\<exists>U'. reap_loop len q U = (int len, t, U') \<and> arriving (reaps U') = ts \<and> submits U' = submits U \<and> \<not> dead U'"
  using assms
  by (induction len q U rule: reap_loop.induct) (fastforce simp: Let_def split: reap.splits if_splits)+

lemma usb_bulk_read_arrives:
  assumes "arriving (reaps U) = t # ts" "length t = len" "\<not> dead U" "accepting (submits U) = Suc n"
  shows "\<exists>U'. usb_bulk_read len U = (int len, t, U') \<and> arriving (reaps U') = ts \<and> accepting (submits U') = n \<and> \<not> dead U'"
proof -
  from submit_loop_accepts [OF assms(4)] obtain U1 where
    s: "submit_loop (submits U) U = (True, U1)" "accepting (submits U1) = n" "reaps U1 = reaps U" "dead U1 = dead U" by metis
  from reap_loop_arrives [of "reaps U1" t ts len "U1\<lparr>urb_in_busy := True\<rparr>"] assms(1-3) s(3,4) obtain U' where
    "reap_loop len (reaps U1) (U1\<lparr>urb_in_busy := True\<rparr>) = (int len, t, U')" "arriving (reaps U') = ts" "submits U' = submits U1" "\<not> dead U'"
    by auto
  with s assms(3) show ?thesis by (simp add: usb_bulk_read_def)
qed

lemma usb_read_loop_arrives:
  assumes "arriving (reaps U) = blocks 4096 bs @ rest" "accepting (submits U) = length (blocks 4096 bs) + n" "\<not> dead U"
  shows "\<exists>U'. usb_read_loop (length bs) got U = Some (0, got @ bs, U') \<and> arriving (reaps U') = rest \<and> accepting (submits U') = n \<and> \<not> dead U'"
  using assms
proof (induction "length bs" arbitrary: bs got U rule: less_induct)
  case less
  show ?case
  proof (cases "bs = []")
    case True
    with less.prems show ?thesis by (simp add: usb_read_loop.simps)
  next
    case False
    let ?x = "if 4096 < length bs then 4096 else length bs" let ?t = "take 4096 bs" let ?d = "drop 4096 bs"
    have bl: "blocks 4096 bs = ?t # blocks 4096 ?d" using False by (subst blocks.simps) simp
    have "length ?t = ?x" by simp
    from usb_bulk_read_arrives [OF _ this less.prems(3), of "blocks 4096 ?d @ rest" "length (blocks 4096 ?d) + n"] less.prems(1,2) bl
    obtain U1 where r: "usb_bulk_read ?x U = (int ?x, ?t, U1)" "arriving (reaps U1) = blocks 4096 ?d @ rest"
      "accepting (submits U1) = length (blocks 4096 ?d) + n" "\<not> dead U1" by auto
    have "length ?d < length bs" using False by simp
    from less.hyps [OF this r(2-4), of "got @ ?t"] obtain U' where
      u: "usb_read_loop (length ?d) (got @ ?t) U1 = Some (0, (got @ ?t) @ ?d, U')" "arriving (reaps U') = rest"
        "accepting (submits U') = n" "\<not> dead U'" by blast
    have l: "length bs - ?x = length ?d" by simp
    have "usb_read_loop (length bs) got U = usb_read_loop (length ?d) (got @ ?t) U1"
      by (subst usb_read_loop.simps) (use False r(1) l in \<open>simp add: Let_def\<close>)
    with u show ?thesis by simp
  qed
qed

section \<open>Properties\<close>

text \<open>A link for four requests, on which the given transfers arrive between other events.\<close>

definition demo_usb :: "bytes list \<Rightarrow> usb" where
  "demo_usb ts = \<lparr>u_desc = 3, zero_mask = 0, urb_in_busy = False, urb_out_busy = False, dead = False, reaping = False,
     u_errno = U_EOTHER, submits = [Some U_EINTR, None, None, None, None], reaps = (Reap_out, False) # map (\<lambda>t. (Reap_in 0 t, False)) ts,
     wakes = map (\<lambda>t. \<lparr>w_res = 0, w_dead = False, w_busy = False, w_status = 0, w_actual = int (length t)\<rparr>) ts, u_out = []\<rparr>"

text \<open>What goes out over USB is the data cut into transfers of 4096 bytes and a last shorter one: if \<^verbatim>\<open>usb_write\<close> returns 0, exactly
  these requests were submitted, in order, followed by an empty one exactly if the endpoint needs a marker because the
  length is a multiple of its packet size.\<close>

theorem usb_write_transfers:
  assumes "usb_write bs U = Some (0, U')"
  shows "u_out U' = u_out U @ blocks 4096 bs @ (if zero_mask U \<noteq> 0 \<and> of_nat (length bs) AND zero_mask U = 0 then [[]] else [])
    \<and> concat (blocks 4096 bs) = bs"
  using usb_write_out [OF assms] concat_blocks [of 4096 bs] by (simp add: need_zero_def)

theorem usb_write_transfers_witness:
  "\<exists>U'. usb_write ''ab'' (demo_usb [''ab'', []]\<lparr>zero_mask := 1\<rparr>) = Some (0, U') \<and> u_out U' = [''ab'', []]"
proof -
  let ?U = "demo_usb [''ab'', []]\<lparr>zero_mask := 1\<rparr>"
  have "map_option fst (usb_write ''ab'' ?U) = Some 0"
    by (simp add: demo_usb_def usb_write_def write_chunks.simps usb_bulk_write_def need_zero_def)
  then obtain U' where w: "usb_write ''ab'' ?U = Some (0, U')" by auto
  have "blocks 4096 ''ab'' = [''ab'']" by (simp add: blocks_short)
  with usb_write_transfers [OF w] w show ?thesis by (simp add: demo_usb_def)
qed

text \<open>The packet of the demonstration fills one high-speed packet of 512 bytes.\<close>

definition full_packet :: apacket where
  "full_packet = sample_packet\<lparr>msg := (msg sample_packet)\<lparr>data_length := 512\<rparr>, data := replicate 512 (CHR ''x'')\<rparr>"

lemma full_packet_wf: "wf_packet full_packet" and full_packet_payload: "payload full_packet = replicate 512 (CHR ''x'')"
  by (simp_all add: wf_packet_def full_packet_def payload_def MAX_PAYLOAD_def)

text \<open>C15: A packet that is sealed and written to a USB link goes out as its header and its payload in transfers of at most 4096
  bytes, each of the two followed by an empty transfer exactly if the endpoint needs an end marker and the length is a multiple of its
  packet size. When the data transfers arrive at the other end (the empty ones only end a transfer and carry nothing),
  \<^verbatim>\<open>remote_read\<close> returns the same header and payload, also if the submission or the reaping of a request is
  interrupted or other requests complete in between, and later transfers are left alone.\<close>

theorem usb_packet_roundtrip:
  assumes p: "wf_packet p" and w: "usb_remote_write (seal_packet p) U = Some (0, U')" "u_out U' = u_out U @ ts"
    and r: "\<not> dead V" "arriving (reaps V) = filter (\<lambda>t. t \<noteq> []) ts @ rest" "length ts \<le> accepting (submits V)"
  defines "mark n \<equiv> if zero_mask U \<noteq> 0 \<and> word_of_nat n AND zero_mask U = 0 then [[]] else []"
  shows "ts = [amessage_bytes (msg (seal_packet p))] @ mark 24
      @ (if payload p = [] then [] else blocks 4096 (payload p) @ mark (length (payload p)))
    \<and> (\<exists>V'. usb_remote_read p0 V = Some (0, p0\<lparr>msg := msg (seal_packet p), data := payload p\<rparr>, V') \<and> arriving (reaps V') = rest)"
proof -
  let ?p = "seal_packet p" let ?h = "amessage_bytes (msg ?p)"
  have l: "length ?h = 24" by (simp add: sizeof_amessage_def)
  then have "?h \<noteq> []" by force
  then have h: "blocks 4096 ?h = [?h]" by (rule blocks_short) (simp add: sizeof_amessage_def)
  have mk: "mark n = (if need_zero n U then [[]] else [])" for n by (simp add: mark_def need_zero_def)
  from w(1) obtain U1 where w1: "usb_write ?h U = Some (0, U1)" and w2: "data_length (msg p) = 0 \<and> U' = U1
      \<or> data_length (msg p) \<noteq> 0 \<and> usb_write (payload p) U1 = Some (0, U')"
    by (auto simp: usb_remote_write_def payload_def split: option.splits prod.splits if_splits)
  note o1 = usb_write_out [OF w1]
  have nz: "need_zero n U1 = need_zero n U" for n using o1 by (simp add: need_zero_def)
  have empty: "data_length (msg p) = 0 \<longleftrightarrow> payload p = []"
    using length_payload [OF p] by (metis length_0_conv unat_eq_0)
  have "u_out U' = u_out U @ ?h # mark 24 @ (if payload p = [] then [] else blocks 4096 (payload p) @ mark (length (payload p)))"
    using w2 o1 usb_write_out [of "payload p" U1 U'] empty unfolding mk nz l h by auto
  with w(2) have ts: "ts = [?h] @ mark 24 @ (if payload p = [] then [] else blocks 4096 (payload p) @ mark (length (payload p)))" by simp
  have full: "[] \<notin> set (blocks n bs)" for n bs by (induction n bs rule: blocks.induct) (subst blocks.simps, auto)
  have "filter (\<lambda>t. t \<noteq> []) (mark n) = []" for n by (simp add: mark_def)
  with full [of 4096 "payload p"] have data: "filter (\<lambda>t. t \<noteq> []) ts = blocks 4096 ?h @ blocks 4096 (payload p)"
    unfolding ts h using \<open>?h \<noteq> []\<close> by (auto simp: filter_id_conv)
  have "length (filter (\<lambda>t. t \<noteq> []) ts) \<le> accepting (submits V)" using r(3) length_filter_le le_trans by blast
  then obtain n where n: "accepting (submits V) = length (blocks 4096 ?h) + (length (blocks 4096 (payload p)) + n)"
    unfolding data by (metis add.assoc le_iff_add length_append)
  from usb_read_loop_arrives [OF _ n r(1), of "blocks 4096 (payload p) @ rest" "[]"] r(2) data obtain V1 where
    V1: "usb_read sizeof_amessage V = Some (0, ?h, V1)" "arriving (reaps V1) = blocks 4096 (payload p) @ rest"
      "accepting (submits V1) = length (blocks 4096 (payload p)) + n" "\<not> dead V1" by (auto simp: usb_read_def)
  from usb_read_loop_arrives [OF V1(2-4), of "[]"] obtain V2 where
    V2: "usb_read (unat (data_length (msg p))) V1 = Some (0, payload p, V2)" "arriving (reaps V2) = rest"
    using p by (auto simp: usb_read_def)
  have ok: "check_header (p0\<lparr>msg := msg ?p\<rparr>) = 0" "check_data (p0\<lparr>msg := msg ?p, data := payload p\<rparr>) = 0"
    using seal_passes_checks [OF p] p by (simp_all add: check_header_zero_iff check_data_zero_iff payload_def)
  have "\<exists>V'. usb_remote_read p0 V = Some (0, p0\<lparr>msg := msg ?p, data := payload p\<rparr>, V') \<and> arriving (reaps V') = rest"
    using V1 V2 ok empty by (cases "payload p = []") (auto simp: usb_remote_read_def Let_def)
  with ts show ?thesis by blast
qed

theorem usb_packet_roundtrip_witness:
  "\<exists>U' V'. usb_remote_write (seal_packet full_packet)
       (demo_usb [amessage_bytes (msg (seal_packet full_packet)), replicate 512 (CHR ''x''), []]\<lparr>zero_mask := 511\<rparr>) = Some (0, U')
     \<and> u_out U' = [amessage_bytes (msg (seal_packet full_packet)), replicate 512 (CHR ''x''), []]
     \<and> usb_remote_read get_apacket (demo_usb [amessage_bytes (msg (seal_packet full_packet)), replicate 512 (CHR ''x'')])
       = Some (0, get_apacket\<lparr>msg := msg (seal_packet full_packet), data := replicate 512 (CHR ''x'')\<rparr>, V') \<and> arriving (reaps V') = []"
proof -
  let ?h = "amessage_bytes (msg (seal_packet full_packet))" let ?x = "replicate 512 (CHR ''x'')"
  let ?U = "demo_usb [?h, ?x, []]\<lparr>zero_mask := 511\<rparr>" let ?V = "demo_usb [?h, ?x]"
  have l: "length ?h = 24" by (simp add: sizeof_amessage_def)
  then have ne: "?h \<noteq> []" by force
  have d: "data_length (msg full_packet) = 512" "data full_packet = ?x"
    by (simp_all add: full_packet_def)
  have "map_option (\<lambda>(r, U'). (r, u_out U')) (usb_remote_write (seal_packet full_packet) ?U) = Some (0, [?h, ?x, []])"
    using l ne by (simp add: usb_remote_write_def usb_write_def write_chunks.simps usb_bulk_write_def need_zero_def demo_usb_def d sizeof_amessage_def)
  then obtain U' where w: "usb_remote_write (seal_packet full_packet) ?U = Some (0, U')" "u_out U' = u_out ?U @ [?h, ?x, []]"
    by (auto simp: demo_usb_def)
  have z: "\<not> dead ?V" "arriving (reaps ?V) = filter (\<lambda>t. t \<noteq> []) [?h, ?x, []] @ []" "length [?h, ?x, []] \<le> accepting (submits ?V)"
    using ne by (simp_all add: demo_usb_def)
  have "u_out ?U = []" by (simp add: demo_usb_def)
  with w usb_packet_roundtrip [OF full_packet_wf w z, THEN conjunct2, of get_apacket] show ?thesis
    unfolding full_packet_payload by auto
qed

text \<open>On a handle that was kicked, \<^verbatim>\<open>usb_read\<close> never returns if \<^verbatim>\<open>errno\<close> still says \<^verbatim>\<open>ETIMEDOUT\<close> from an earlier call: every
  round fails without setting it, and the loop goes on.\<close>

theorem usb_read_spins_after_kick:
  assumes "0 < len" "dead U" "u_errno U = U_ETIMEDOUT" "u_desc U \<noteq> -1"
  shows "usb_read len U = None"
proof -
  have "\<not> (0 < len \<and> dead U \<and> u_errno U = U_ETIMEDOUT \<and> u_desc U \<noteq> -1)" if "usb_read_loop len got U = Some y" for len got U y
    by (rule usb_read_loop.raw_induct [of "\<lambda>len got U y. \<not> (0 < len \<and> dead U \<and> u_errno U = U_ETIMEDOUT \<and> u_desc U \<noteq> -1)", OF _ that])
      (fastforce simp: usb_bulk_read_def Let_def split: if_splits)
  with assms show ?thesis unfolding usb_read_def by (metis option.exhaust)
qed

theorem usb_read_spins_after_kick_witness: "usb_read 24 ((demo_usb [])\<lparr>dead := True, u_errno := U_ETIMEDOUT\<rparr>) = None"
  by (rule usb_read_spins_after_kick) (simp_all add: demo_usb_def)

end
