(* ===== verification/Usb_Devices.thy ===== *)
theory Usb_Devices
  imports Usb_Transfer Transport
begin

text \<open>
  Finding and removing USB devices: the vendor list (usb_vendors.c), \<^verbatim>\<open>is_adb_interface\<close> (transport_usb.c), and the scan for
  devices, their registration, kicking and closing (usb_linux.c). What the kernel says about a device is a parameter:
  directory contents, the descriptors that can be read, the results of opening it, of claiming its interface and
  of control requests for string descriptors. A result \<open>None\<close> of the scan is a scan that does not end.
\<close>

section \<open>Vendors\<close>

definition builtInVendorIds :: "int list" where
  "builtInVendorIds =
     [0x18d1, 0x8087, 0x0bb4, 0x04e8, 0x22b8, 0x1004, 0x12D1, 0x0502, 0x0FCE, 0x0489, 0x413c, 0x0955,
      0x091E, 0x04dd, 0x19D2, 0x0482, 0x10A9, 0x05c6, 0x2257, 0x0409, 0x04DA, 0x0930, 0x1F53, 0x2116,
      0x0b05, 0x0471, 0x0451, 0x0F1C, 0x0414, 0x2420, 0x1219, 0x1BBB, 0x2006, 0x17EF, 0xE040, 0x24E3,
      0x1D4D, 0x0E79, 0x1662, 0x04C5, 0x25E3, 0x0408, 0x2314, 0x054C, 0x1949, 0x1EBF]"

definition VENDOR_COUNT_MAX :: nat where "VENDOR_COUNT_MAX = 128"

text \<open>\<^verbatim>\<open>build_path\<close> and \<^verbatim>\<open>get_adb_usb_ini\<close>: \<open>None\<close> if the path does not fit.\<close>

definition build_path :: "nat \<Rightarrow> string \<Rightarrow> string option" where
  "build_path len home =
     (let p = home @ ''/.android/adb_usb.ini'' in if len \<le> length p then None else Some p)"

definition get_adb_usb_ini :: "nat \<Rightarrow> string option \<Rightarrow> string option" where
  "get_adb_usb_ini len home = build_path len (case home of None \<Rightarrow> ''/tmp'' | Some h \<Rightarrow> h)"

text \<open>The loop over the lines of the file. \<^verbatim>\<open>errno\<close> is tested although \<^verbatim>\<open>strtol\<close> does not clear it: \<open>bad\<close> tells whether it was
  \<^verbatim>\<open>EINVAL\<close> or \<^verbatim>\<open>ERANGE\<close> before.\<close>

fun read_vendors :: "bool \<Rightarrow> string list \<Rightarrow> int list \<Rightarrow> int list res" where
  "read_vendors bad [] ids = Inr ids"
| "read_vendors bad (temp # ls) ids =
     (if starts_with ''#'' temp then read_vendors bad ls ids
      else
        let value = strtol 0 temp; bad1 = (bad \<or> strtol_body 0 temp \<noteq> value) in
        if bad1 \<or> 2147483647 < value \<or> value < 0 then Inl (Exit 2)
        else
          let ids1 = ids @ [value] in
          if length ids1 = VENDOR_COUNT_MAX then Inr ids1 else read_vendors bad1 ls ids1)"

text \<open>\<open>lines\<close> are the results of \<^verbatim>\<open>fgets\<close> on the file, if it can be opened.\<close>

definition usb_vendors_init :: "bool \<Rightarrow> string option \<Rightarrow> (string \<Rightarrow> string list option) \<Rightarrow> int list res" where
  "usb_vendors_init bad home lines =
     (case get_adb_usb_ini 4096 home of
        None \<Rightarrow> Inr builtInVendorIds
      | Some p \<Rightarrow>
          (case lines p of None \<Rightarrow> Inr builtInVendorIds | Some ls \<Rightarrow> read_vendors bad ls builtInVendorIds))"

definition ADB_CLASS :: int where "ADB_CLASS = 0xff"
definition ADB_SUBCLASS :: int where "ADB_SUBCLASS = 0x42"
definition ADB_PROTOCOL :: int where "ADB_PROTOCOL = 0x1"

fun is_adb_interface :: "int list \<Rightarrow> int \<Rightarrow> int \<Rightarrow> int \<Rightarrow> int \<Rightarrow> bool" where
  "is_adb_interface [] vid cls sub proto = False"
| "is_adb_interface (v # vs) vid cls sub proto =
     (if vid = v then cls = ADB_CLASS \<and> sub = ADB_SUBCLASS \<and> proto = ADB_PROTOCOL
      else is_adb_interface vs vid cls sub proto)"

section \<open>Descriptors\<close>

definition u8 :: "bytes \<Rightarrow> nat \<Rightarrow> int" where
  "u8 bs i = of_char (bs ! i)"

definition u16at :: "bytes \<Rightarrow> nat \<Rightarrow> int" where
  "u16at bs i = u8 bs i + 256 * u8 bs (i + 1)"

text \<open>What \<^verbatim>\<open>register_device\<close> is called with.\<close>

record usb_match =
  m_ep_in :: int
  m_ep_out :: int
  m_interface :: int
  m_serial_index :: int
  m_zero_mask :: u32

definition make_match :: "int \<Rightarrow> bytes \<Rightarrow> bytes \<Rightarrow> usb_match" where
  "make_match serial_index interface eps =
     (let a1 = u8 eps 2; a2 = u8 eps 9;
          zm = (if u8 interface 7 = 1 then word_of_int (u16at eps 4) - 1 else 0);
          dir_in = (128 \<le> a1) in
      \<lparr>m_ep_in = (if dir_in then a1 else a2), m_ep_out = (if dir_in then a2 else a1),
       m_interface = u8 interface 2, m_serial_index = serial_index, m_zero_mask = zm\<rparr>)"

text \<open>
  The loop over the descriptors; \<open>rest\<close> is what lies between \<^verbatim>\<open>bufptr\<close> and \<^verbatim>\<open>bufend\<close>. The two bytes of a descriptor's head and
  the fields of an interface descriptor are read without a test that they have been filled in.
\<close>

partial_function (option) scan_loop :: "int list \<Rightarrow> int \<Rightarrow> int \<Rightarrow> bytes \<Rightarrow> usb_match option res option" where
  "scan_loop vs vid serial_index rest =
     (if rest = [] then Some (Inr None)
      else if length rest < 2 then Some (Inl UninitRead)
      else if u8 rest 1 = 4 then
        if u8 rest 0 \<noteq> 9 then Some (Inr None)
        else if length rest < 9 then Some (Inl UninitRead)
        else if u8 rest 4 = 2 \<and> is_adb_interface vs vid (u8 rest 5) (u8 rest 6) (u8 rest 7) then
          let eps = drop 9 rest in
          if length eps < 14 then Some (Inr None)
          else if u8 eps 0 \<noteq> 7 \<or> u8 eps 1 \<noteq> 5 \<or> u8 eps 7 \<noteq> 7 \<or> u8 eps 8 \<noteq> 5 then Some (Inr None)
          else if u8 eps 3 \<noteq> 2 \<or> u8 eps 10 \<noteq> 2 then scan_loop vs vid serial_index (drop 14 eps)
          else Some (Inr (Some (make_match serial_index rest eps)))
        else scan_loop vs vid serial_index (drop 9 rest)
      else scan_loop vs vid serial_index (drop (nat (u8 rest 0)) rest))"

text \<open>The descriptors of one device, of which at most 4096 bytes are read; \<open>Inl\<close> is a read that failed, whose -1 is taken for
  a length.\<close>

definition scan_device :: "int list \<Rightarrow> (errno + bytes) \<Rightarrow> usb_match option res option" where
  "scan_device vs rd =
     (case rd of
        Inl e \<Rightarrow> Some (Inl UninitRead)
      | Inr bs \<Rightarrow>
          let devdesc = take 4096 bs in
          if length devdesc < 18 + 9 then Some (Inr None)
          else if u8 devdesc 0 \<noteq> 18 \<or> u8 devdesc 1 \<noteq> 1 then Some (Inr None)
          else
            let config = drop 18 devdesc in
            if u8 config 0 \<noteq> 9 \<or> u8 config 1 \<noteq> 2 then Some (Inr None)
            else scan_loop vs (u16at devdesc 8) (u8 devdesc 16) (drop 9 config))"

section \<open>Handles\<close>

record usb_handle =
  fname :: string
  ep_in :: int
  ep_out :: int
  writeable :: bool
  mark :: bool
  link :: usb

record usb_host =
  handles :: "addr \<rightharpoonup> usb_handle"
  handle_list :: "addr list"
  alarms :: "addr list"
  closed :: "int list"

record usb_kernel =
  k_dir :: "string \<Rightarrow> string list option"
  k_desc :: "string \<Rightarrow> (errno + bytes) option"
  k_open_rw :: "string \<Rightarrow> int"
  k_open_ro :: "string \<Rightarrow> int"
  k_claim :: "string \<Rightarrow> int \<Rightarrow> int"
  k_string :: "string \<Rightarrow> int \<Rightarrow> int \<Rightarrow> bytes option"

definition getH :: "addr \<Rightarrow> usb_host \<Rightarrow> usb_handle res" where
  "getH h S = (case handles S h of None \<Rightarrow> Inl (UseAfterFree h) | Some x \<Rightarrow> Inr x)"

fun find_name :: "string \<Rightarrow> addr list \<Rightarrow> usb_host \<Rightarrow> addr option res" where
  "find_name dev_name [] S = Inr None"
| "find_name dev_name (h # hs) S =
     rbind (getH h S) (\<lambda>x. if fname x = dev_name then Inr (Some h) else find_name dev_name hs S)"

definition known_device :: "string \<Rightarrow> usb_host \<Rightarrow> (bool \<times> usb_host) res" where
  "known_device dev_name S =
     rbind (find_name dev_name (handle_list S) S) (\<lambda>r.
       case r of
         None \<Rightarrow> Inr (False, S)
       | Some h \<Rightarrow> rbind (getH h S) (\<lambda>x. Inr (True, S\<lparr>handles := (handles S)(h \<mapsto> x\<lparr>mark := True\<rparr>)\<rparr>)))"

text \<open>A read-only handle belongs to a device without permissions, whose transport is only unlinked.\<close>

definition usb_kick :: "addr \<Rightarrow> usb_host \<Rightarrow> world \<Rightarrow> (usb_host \<times> world) res" where
  "usb_kick h S W =
     rbind (getH h S) (\<lambda>x.
       let l = link x in
       if dead l then Inr (S, W)
       else if writeable x then
         Inr (S\<lparr>handles := (handles S)(h \<mapsto> x\<lparr>link := l\<lparr>dead := True, urb_in_busy := False, urb_out_busy := False\<rparr>\<rparr>),
                alarms := (if reaping l then alarms S @ [h] else alarms S)\<rparr>, W)
       else
         rbind (unregister_usb_transport h W) (\<lambda>W1.
           Inr (S\<lparr>handles := (handles S)(h \<mapsto> x\<lparr>link := l\<lparr>dead := True\<rparr>\<rparr>)\<rparr>, W1)))"

fun kick_marked :: "addr list \<Rightarrow> usb_host \<Rightarrow> world \<Rightarrow> (usb_host \<times> world) res" where
  "kick_marked [] S W = Inr (S, W)"
| "kick_marked (h # hs) S W =
     rbind (getH h S) (\<lambda>x.
       if \<not> mark x then rbind (usb_kick h S W) (\<lambda>(S1, W1). kick_marked hs S1 W1)
       else kick_marked hs (S\<lparr>handles := (handles S)(h \<mapsto> x\<lparr>mark := False\<rparr>)\<rparr>) W)"

definition kick_disconnected_devices :: "usb_host \<Rightarrow> world \<Rightarrow> (usb_host \<times> world) res" where
  "kick_disconnected_devices S W = kick_marked (handle_list S) S W"

definition usb_close :: "addr \<Rightarrow> usb_host \<Rightarrow> usb_host res" where
  "usb_close h S =
     rbind (getH h S) (\<lambda>x.
       Inr (S\<lparr>handle_list := remove1 h (handle_list S), closed := closed S @ [u_desc (link x)],
              handles := (handles S)(h := None)\<rparr>))"

text \<open>The serial number: every second byte of the string descriptor, in the first of the device's languages that yields one. The
  request for string 0 in language 0 lists the languages.\<close>

definition shorts :: "bytes \<Rightarrow> int list" where
  "shorts bs = map (\<lambda>i. u16at (bs @ [NUL]) (2 * i)) [0 ..< length bs div 2]"

definition languages :: "bytes option \<Rightarrow> int list" where
  "languages r = (case r of None \<Rightarrow> [] | Some bs \<Rightarrow> if length bs < 2 then [] else drop 1 (shorts bs))"

fun serial_loop :: "(int \<Rightarrow> bytes option) \<Rightarrow> int list \<Rightarrow> string" where
  "serial_loop req [] = []"
| "serial_loop req (lang # ls) =
     (case req lang of
        None \<Rightarrow> serial_loop req ls
      | Some bs \<Rightarrow> if bs = [] then serial_loop req ls else c_str (map (\<lambda>w. char_of (nat w)) (drop 1 (shorts bs))))"

definition read_serial :: "usb_kernel \<Rightarrow> string \<Rightarrow> int \<Rightarrow> string" where
  "read_serial k dev_name serial_index =
     (if serial_index = 0 then []
      else serial_loop (k_string k dev_name serial_index) (languages (k_string k dev_name 0 0)))"

definition fresh_link :: "int \<Rightarrow> u32 \<Rightarrow> usb" where
  "fresh_link fd zm = \<lparr>u_desc = fd, zero_mask = zm, urb_in_busy = False, urb_out_busy = False, dead = False, reaping = False,
     u_errno = U_EOTHER, submits = [], reaps = [], wakes = [], u_out = []\<rparr>"

definition register_device :: "usb_kernel \<Rightarrow> string \<Rightarrow> usb_match \<Rightarrow> usb_host \<times> world \<Rightarrow> (usb_host \<times> world) res" where
  "register_device k dev_name m SW =
     (case SW of (S, W) \<Rightarrow>
        rbind (find_name dev_name (handle_list S) S) (\<lambda>known.
          if known \<noteq> None then Inr (S, W)
          else
            let rw = k_open_rw k dev_name; ro = k_open_ro k dev_name; fd = (if rw < 0 then ro else rw); wr = (0 \<le> rw) in
            if fd < 0 then Inr (S, W)
            else if wr \<and> k_claim k dev_name (m_interface m) \<noteq> 0 then Inr (S\<lparr>closed := closed S @ [fd]\<rparr>, W)
            else
              let h = next_addr W;
                  x = \<lparr>fname = dev_name, ep_in = m_ep_in m, ep_out = m_ep_out m, writeable = wr, mark = True,
                       link = fresh_link fd (m_zero_mask m)\<rparr> in
              Inr (S\<lparr>handles := (handles S)(h \<mapsto> x), handle_list := handle_list S @ [h]\<rparr>,
                   register_usb_transport h (Some (read_serial k dev_name (m_serial_index m))) wr (W\<lparr>next_addr := h + 1\<rparr>))))"

section \<open>The scan\<close>

definition badname :: "string \<Rightarrow> bool" where
  "badname name \<longleftrightarrow> \<not> list_all isdigit name"

fun scan_devs :: "usb_kernel \<Rightarrow> int list \<Rightarrow> string \<Rightarrow> string list \<Rightarrow> usb_host \<times> world \<Rightarrow> (usb_host \<times> world) res option" where
  "scan_devs k vs busname [] SW = Some (Inr SW)"
| "scan_devs k vs busname (name # names) SW =
     (if badname name then scan_devs k vs busname names SW
      else
        let devname = snprintf 32 (busname @ ''/'' @ name) in
        case known_device devname (fst SW) of
          Inl e \<Rightarrow> Some (Inl e)
        | Inr (known, S) \<Rightarrow>
            if known then scan_devs k vs busname names (S, snd SW)
            else (case k_desc k devname of
                None \<Rightarrow> scan_devs k vs busname names (S, snd SW)
              | Some rd \<Rightarrow>
                  (case scan_device vs rd of
                     None \<Rightarrow> None
                   | Some (Inl e) \<Rightarrow> Some (Inl e)
                   | Some (Inr None) \<Rightarrow> scan_devs k vs busname names (S, snd SW)
                   | Some (Inr (Some m)) \<Rightarrow>
                       (case register_device k devname m (S, snd SW) of
                          Inl e \<Rightarrow> Some (Inl e)
                        | Inr SW1 \<Rightarrow> scan_devs k vs busname names SW1))))"

fun scan_buses :: "usb_kernel \<Rightarrow> int list \<Rightarrow> string \<Rightarrow> string list \<Rightarrow> usb_host \<times> world \<Rightarrow> (usb_host \<times> world) res option" where
  "scan_buses k vs base [] SW = Some (Inr SW)"
| "scan_buses k vs base (name # names) SW =
     (if badname name then scan_buses k vs base names SW
      else
        let busname = snprintf 32 (base @ ''/'' @ name) in
        case k_dir k busname of
          None \<Rightarrow> scan_buses k vs base names SW
        | Some devs \<Rightarrow>
            (case scan_devs k vs busname devs SW of
               None \<Rightarrow> None
             | Some (Inl e) \<Rightarrow> Some (Inl e)
             | Some (Inr SW1) \<Rightarrow> scan_buses k vs base names SW1))"

definition find_usb_device :: "usb_kernel \<Rightarrow> int list \<Rightarrow> string \<Rightarrow> usb_host \<times> world \<Rightarrow> (usb_host \<times> world) res option" where
  "find_usb_device k vs base SW = (case k_dir k base of None \<Rightarrow> Some (Inr SW) | Some buses \<Rightarrow> scan_buses k vs base buses SW)"

text \<open>One round of \<^verbatim>\<open>device_poll_thread\<close>.\<close>

definition device_poll :: "usb_kernel \<Rightarrow> int list \<Rightarrow> usb_host \<times> world \<Rightarrow> (usb_host \<times> world) res option" where
  "device_poll k vs SW =
     (case find_usb_device k vs ''/dev/bus/usb'' SW of
        None \<Rightarrow> None
      | Some (Inl e) \<Rightarrow> Some (Inl e)
      | Some (Inr (S, W)) \<Rightarrow> Some (kick_disconnected_devices S W))"

section \<open>What a scan finds\<close>

lemma is_adb_interface_iff:
  "is_adb_interface vs vid cls sub proto \<longleftrightarrow> vid \<in> set vs \<and> cls = ADB_CLASS \<and> sub = ADB_SUBCLASS \<and> proto = ADB_PROTOCOL"
  by (induction vs) auto

text \<open>A descriptor of another kind, or of an interface that is not adb's.\<close>

definition other_descriptor :: "int list \<Rightarrow> int \<Rightarrow> bytes \<Rightarrow> bool" where
  "other_descriptor vs vid d \<longleftrightarrow> 2 \<le> length d \<and> u8 d 0 = int (length d)
     \<and> (u8 d 1 = 4 \<longrightarrow> length d = 9 \<and> \<not> (u8 d 4 = 2 \<and> is_adb_interface vs vid (u8 d 5) (u8 d 6) (u8 d 7)))"

lemma u8_append [simp]: "i < length d \<Longrightarrow> u8 (d @ r) i = u8 d i"
  by (simp add: u8_def nth_append)

lemma scan_loop_skips:
  assumes "other_descriptor vs vid d"
  shows "scan_loop vs vid si (d @ r) = scan_loop vs vid si r"
proof -
  have len: "2 \<le> length d" "u8 d 0 = int (length d)" using assms by (simp_all add: other_descriptor_def)
  then have "0 < length d" "1 < length d" by linarith+
  note u = u8_append [OF this(1), of r] u8_append [OF this(2), of r]
  have d: "2 \<le> length d" "u8 d 0 = int (length d)" "u8 (d @ r) 0 = u8 d 0" "u8 (d @ r) 1 = u8 d 1" "d @ r \<noteq> []" "\<not> length (d @ r) < 2"
    using len u by auto
  show ?thesis
  proof (cases "u8 d 1 = 4")
    case False
    have "0 < length d" "Suc 0 < length d" using d(1) by auto
    with False d(1,2) show ?thesis by (subst scan_loop.simps) (auto simp: neq_Nil_conv)
  next
    case True
    then have i: "length d = 9" "\<not> (u8 d 4 = 2 \<and> is_adb_interface vs vid (u8 d 5) (u8 d 6) (u8 d 7))"
      using assms by (auto simp: other_descriptor_def)
    let ?R = "d @ r"
    have c: "u8 ?R 1 = 4" "\<not> u8 ?R 0 \<noteq> 9" "\<not> length ?R < 9" "\<not> (u8 ?R 4 = 2 \<and> is_adb_interface vs vid (u8 ?R 5) (u8 ?R 6) (u8 ?R 7))"
      and dr: "drop 9 ?R = r" using i True d by simp_all
    show ?thesis
      by (simp only: scan_loop.simps [of vs vid si ?R] if_not_P [OF d(5)] if_not_P [OF d(6)] if_P [OF c(1)] if_not_P [OF c(2)]
        if_not_P [OF c(3)] if_not_P [OF c(4)] dr)
  qed
qed

lemma scan_loop_skips_all: "list_all (other_descriptor vs vid) ds \<Longrightarrow> scan_loop vs vid si (concat ds @ r) = scan_loop vs vid si r"
  by (induction ds) (simp_all add: scan_loop_skips)

definition bulk_endpoint :: "bytes \<Rightarrow> bool" where
  "bulk_endpoint e \<longleftrightarrow> length e = 7 \<and> u8 e 0 = 7 \<and> u8 e 1 = 5 \<and> u8 e 3 = 2"

definition adb_descriptor :: "bytes \<Rightarrow> bool" where
  "adb_descriptor d \<longleftrightarrow> length d = 9 \<and> u8 d 0 = 9 \<and> u8 d 1 = 4 \<and> u8 d 4 = 2 \<and> u8 d 5 = ADB_CLASS \<and> u8 d 6 = ADB_SUBCLASS
     \<and> u8 d 7 = ADB_PROTOCOL"

lemma u8_shift: "length d = n \<Longrightarrow> u8 (d @ r) (n + i) = u8 r i"
  by (simp add: u8_def nth_append)

lemma scan_loop_matches:
  assumes "adb_descriptor i" "bulk_endpoint e1" "bulk_endpoint e2" "vid \<in> set vs"
  shows "scan_loop vs vid si (i @ e1 @ e2 @ r) = Some (Inr (Some (make_match si i (e1 @ e2))))"
proof -
  let ?rest = "i @ e1 @ e2 @ r" let ?eps = "e1 @ e2 @ r"
  have l: "length i = 9" "length e1 = 7" "length e2 = 7" using assms by (simp_all add: adb_descriptor_def bulk_endpoint_def)
  have ne: "i \<noteq> []" using l(1) by force
  have i: "u8 ?rest 0 = 9" "u8 ?rest 1 = 4" "u8 ?rest 4 = 2" "is_adb_interface vs vid (u8 ?rest 5) (u8 ?rest 6) (u8 ?rest 7)"
    using assms(1,4) l(1) by (simp_all add: adb_descriptor_def is_adb_interface_iff)
  have e: "u8 ?eps 0 = 7" "u8 ?eps 1 = 5" "u8 ?eps 3 = 2" "u8 ?eps 7 = 7" "u8 ?eps 8 = 5" "u8 ?eps 10 = 2"
    using assms(2,3) l u8_shift [of e1 7 "e2 @ r" 0] u8_shift [of e1 7 "e2 @ r" 1] u8_shift [of e1 7 "e2 @ r" 3]
    by (simp_all add: bulk_endpoint_def)
  have "make_match si ?rest ?eps = make_match si i (e1 @ e2)"
    using l u8_append [of _ "e1 @ e2" r] by (simp add: make_match_def u16at_def)
  moreover have "drop 9 ?rest = ?eps" using l(1) by simp
  ultimately show ?thesis
    by (subst scan_loop.simps) (use i e l ne in \<open>simp add: Let_def\<close>)
qed

lemma scan_loop_zero_length:
  assumes "u8 rest 0 = 0" "u8 rest 1 \<noteq> 4" "2 \<le> length rest"
  shows "scan_loop vs vid si rest = None"
proof -
  have "\<not> (u8 rest 0 = 0 \<and> u8 rest 1 \<noteq> 4 \<and> 2 \<le> length rest)" if "scan_loop vs vid si rest = Some y" for vs vid si rest y
    by (rule scan_loop.raw_induct [of "\<lambda>vs vid si rest y. \<not> (u8 rest 0 = 0 \<and> u8 rest 1 \<noteq> 4 \<and> 2 \<le> length rest)", OF _ that])
      (fastforce split: if_splits)
  with assms show ?thesis by (metis option.exhaust)
qed

section \<open>Handles that are gone\<close>

definition kicked_handle :: "usb_handle \<Rightarrow> usb_handle" where
  "kicked_handle x = (if mark x then x\<lparr>mark := False\<rparr> else if dead (link x) then x
     else x\<lparr>link := (link x)\<lparr>dead := True, urb_in_busy := False, urb_out_busy := False\<rparr>\<rparr>)"

lemma kick_marked_handles:
  assumes "distinct hs" "\<forall>h \<in> set hs. \<exists>x. handles S h = Some x \<and> writeable x"
  shows "\<exists>S'. kick_marked hs S W = Inr (S', W) \<and> handle_list S' = handle_list S
    \<and> handles S' = (\<lambda>h. if h \<in> set hs then map_option kicked_handle (handles S h) else handles S h)"
  using assms
proof (induction hs arbitrary: S)
  case (Cons h hs)
  then obtain x where x: "handles S h = Some x" "writeable x" by auto
  have "\<exists>S1. kick_marked (h # hs) S W = kick_marked hs S1 W \<and> handle_list S1 = handle_list S
    \<and> handles S1 = (handles S)(h \<mapsto> kicked_handle x)"
  proof (cases "mark x")
    case True
    then show ?thesis using x by (auto simp: getH_def kicked_handle_def)
  next
    case False
    then show ?thesis using x by (auto simp: getH_def kicked_handle_def usb_kick_def Let_def fun_upd_idem)
  qed
  then obtain S1 where s: "kick_marked (h # hs) S W = kick_marked hs S1 W" "handle_list S1 = handle_list S"
    "handles S1 = (handles S)(h \<mapsto> kicked_handle x)" by blast
  have "\<forall>g \<in> set hs. \<exists>y. handles S1 g = Some y \<and> writeable y" using Cons.prems s(3) by auto
  from Cons.IH [OF _ this] Cons.prems(1) obtain S' where "kick_marked hs S1 W = Inr (S', W)" "handle_list S' = handle_list S1"
    "handles S' = (\<lambda>h. if h \<in> set hs then map_option kicked_handle (handles S1 h) else handles S1 h)" by auto
  with s x Cons.prems(1) show ?case by (auto simp: fun_eq_iff)
qed simp

lemma read_vendors_bounds:
  assumes "read_vendors bad ls ids = Inr ids'" "length ids < VENDOR_COUNT_MAX"
  shows "length ids' \<le> VENDOR_COUNT_MAX \<and> (\<exists>new. ids' = ids @ new \<and> (\<forall>v \<in> set new. 0 \<le> v \<and> v < 2 ^ 31))"
  using assms
proof (induction bad ls ids rule: read_vendors.induct)
  case (2 bad temp ls ids)
  show ?case
  proof (cases "starts_with ''#'' temp")
    case True
    with 2 show ?thesis by simp
  next
    case False
    let ?v = "strtol 0 temp" let ?b = "bad \<or> strtol_body 0 temp \<noteq> ?v"
    have ok: "\<not> (?b \<or> 2147483647 < ?v \<or> ?v < 0)" using "2.prems"(1) False by (auto simp: Let_def split: if_splits)
    show ?thesis
    proof (cases "length (ids @ [?v]) = VENDOR_COUNT_MAX")
      case True
      with "2.prems"(1) False ok have "ids' = ids @ [?v]" by (simp add: Let_def)
      with True ok show ?thesis by auto
    next
      case neq: False
      with "2.prems" False ok have "read_vendors ?b ls (ids @ [?v]) = Inr ids'" "length (ids @ [?v]) < VENDOR_COUNT_MAX"
        by (simp_all add: Let_def)
      from "2.IH"(2) [OF False refl refl ok refl neq this] ok show ?thesis by auto
    qed
  qed
qed simp

section \<open>Properties\<close>

text \<open>C27: The scan recognises an adb device. For a device of a known vendor whose descriptors are well formed, the first adb interface with two
  bulk endpoints is found, after any number of other descriptors as long as all of them are in the first 4096 bytes, and registered with the endpoint whose address has the direction
  bit as the one to read from and the other one to write to; the marker mask is that of the first endpoint's packet size.\<close>

theorem scan_finds_adb_interface:
  assumes dev: "length dv = 18" "u8 dv 0 = 18" "u8 dv 1 = 1" and cfg: "length cfg = 9" "u8 cfg 0 = 9" "u8 cfg 1 = 2"
    and ds: "u16at dv 8 \<in> set vs" "list_all (other_descriptor vs (u16at dv 8)) ds"
    and i: "adb_descriptor i" "bulk_endpoint e1" "bulk_endpoint e2"
    and fits: "length (concat ds) + 50 \<le> 4096"
  shows "scan_device vs (Inr (dv @ cfg @ concat ds @ i @ e1 @ e2 @ rest)) = Some (Inr (Some
    \<lparr>m_ep_in = (if 128 \<le> u8 e1 2 then u8 e1 2 else u8 e2 2), m_ep_out = (if 128 \<le> u8 e1 2 then u8 e2 2 else u8 e1 2),
     m_interface = u8 i 2, m_serial_index = u8 dv 16, m_zero_mask = word_of_int (u8 e1 4 + 256 * u8 e1 5) - 1\<rparr>))"
proof -
  let ?q = "take (4046 - length (concat ds)) rest" let ?r = "cfg @ concat ds @ i @ e1 @ e2 @ ?q"
  have l: "length i = 9" "length e1 = 7" "length e2 = 7" "u8 i 7 = 1" using i by (simp_all add: adb_descriptor_def bulk_endpoint_def ADB_PROTOCOL_def)
  have read: "take 4096 (dv @ cfg @ concat ds @ i @ e1 @ e2 @ rest) = dv @ ?r" using fits dev(1) cfg(1) l by (simp add: length_concat)
  have d: "u8 (dv @ ?r) 0 = 18" "u8 (dv @ ?r) 1 = 1" "u16at (dv @ ?r) 8 = u16at dv 8" "u8 (dv @ ?r) 16 = u8 dv 16" "drop 18 (dv @ ?r) = ?r"
    "\<not> length (dv @ ?r) < 18 + 9"
    using dev cfg(1) u8_append [of 0 dv ?r] u8_append [of 1 dv ?r] by (simp_all add: u16at_def)
  have c: "u8 ?r 0 = 9" "u8 ?r 1 = 2" "drop 9 ?r = concat ds @ i @ e1 @ e2 @ ?q"
    using cfg u8_append [of 0 cfg] u8_append [of 1 cfg] by simp_all
  have e2: "u8 (e1 @ e2) 9 = u8 e2 2" using u8_shift [of e1 7 e2 2] l by simp
  have "scan_device vs (Inr (dv @ cfg @ concat ds @ i @ e1 @ e2 @ rest)) = scan_loop vs (u16at dv 8) (u8 dv 16) (concat ds @ i @ e1 @ e2 @ ?q)"
    unfolding scan_device_def sum.case read Let_def if_not_P [OF d(6)] Let_def d(1-5) c by simp
  also have "\<dots> = Some (Inr (Some (make_match (u8 dv 16) i (e1 @ e2))))"
    by (simp add: scan_loop_skips_all [OF ds(2)] scan_loop_matches [OF i ds(1)])
  also have "make_match (u8 dv 16) i (e1 @ e2) = \<lparr>m_ep_in = (if 128 \<le> u8 e1 2 then u8 e1 2 else u8 e2 2),
      m_ep_out = (if 128 \<le> u8 e1 2 then u8 e2 2 else u8 e1 2), m_interface = u8 i 2, m_serial_index = u8 dv 16,
      m_zero_mask = word_of_int (u8 e1 4 + 256 * u8 e1 5) - 1\<rparr>"
    using l e2 by (simp add: make_match_def u16at_def)
  finally show ?thesis .
qed

definition desc :: "nat list \<Rightarrow> bytes" where
  "desc ns = map char_of ns"

lemma length_desc [simp]: "length (desc ns) = length ns"
  by (simp add: desc_def)

lemma u8_desc [simp]:
  assumes "i < length ns"
  shows "u8 (desc ns) i = int (ns ! i mod 256)"
proof -
  have "u8 (desc ns) i = int (of_char (char_of (ns ! i) :: char))" using assms by (simp only: u8_def desc_def nth_map of_nat_of_char)
  then show ?thesis by simp
qed

theorem scan_finds_adb_interface_witness:
  "scan_device builtInVendorIds (Inr (desc [18, 1, 0, 2, 0, 0, 0, 64, 0xd1, 0x18, 0x12, 0x4e, 0, 0, 1, 2, 3, 1] @ desc [9, 2, 62, 0, 2, 1, 0, 128, 50]
      @ desc [9, 4, 0, 0, 2, 8, 6, 80, 0] @ desc [7, 5, 0x81, 2, 0, 2, 0] @ desc [7, 5, 2, 2, 0, 2, 0]
      @ desc [9, 4, 1, 0, 2, 255, 66, 1, 0] @ desc [7, 5, 3, 2, 0, 2, 0] @ desc [7, 5, 0x83, 2, 0, 2, 0] @ []))
    = Some (Inr (Some \<lparr>m_ep_in = 0x83, m_ep_out = 3, m_interface = 1, m_serial_index = 3, m_zero_mask = 511\<rparr>))"
proof -
  let ?dv = "desc [18, 1, 0, 2, 0, 0, 0, 64, 0xd1, 0x18, 0x12, 0x4e, 0, 0, 1, 2, 3, 1]" let ?cfg = "desc [9, 2, 62, 0, 2, 1, 0, 128, 50]"
  let ?ds = "[desc [9, 4, 0, 0, 2, 8, 6, 80, 0], desc [7, 5, 0x81, 2, 0, 2, 0], desc [7, 5, 2, 2, 0, 2, 0]]"
  let ?i = "desc [9, 4, 1, 0, 2, 255, 66, 1, 0]" let ?e1 = "desc [7, 5, 3, 2, 0, 2, 0]" let ?e2 = "desc [7, 5, 0x83, 2, 0, 2, 0]"
  have dev: "length ?dv = 18" "u8 ?dv 0 = 18" "u8 ?dv 1 = 1" "length ?cfg = 9" "u8 ?cfg 0 = 9" "u8 ?cfg 1 = 2" "u16at ?dv 8 = 0x18d1"
    by (simp_all add: u16at_def)
  have v: "u16at ?dv 8 \<in> set builtInVendorIds" unfolding dev(7) builtInVendorIds_def by simp
  have ds: "list_all (other_descriptor builtInVendorIds (u16at ?dv 8)) ?ds"
    by (simp add: other_descriptor_def is_adb_interface_iff ADB_CLASS_def)
  have i: "adb_descriptor ?i" "bulk_endpoint ?e1" "bulk_endpoint ?e2"
    by (simp_all add: adb_descriptor_def bulk_endpoint_def ADB_CLASS_def ADB_SUBCLASS_def ADB_PROTOCOL_def)
  have "length (concat ?ds) + 50 \<le> 4096" by simp
  from scan_finds_adb_interface [OF dev(1-6) v ds i this, of "[]"] show ?thesis by simp
qed

text \<open>The vendor table stays within its 128 entries whatever the configuration file holds: either the program exits, or the table is
  the built-in list followed by the numbers of the file, all of them non-negative ints.\<close>

theorem vendor_table_bounded:
  "case usb_vendors_init bad home lines of
     Inl e \<Rightarrow> e = Exit 2
   | Inr ids \<Rightarrow> length ids \<le> VENDOR_COUNT_MAX
       \<and> (\<exists>new. ids = builtInVendorIds @ new \<and> list_all (\<lambda>v. 0 \<le> v \<and> v < 2 ^ 31) new)"
proof -
  have b: "length builtInVendorIds < VENDOR_COUNT_MAX" by (simp add: builtInVendorIds_def VENDOR_COUNT_MAX_def)
  have e: "read_vendors bad ls ids = Inl x \<Longrightarrow> x = Exit 2" for bad ls ids x
    by (induction bad ls ids rule: read_vendors.induct) (auto simp: Let_def split: if_splits)
  show ?thesis
  proof (cases "usb_vendors_init bad home lines")
    case (Inl x)
    then obtain ls where "read_vendors bad ls builtInVendorIds = Inl x"
      unfolding usb_vendors_init_def by (metis (no_types, lifting) Inl_Inr_False option.case_eq_if)
    from e [OF this] Inl show ?thesis by simp
  next
    case (Inr ids)
    then consider "ids = builtInVendorIds" | ls where "read_vendors bad ls builtInVendorIds = Inr ids"
      unfolding usb_vendors_init_def by (metis (no_types, lifting) Inr_inject option.case_eq_if)
    then have "length ids \<le> VENDOR_COUNT_MAX \<and> (\<exists>new. ids = builtInVendorIds @ new \<and> (\<forall>v \<in> set new. 0 \<le> v \<and> v < 2 ^ 31))"
    proof cases
      case 1
      then show ?thesis using b by simp
    next
      case 2
      from read_vendors_bounds [OF 2 b] show ?thesis .
    qed
    then show ?thesis by (simp only: Inr sum.case list_all_iff)
  qed
qed

text \<open>After a scan exactly the devices that were not seen are kicked: for handles open for writing, \<^verbatim>\<open>kick_disconnected_devices\<close>
  leaves every handle the scan has marked alive and clears its mark for the next round, and makes every other handle dead with no
  request pending; no handle is removed and the transports are untouched.\<close>

theorem unseen_devices_are_kicked:
  assumes "distinct (handle_list S)" "\<forall>h \<in> set (handle_list S). \<exists>x. handles S h = Some x \<and> writeable x"
    and "h \<in> set (handle_list S)" "handles S h = Some x"
  shows "\<exists>S' x'. kick_disconnected_devices S W = Inr (S', W) \<and> handle_list S' = handle_list S \<and> handles S' h = Some x'
    \<and> (if mark x then x' = x\<lparr>mark := False\<rparr> else dead (link x') \<and> \<not> mark x' \<and> fname x' = fname x
         \<and> (\<not> dead (link x) \<longrightarrow> \<not> urb_in_busy (link x') \<and> \<not> urb_out_busy (link x')))"
proof -
  from kick_marked_handles [OF assms(1,2), of W] obtain S' where
    S': "kick_disconnected_devices S W = Inr (S', W)" "handle_list S' = handle_list S" "handles S' h = Some (kicked_handle x)"
    using assms(3,4) by (auto simp: kick_disconnected_devices_def)
  then show ?thesis by (intro exI [of _ S'] exI [of _ "kicked_handle x"]) (simp add: kicked_handle_def)
qed

definition demo_host :: usb_host where
  "demo_host = (let x = \<lparr>fname = ''/dev/bus/usb/001/004'', ep_in = 0x83, ep_out = 3, writeable = True, mark = False, link = fresh_link 5 511\<rparr> in
     \<lparr>handles = [7 \<mapsto> x, 8 \<mapsto> x\<lparr>fname := ''/dev/bus/usb/001/005'', mark := True\<rparr>], handle_list = [7, 8], alarms = [], closed = []\<rparr>)"

theorem unseen_devices_are_kicked_witness:
  "\<exists>S' x'. kick_disconnected_devices demo_host world_init = Inr (S', world_init) \<and> handles S' 7 = Some x' \<and> dead (link x')"
proof -
  have p: "distinct (handle_list demo_host)" "\<forall>h \<in> set (handle_list demo_host). \<exists>x. handles demo_host h = Some x \<and> writeable x"
    "7 \<in> set (handle_list demo_host)" by (simp_all add: demo_host_def Let_def)
  obtain x where x: "handles demo_host 7 = Some x" "\<not> mark x" by (simp add: demo_host_def Let_def)
  from unseen_devices_are_kicked [OF p x(1), of world_init] x(2) show ?thesis by auto
qed

end
