(* ===== verification/Server_Run.thy ===== *)
theory Server_Run
  imports Server_Inv Usb_Devices "HOL-Library.Sublist"
begin

text \<open>
  The running server: \<^verbatim>\<open>adb_main\<close>, and the steps of the event loop and of all threads in any order. Four invariants are shown for
  every state the server can reach, each an interpretation of the locales of theory \<open>Server_Inv\<close>: packets in the pipes between
  the event loop and the threads are well formed and sealed, the ids of local sockets are unique, the list of local
  sockets holds sockets that are allocated, and the registry of transports is in order: the pointers of the device list lead from the
  head back to the head, the messages about new transports wait in the order of their addresses, and no port is in the table of emulators twice.
\<close>

section \<open>Effects of the elementary changes\<close>

definition same_sockets :: "world \<Rightarrow> world \<Rightarrow> bool" where
  "same_sockets W W' \<longleftrightarrow>
     sockets W' = sockets W \<and> local_socket_list W' = local_socket_list W \<and> local_socket_next_id W' = local_socket_next_id W"

text \<open>Linking and unlinking change nothing but the pointers of the device list, and with them what a walk along it visits.\<close>

definition same_but_links :: "world \<Rightarrow> world \<Rightarrow> bool" where
  "same_but_links W W' \<longleftrightarrow> same_sockets W W' \<and> transports W' = transports W \<and> local_transports W' = local_transports W
     \<and> registration W' = registration W \<and> HOST W' = HOST W \<and> next_addr W' = next_addr W
     \<and> transport_list W' = walk (next_addr W) (dev_nxt W') 0"

lemma unlink_effect:
  assumes "unlink_transport a W = Inr W'"
  shows "transports W a \<noteq> None \<and> same_but_links W W' \<and> (\<exists>n p. dev_nxt W a = Some n \<and> dev_prv W a = Some p
    \<and> dev_nxt W' = (dev_nxt W)(p \<mapsto> n) \<and> dev_prv W' = (dev_prv W)(n \<mapsto> p))"
  using assms by (auto simp: unlink_transport_def relist_def rbind_eq_Inr_iff deref_def getT_def same_sockets_def same_but_links_def split: option.splits)

lemma link_effect:
  assumes "link_transport a W = Inr W'"
  shows "same_but_links W W' \<and> (\<exists>p. dev_prv W 0 = Some p
    \<and> dev_nxt W' = (dev_nxt W)(a \<mapsto> 0, p \<mapsto> a) \<and> dev_prv W' = (dev_prv W)(a \<mapsto> p, 0 \<mapsto> a))"
  using assms by (auto simp: link_transport_def relist_def rbind_eq_Inr_iff deref_def getT_def same_sockets_def same_but_links_def split: option.splits)

lemma blank_transport_fields [simp]:
  "to_threads blank_transport = []" "to_loop blank_transport = []" "disconnects blank_transport = []"
  by (simp_all add: blank_transport_def)

lemma find_port_alloc [simp]: "find_port port xs (W\<lparr>next_addr := n\<rparr>) = find_port port xs W"
  by (induction xs) (auto simp: getT_def split: option.split)

definition same_devices :: "world \<Rightarrow> world \<Rightarrow> bool" where
  "same_devices W W' \<longleftrightarrow> dev_nxt W' = dev_nxt W \<and> dev_prv W' = dev_prv W \<and> transport_list W' = transport_list W"

text \<open>Registering a socket transport fails and changes only descriptors, or adds a new transport; an emulator also enters the table, if its port is free.\<close>

definition table_entered :: "atransport \<Rightarrow> world \<Rightarrow> world \<Rightarrow> bool" where
  "table_entered t W W' \<longleftrightarrow> 0 \<le> free_slot (local_transports W) 0 \<and> find_port (adb_port t) (local_transports W) W = Inr None
     \<and> local_transports W' = (local_transports W)[nat (free_slot (local_transports W) 0) := Some (next_addr W)]"

lemma init_effect:
  assumes "init_socket_transport (next_addr W) blank_transport fd port loc (W\<lparr>next_addr := next_addr W + 1\<rparr>) = Inr (r, t, W1)"
  shows "to_threads t = [] \<and> to_loop t = [] \<and> disconnects t = []
    \<and> (W1 = W\<lparr>next_addr := next_addr W + 1\<rparr>
      \<or> (\<exists>L. W1 = W\<lparr>next_addr := next_addr W + 1, local_transports := L\<rparr> \<and> table_entered t W W1 \<and> 0 \<le> r))"
proof (cases "HOST W \<and> loc")
  case True
  let ?a = "next_addr W" let ?W0 = "W\<lparr>next_addr := next_addr W + 1\<rparr>" let ?i = "free_slot (local_transports W) 0"
  let ?t = "blank_transport\<lparr>t_ops := Socket_ops, sfd := fd, sync_token := 1, connection_state := CS_OFFLINE, t_type := KTransportLocal, adb_port := port\<rparr>"
  note defs = init_socket_transport_def Let_def find_emulator_transport_by_adb_port_def get_available_local_transport_index_def
  have f: "to_threads ?t = []" "to_loop ?t = []" "disconnects ?t = []" "adb_port ?t = port" by simp_all
  show ?thesis
  proof (cases "find_port port (local_transports W) W")
    case (Inl e)
    then show ?thesis using assms True by (simp add: defs)
  next
    case (Inr e)
    show ?thesis
    proof (cases "e \<noteq> None \<or> ?i < 0")
      case bad: True
      then have "init_socket_transport ?a blank_transport fd port loc ?W0 = Inr (-1, ?t, ?W0)"
        using Inr True by (auto simp: defs)
      with assms have t: "t = ?t" and "W1 = ?W0" by simp_all
      with f show ?thesis unfolding t by blast
    next
      case False
      then have "init_socket_transport ?a blank_transport fd port loc ?W0
          = Inr (0, ?t, ?W0\<lparr>local_transports := (local_transports W)[nat ?i := Some ?a]\<rparr>)"
        using Inr True by (auto simp: defs)
      with assms have t: "t = ?t" and W1: "W1 = ?W0\<lparr>local_transports := (local_transports W)[nat ?i := Some ?a]\<rparr>" and r: "r = 0" by simp_all
      have "table_entered t W W1"
        using False Inr unfolding t table_entered_def f W1 by auto
      then show ?thesis using f r W1 unfolding t by blast
    qed
  qed
next
  case False
  then have "init_socket_transport (next_addr W) blank_transport fd port loc (W\<lparr>next_addr := next_addr W + 1\<rparr>)
      = Inr (0, blank_transport\<lparr>t_ops := Socket_ops, sfd := fd, sync_token := 1, connection_state := CS_OFFLINE, t_type := KTransportLocal, adb_port := 0\<rparr>,
        W\<lparr>next_addr := next_addr W + 1\<rparr>)"
    by (auto simp: init_socket_transport_def Let_def)
  with assms have t: "t = blank_transport\<lparr>t_ops := Socket_ops, sfd := fd, sync_token := 1, connection_state := CS_OFFLINE, t_type := KTransportLocal, adb_port := 0\<rparr>"
    and "W1 = W\<lparr>next_addr := next_addr W + 1\<rparr>" by simp_all
  then show ?thesis unfolding t by simp
qed

lemma register_effect:
  assumes "register_socket_transport fd (Some ser) port loc W = Inr W'"
  shows "same_sockets W W' \<and> same_devices W W' \<and> next_addr W' = next_addr W + 1
    \<and> (transports W' = transports W \<and> local_transports W' = local_transports W \<and> registration W' = registration W
      \<or> (\<exists>t. transports W' = (transports W)(next_addr W \<mapsto> t) \<and> to_threads t = [] \<and> to_loop t = [] \<and> disconnects t = []
          \<and> registration W' = registration W @ [(next_addr W, True)]
          \<and> (local_transports W' = local_transports W \<or> table_entered t W W')))"
proof -
  let ?a = "next_addr W" let ?W0 = "W\<lparr>next_addr := next_addr W + 1\<rparr>"
  obtain r t W1 where init: "init_socket_transport ?a blank_transport fd port loc ?W0 = Inr (r, t, W1)"
    and W': "W' = (if r < 0 then W1\<lparr>shut_fds := shut_fds W1 @ [fd]\<rparr>
      else register_transport ?a (W1\<lparr>transports := (transports W1)(?a \<mapsto> t\<lparr>serial := Some ser\<rparr>)\<rparr>))"
  proof (cases "init_socket_transport ?a blank_transport fd port loc ?W0")
    case (Inl e)
    then show ?thesis using assms unfolding register_socket_transport_def Let_def by simp
  next
    case (Inr x)
    obtain r t W1 where x: "x = (r, t, W1)" by (metis prod_cases3)
    have "Inr W' = register_socket_transport fd (Some ser) port loc W" using assms by (rule sym)
    also have "\<dots> = Inr (if r < 0 then W1\<lparr>shut_fds := shut_fds W1 @ [fd]\<rparr>
      else register_transport ?a (W1\<lparr>transports := (transports W1)(?a \<mapsto> t\<lparr>serial := Some ser\<rparr>)\<rparr>))"
      unfolding register_socket_transport_def Let_def Inr x by simp
    finally show ?thesis using that [OF Inr [unfolded x]] by blast
  qed
  note e = init_effect [OF init]
  show ?thesis
  proof (cases "r < 0")
    case True
    then have "W1 = ?W0" using e by auto
    then show ?thesis using W' True by (simp add: same_sockets_def same_devices_def)
  next
    case False
    let ?t = "t\<lparr>serial := Some ser\<rparr>"
    from e have t: "to_threads ?t = []" "to_loop ?t = []" "disconnects ?t = []" "adb_port ?t = adb_port t" by simp_all
    from e consider "W1 = ?W0" | L where "table_entered t W W1" "W1 = ?W0\<lparr>local_transports := L\<rparr>" by blast
    then have "same_sockets W W1 \<and> same_devices W W1 \<and> next_addr W1 = ?a + 1 \<and> transports W1 = transports W \<and> registration W1 = registration W
        \<and> (local_transports W1 = local_transports W \<or> table_entered ?t W W1)"
    proof cases
      case 2
      then show ?thesis by (simp add: same_sockets_def same_devices_def table_entered_def)
    qed (simp add: same_sockets_def same_devices_def)
    then have "same_sockets W W' \<and> same_devices W W' \<and> next_addr W' = ?a + 1 \<and> transports W' = (transports W)(?a \<mapsto> ?t)
        \<and> registration W' = registration W @ [(?a, True)] \<and> (local_transports W' = local_transports W \<or> table_entered ?t W W')"
      using W' False by (simp add: same_sockets_def same_devices_def register_transport_def table_entered_def)
    with t show ?thesis by blast
  qed
qed

lemma remove_effect:
  assumes "remove_socket a W = Inr W'"
  shows "transports W' = transports W \<and> same_devices W W' \<and> local_transports W' = local_transports W
    \<and> registration W' = registration W \<and> HOST W' = HOST W \<and> next_addr W' = next_addr W \<and> local_socket_next_id W' = local_socket_next_id W
    \<and> (W' = W \<or> local_socket_list W' = remove1 a (local_socket_list W)
        \<and> (\<exists>s. sockets W a = Some s \<and> sockets W' = (sockets W)(a \<mapsto> s\<lparr>s_id := 0\<rparr>)))"
  using assms by (auto simp: remove_socket_def updS_def getS_def setS_def rbind_eq_Inr_iff same_devices_def split: if_splits option.splits)

lemma install_effect:
  assumes "install_local_socket (next_addr W) (setS (next_addr W) s (W\<lparr>next_addr := next_addr W + 1\<rparr>)) = Inr W'"
  shows "transports W' = transports W \<and> same_devices W W' \<and> local_transports W' = local_transports W
    \<and> registration W' = registration W \<and> HOST W' = HOST W \<and> next_addr W' = next_addr W + 1
    \<and> local_socket_next_id W' = local_socket_next_id W + 1 \<and> local_socket_list W' = local_socket_list W @ [next_addr W]
    \<and> sockets W' = (sockets W)(next_addr W \<mapsto> s\<lparr>s_id := local_socket_next_id W\<rparr>)"
  using assms by (auto simp: install_local_socket_def updS_def getS_def setS_def rbind_eq_Inr_iff same_devices_def)

lemmas world_parts = quiet_def setS_def freeS_def remove_transport_def register_usb_transport_def register_transport_def
  init_usb_transport_def blank_transport_def Let_def

section \<open>Packets in the pipes\<close>

definition pipes_ok :: "world \<Rightarrow> bool" where
  "pipes_ok W \<longleftrightarrow>
     (\<forall>a t. transports W a = Some t \<longrightarrow> (\<forall>p \<in> set (to_threads t). good_packet p) \<and> (\<forall>p \<in> set (to_loop t). wf_packet p))"

lemma pipes_new_socket:
  "pipes_ok W \<Longrightarrow> pipes_ok (setS (next_addr W) s (W\<lparr>next_addr := next_addr W + 1\<rparr>))"
  "pipes_ok W \<Longrightarrow> install_local_socket (next_addr W) (setS (next_addr W) s (W\<lparr>next_addr := next_addr W + 1\<rparr>)) = Inr W' \<Longrightarrow> pipes_ok W'"
  using install_effect [of W s W'] by (simp_all add: pipes_ok_def setS_def)

lemma close_inv_pipes: "close_inv (\<lambda>_. pipes_ok)"
proof
  show rm: "pipes_ok W'" if "pipes_ok W" "remove_socket a W = Inr W'" for W a W'
    using that remove_effect [of a W W'] by (simp add: pipes_ok_def)
  show "pipes_ok (freeS a W')" if "pipes_ok W" "remove_socket a W = Inr W'" for W a W'
    using rm [OF that] by (simp add: pipes_ok_def freeS_def)
qed (fastforce simp: pipes_ok_def world_parts same_link_def split: if_splits)+

interpretation pipes: server_inv "\<lambda>_. pipes_ok"
proof (intro server_inv.intro [OF close_inv_pipes] server_inv_axioms.intro)
  show "pipes_ok W'" if "pipes_ok W" "unlink_transport a W = Inr W'" for W a W'
    using that(1) unlink_effect [OF that(2)] by (simp add: pipes_ok_def same_but_links_def)
next
  show "pipes_ok W'" if "pipes_ok W" "link_transport t (W\<lparr>registration := ms\<rparr>) = Inr W'" for W t ms W'
    using that(1) link_effect [OF that(2)] by (simp add: pipes_ok_def same_but_links_def)
next
  show "pipes_ok W'" if "pipes_ok W" "register_socket_transport fd (Some ser) port loc W = Inr W'" for W fd ser port loc W'
    using that(1) register_effect [OF that(2)] by (fastforce simp: pipes_ok_def split: if_splits)
next
  show "pipes_ok W'" if "pipes_ok W"
    "install_local_socket (next_addr W) (setS (next_addr W) s (W\<lparr>next_addr := next_addr W + 1\<rparr>)) = Inr W'" for W s W'
    using that by (rule pipes_new_socket(2))
qed (auto simp: pipes_ok_def world_parts split: if_splits)

section \<open>Ids of local sockets\<close>

text \<open>Ids are handed out by a 32-bit counter. Every id goes with a new address, so as long as fewer than $2^{32}$ objects have been
  allocated the counter has not wrapped around; an address is never used again.\<close>

definition numbered :: "world \<Rightarrow> bool" where
  "numbered W \<longleftrightarrow>
     0 < unat (local_socket_next_id W) \<and> unat (local_socket_next_id W) \<le> next_addr W
   \<and> (\<forall>a \<in> set (local_socket_list W). \<forall>s. sockets W a = Some s \<longrightarrow> 0 < s_id s \<and> s_id s < local_socket_next_id W)
   \<and> (\<forall>a \<in> set (local_socket_list W). \<forall>b \<in> set (local_socket_list W). \<forall>s u.
        sockets W a = Some s \<longrightarrow> sockets W b = Some u \<longrightarrow> s_id s = s_id u \<longrightarrow> a = b)"

definition ids_ok :: "world \<Rightarrow> bool" where
  "ids_ok W \<longleftrightarrow> distinct (local_socket_list W) \<and> (\<forall>a \<in> set (local_socket_list W). a < next_addr W)
     \<and> (next_addr W < 2 ^ 32 \<longrightarrow> numbered W)"

lemma ids_same:
  assumes "ids_ok W" "same_sockets W W'" "next_addr W \<le> next_addr W'"
  shows "ids_ok W'"
  using assms by (auto simp: ids_ok_def numbered_def same_sockets_def dest: order_less_le_trans intro: order_trans)

lemma ids_set_socket:
  assumes "ids_ok W" "\<And>x s. x \<in> set (local_socket_list W) \<Longrightarrow> sockets W' x = Some s \<Longrightarrow> \<exists>u. sockets W x = Some u \<and> s_id u = s_id s"
    "local_socket_list W' = local_socket_list W" "local_socket_next_id W' = local_socket_next_id W" "next_addr W \<le> next_addr W'"
  shows "ids_ok W'"
proof -
  have "numbered W'" if "numbered W"
    unfolding numbered_def assms(3,4)
  proof (intro conjI ballI allI impI)
    show "0 < unat (local_socket_next_id W)" "unat (local_socket_next_id W) \<le> next_addr W'" using that assms(5) by (simp_all add: numbered_def)
  next
    fix x s assume "x \<in> set (local_socket_list W)" "sockets W' x = Some s"
    with assms(2) [of x s] that show "0 < s_id s" "s_id s < local_socket_next_id W" by (fastforce simp: numbered_def)+
  next
    fix x y s u
    assume *: "x \<in> set (local_socket_list W)" "y \<in> set (local_socket_list W)" "sockets W' x = Some s" "sockets W' y = Some u" "s_id s = s_id u"
    then obtain s' u' where "sockets W x = Some s'" "s_id s' = s_id s" "sockets W y = Some u'" "s_id u' = s_id u" using assms(2) by blast
    with * that show "x = y" unfolding numbered_def by metis
  qed
  then show ?thesis using assms(1,3,5) by (auto simp: ids_ok_def dest: order_less_le_trans)
qed

lemma ids_remove:
  assumes "ids_ok W" "remove_socket a W = Inr W'"
  shows "ids_ok W'"
proof (cases "W' = W")
  case False
  then obtain s where e: "local_socket_list W' = remove1 a (local_socket_list W)" "sockets W' = (sockets W)(a \<mapsto> s\<lparr>s_id := 0\<rparr>)"
    "next_addr W' = next_addr W" "local_socket_next_id W' = local_socket_next_id W" using remove_effect [OF assms(2)] by blast
  then have "set (local_socket_list W') = set (local_socket_list W) - {a}" using assms(1) by (simp add: ids_ok_def set_remove1_eq)
  with e show ?thesis using assms(1) by (auto simp: ids_ok_def numbered_def distinct_remove1)
qed (use assms in simp)

lemma ids_install:
  assumes "ids_ok W" "install_local_socket (next_addr W) (setS (next_addr W) s (W\<lparr>next_addr := next_addr W + 1\<rparr>)) = Inr W'"
  shows "ids_ok W'"
proof -
  note e = install_effect [OF assms(2)]
  let ?i = "local_socket_next_id W"
  have "numbered W'" if n: "next_addr W + 1 < 2 ^ 32"
  proof -
    have W: "numbered W" "\<forall>a \<in> set (local_socket_list W). a < next_addr W" using assms(1) n by (auto simp: ids_ok_def)
    have "unat ?i + 1 < 2 ^ 32" using W(1) n by (simp add: numbered_def)
    then have suc: "unat (?i + 1) = unat ?i + 1" using unat_add_lem [of ?i 1] by simp
    have old: "x \<noteq> next_addr W" if "x \<in> set (local_socket_list W)" for x using W(2) that by blast
    have less: "s_id u < ?i" "0 < s_id u" if "x \<in> set (local_socket_list W)" "sockets W x = Some u" for x u
      using W(1) that unfolding numbered_def by blast+
    have up: "?i < ?i + 1" by (simp add: word_less_nat_alt suc)
    have id: "(if x = next_addr W then s_id u = ?i else sockets W x = Some u \<and> x \<in> set (local_socket_list W))"
      if "x \<in> set (local_socket_list W')" "sockets W' x = Some u" for x u using that e old by auto
    show ?thesis
      unfolding numbered_def
    proof (intro conjI ballI allI impI)
      show "0 < unat (local_socket_next_id W')" "unat (local_socket_next_id W') \<le> next_addr W'" using e suc W(1) by (simp_all add: numbered_def)
    next
      fix x u assume x: "x \<in> set (local_socket_list W')" "sockets W' x = Some u"
      have pos: "0 < ?i" using W(1) by (simp add: numbered_def word_less_nat_alt)
      show "0 < s_id u" using id [OF x] less(2) [of x u] pos by (auto split: if_splits)
      show "s_id u < local_socket_next_id W'" using id [OF x] less(1) [of x u] up e by (auto split: if_splits intro: order_less_trans)
    next
      fix x y u v
      assume xy: "x \<in> set (local_socket_list W')" "y \<in> set (local_socket_list W')" "sockets W' x = Some u" "sockets W' y = Some v" "s_id u = s_id v"
      show "x = y"
      proof (cases "x = next_addr W \<or> y = next_addr W")
        case True
        then show ?thesis using id [OF xy(1,3)] id [OF xy(2,4)] less(1) [of x u] less(1) [of y v] xy(5) by (auto split: if_splits)
      next
        case False
        then show ?thesis using id [OF xy(1,3)] id [OF xy(2,4)] W(1) xy(5) unfolding numbered_def by simp
      qed
    qed
  qed
  then show ?thesis using assms(1) e by (auto simp: ids_ok_def)
qed

lemma close_inv_ids: "close_inv (\<lambda>_. ids_ok)"
proof
  show "ids_ok W'" if "ids_ok W" "quiet W W'" for W W'
    using that by (auto simp: quiet_def same_sockets_def intro: ids_same)
  show "ids_ok (setS a s' W)" if "ids_ok W" "sockets W a = Some s" "same_role s s'" for W a s s'
    by (rule ids_set_socket [OF that(1)]) (use that in \<open>auto simp: setS_def split: if_splits\<close>)
  show free: "ids_ok (freeS a W)" if "ids_ok W" for W a
    by (rule ids_set_socket [OF that]) (auto simp: freeS_def split: if_splits)
  show "ids_ok (freeS a W')" if "ids_ok W" "remove_socket a W = Inr W'" for W a W' by (rule free [OF ids_remove [OF that]])
qed (auto simp: same_sockets_def intro: ids_remove ids_same)

lemma close_inv_conj:
  assumes "close_inv P" "close_inv Q"
  shows "close_inv (\<lambda>X W. P X W \<and> Q X W)"
proof -
  note laws = close_inv.I_quiet [OF assms(1)] close_inv.I_quiet [OF assms(2)]
    close_inv.I_set_socket [OF assms(1)] close_inv.I_set_socket [OF assms(2)]
    close_inv.I_loose [OF assms(1)] close_inv.I_loose [OF assms(2)]
    close_inv.I_called [OF assms(1)] close_inv.I_called [OF assms(2)]
    close_inv.I_forget [OF assms(1)] close_inv.I_forget [OF assms(2)]
    close_inv.I_free [OF assms(1)] close_inv.I_free [OF assms(2)]
    close_inv.I_unlist [OF assms(1)] close_inv.I_unlist [OF assms(2)]
    close_inv.I_destroy [OF assms(1)] close_inv.I_destroy [OF assms(2)]
    close_inv.I_set_transport [OF assms(1)] close_inv.I_set_transport [OF assms(2)]
    close_inv.I_note [OF assms(1)] close_inv.I_note [OF assms(2)]
    close_inv.I_send [OF assms(1)] close_inv.I_send [OF assms(2)]
  show ?thesis by (rule close_inv.intro) (blast intro: laws)+
qed

lemma ids_new_socket: "ids_ok W \<Longrightarrow> ids_ok (setS (next_addr W) s (W\<lparr>next_addr := next_addr W + 1\<rparr>))"
  by (rule ids_set_socket [of W]) (auto simp: setS_def ids_ok_def split: if_splits)

text \<open>The invariant speaks of packets too, since what is done with a packet from a device relies on its being well formed.\<close>

interpretation ids: server_inv "\<lambda>_ W. pipes_ok W \<and> ids_ok W"
proof (rule server_inv.intro [OF close_inv_conj [OF close_inv_pipes close_inv_ids] server_inv_axioms.intro])
  show "pipes_ok W' \<and> ids_ok W'" if "pipes_ok W \<and> ids_ok W" "unlink_transport a W = Inr W'" for W a W'
    using that(1) unlink_effect [OF that(2)] pipes.I_unlink [OF _ that(2)] by (auto simp: same_but_links_def intro: ids_same)
  show "pipes_ok W' \<and> ids_ok W'" if "pipes_ok W \<and> ids_ok W" "registration W = (t, True) # ms" "link_transport t (W\<lparr>registration := ms\<rparr>) = Inr W'" for W t ms W'
    using that(1) link_effect [OF that(3)] pipes.I_link [OF _ that(2,3)] by (auto simp: same_but_links_def same_sockets_def intro: ids_same [of W])
  show "pipes_ok W' \<and> ids_ok W'" if "pipes_ok W \<and> ids_ok W" "register_socket_transport fd (Some ser) port loc W = Inr W'" for W fd ser port loc W'
    using that(1) register_effect [OF that(2)] pipes.I_register_socket [OF _ that(2)] by (auto intro: ids_same)
  show "pipes_ok W' \<and> ids_ok W'" if "pipes_ok W \<and> ids_ok W"
    "install_local_socket (next_addr W) (setS (next_addr W) s (W\<lparr>next_addr := next_addr W + 1\<rparr>)) = Inr W'" for W s W'
    using that(1) ids_install [OF _ that(2)] pipes_new_socket(2) [OF _ that(2)] by blast
  show "pipes_ok (setS (next_addr W) s (W\<lparr>next_addr := next_addr W + 1\<rparr>)) \<and> ids_ok (setS (next_addr W) s (W\<lparr>next_addr := next_addr W + 1\<rparr>))"
    if "pipes_ok W \<and> ids_ok W" for W s using that ids_new_socket pipes_new_socket(1) by blast
  show "wf_packet p" if "pipes_ok W \<and> ids_ok W" "transports W a = Some tr" "p \<in> set (to_loop tr)" for W a tr p
    using that pipes.I_delivered by blast
  fix W assume I: "pipes_ok W \<and> ids_ok W"
  note same = ids_same [OF I [THEN conjunct2]] and I' = I [THEN conjunct1]
  show "pipes_ok (W\<lparr>next_addr := next_addr W + 1\<rparr>) \<and> ids_ok (W\<lparr>next_addr := next_addr W + 1\<rparr>)"
    using pipes.I_alloc [OF I'] by (simp add: same same_sockets_def)
  show "pipes_ok (register_usb_transport h u w W) \<and> ids_ok (register_usb_transport h u w W)" for h u w
    using pipes.I_register_usb [OF I'] by (simp add: same same_sockets_def register_usb_transport_def register_transport_def Let_def)
  show "pipes_ok (W\<lparr>registration := ms\<rparr>) \<and> ids_ok (W\<lparr>registration := ms\<rparr>)" if "registration W = m # ms" for m ms
    using pipes.I_pop [OF I' that] by (simp add: same same_sockets_def)
  show "pipes_ok (W\<lparr>local_transports := clear_slot a (local_transports W)\<rparr>) \<and> ids_ok (W\<lparr>local_transports := clear_slot a (local_transports W)\<rparr>)" for a
    using pipes.I_clear [OF I'] by (simp add: same same_sockets_def)
  show "pipes_ok (remove_transport a W) \<and> ids_ok (remove_transport a W)" for a
    using pipes.I_announce [OF I'] by (simp add: same same_sockets_def remove_transport_def)
  show "pipes_ok (W\<lparr>transports := (transports W)(t := None)\<rparr>) \<and> ids_ok (W\<lparr>transports := (transports W)(t := None)\<rparr>)" for t
    using pipes.I_drop [OF I'] by (simp add: same same_sockets_def)
  show "pipes_ok (W\<lparr>transports := (transports W)(a \<mapsto> tr\<lparr>to_loop := to_loop tr @ [p]\<rparr>)\<rparr>)
      \<and> ids_ok (W\<lparr>transports := (transports W)(a \<mapsto> tr\<lparr>to_loop := to_loop tr @ [p]\<rparr>)\<rparr>)"
    if "transports W a = Some tr" "wf_packet p" for a tr p
    using pipes.I_deliver [OF I' that] by (simp add: same same_sockets_def)
qed

section \<open>The list of local sockets\<close>

text \<open>The list holds live sockets, each once. The sockets of \<open>X\<close> and those that transports will call back are not on it, nor will they be:
  only a new address is put on it.\<close>

definition apart :: "addr set \<Rightarrow> world \<Rightarrow> bool" where
  "apart X W \<longleftrightarrow> (\<forall>a \<in> X. a < next_addr W \<and> a \<notin> set (local_socket_list W))"

definition called_back :: "world \<Rightarrow> addr set" where
  "called_back W = {a. \<exists>t tr. transports W t = Some tr \<and> Remote_socket_disconnect a \<in> set (disconnects tr)}"

definition live_ok :: "world \<Rightarrow> bool" where
  "live_ok W \<longleftrightarrow> distinct (local_socket_list W)
     \<and> (\<forall>a \<in> set (local_socket_list W). \<exists>s. sockets W a = Some s \<and> \<not> unlisted s)
     \<and> (\<forall>a s. sockets W a = Some s \<longrightarrow> a < next_addr W) \<and> apart (called_back W) W"

lemma apart_mono:
  "apart X W \<Longrightarrow> Y \<subseteq> X \<Longrightarrow> set (local_socket_list W') \<subseteq> set (local_socket_list W) \<Longrightarrow> next_addr W \<le> next_addr W' \<Longrightarrow> apart Y W'"
  by (fastforce simp: apart_def)

lemma called_back_upd:
  "called_back (W\<lparr>transports := (transports W)(t \<mapsto> tr)\<rparr>) \<subseteq> called_back W \<union> {a. Remote_socket_disconnect a \<in> set (disconnects tr)}"
  by (auto simp: called_back_def split: if_splits)

lemma called_back_subset:
  assumes "\<And>t tr. transports W' t = Some tr \<Longrightarrow> (\<exists>tr0. transports W t = Some tr0 \<and> set (disconnects tr) \<subseteq> set (disconnects tr0)) \<or> disconnects tr = []"
  shows "called_back W' \<subseteq> called_back W"
  using assms unfolding called_back_def by fastforce

text \<open>Changes of transports and counters.\<close>

lemma live_same:
  assumes "live_ok W" "same_sockets W W'" "next_addr W \<le> next_addr W'" "called_back W' \<subseteq> called_back W"
  shows "live_ok W'" "apart X W \<Longrightarrow> apart X W'"
  using assms apart_mono [of "called_back W" W "called_back W'" W'] apart_mono [of X W X W']
  by (auto simp: live_ok_def same_sockets_def dest: order_less_le_trans)

lemma live_transport:
  assumes "live_ok W" "same_sockets W W'" "next_addr W \<le> next_addr W'" "transports W' = (transports W)(t \<mapsto> tr)"
    "\<exists>tr0. transports W t = Some tr0 \<and> set (disconnects tr) \<subseteq> set (disconnects tr0) \<or> disconnects tr = []"
  shows "live_ok W'" "apart X W \<Longrightarrow> apart X W'"
proof -
  have "called_back W' \<subseteq> called_back W" using assms(4,5) by (fastforce simp: called_back_def split: if_splits)
  then show "live_ok W'" "apart X W \<Longrightarrow> apart X W'" using live_same [OF assms(1-3)] by blast+
qed

text \<open>Changes of sockets.\<close>

lemma live_set_socket:
  assumes "live_ok W" "sockets W a = Some s" "same_role s s'"
  shows "live_ok (setS a s' W)"
  using assms by (auto simp: live_ok_def setS_def apart_def called_back_def simp del: unlisted_def)

lemma live_free:
  assumes "live_ok W" "a \<notin> set (local_socket_list W)"
  shows "live_ok (freeS a W)"
  using assms by (auto simp: live_ok_def freeS_def apart_def called_back_def simp del: unlisted_def)

lemma live_remove:
  assumes "live_ok W" "remove_socket a W = Inr W'"
  shows "live_ok W'" "a \<notin> set (local_socket_list W')" "apart X W \<Longrightarrow> apart X W'"
proof -
  note e = remove_effect [OF assms(2)]
  have d: "distinct (local_socket_list W)" using assms(1) by (simp add: live_ok_def)
  have off: "a \<notin> set (local_socket_list W')"
    using assms(2) d by (auto simp: remove_socket_def updS_def getS_def setS_def rbind_eq_Inr_iff split: if_splits option.splits)
  moreover have sub: "set (local_socket_list W') \<subseteq> set (local_socket_list W)" using e by (auto dest: set_remove1_subset [THEN subsetD])
  have cb: "called_back W' = called_back W" using e by (simp add: called_back_def)
  show ap: "apart X W'" if "apart X W" for X by (rule apart_mono [OF that _ sub]) (use e in simp_all)
  show "live_ok W'"
  proof (cases "W' = W")
    case False
    then obtain s where s: "local_socket_list W' = remove1 a (local_socket_list W)" "sockets W a = Some s" "sockets W' = (sockets W)(a \<mapsto> s\<lparr>s_id := 0\<rparr>)"
      using e by blast
    then show ?thesis using assms(1) e d ap [of "called_back W"] cb by (auto simp: live_ok_def simp del: unlisted_def)
  qed (use assms(1) in simp)
  show "a \<notin> set (local_socket_list W')" by (rule off)
qed

lemma live_new_socket: "live_ok W \<Longrightarrow> live_ok (setS (next_addr W) s (W\<lparr>next_addr := next_addr W + 1\<rparr>))"
  by (auto simp: live_ok_def setS_def apart_def called_back_def less_Suc_eq simp del: unlisted_def)

lemma live_install:
  assumes "live_ok W" "\<not> unlisted s" "install_local_socket (next_addr W) (setS (next_addr W) s (W\<lparr>next_addr := next_addr W + 1\<rparr>)) = Inr W'"
  shows "live_ok W'" "apart X W \<Longrightarrow> apart X W'"
proof -
  note e = install_effect [OF assms(3)]
  have cb: "called_back W' = called_back W" using e by (simp add: called_back_def)
  show ap: "apart X W'" if "apart X W" for X using that e by (auto simp: apart_def)
  have "a < next_addr W" if "a \<in> set (local_socket_list W)" for a using assms(1) that unfolding live_ok_def by blast
  then show "live_ok W'" using assms(1,2) e ap [of "called_back W"] cb by (auto simp: live_ok_def less_Suc_eq)
qed

lemma live_loose: "live_ok W \<Longrightarrow> sockets W a = Some s \<Longrightarrow> unlisted s \<Longrightarrow> apart X W \<Longrightarrow> apart (insert a X) W"
  by (fastforce simp: live_ok_def apart_def simp del: unlisted_def)

lemma close_inv_live: "close_inv (\<lambda>X W. live_ok W \<and> apart X W)"
proof
  show "live_ok W' \<and> apart X W'" if "live_ok W \<and> apart X W" "quiet W W'" for X W W'
    using that live_same [of W W'] by (auto simp: quiet_def same_sockets_def called_back_def)
  show "live_ok (setS a s' W) \<and> apart X (setS a s' W)" if "live_ok W \<and> apart X W" "sockets W a = Some s" "same_role s s'" for X W a s s'
    using that live_set_socket [of W a s s'] by (auto simp: apart_def setS_def)
  show "live_ok W \<and> apart (insert a X) W" if "live_ok W \<and> apart X W" "sockets W a = Some s" "unlisted s" for X W a s
    using that live_loose by blast
  show "live_ok W \<and> apart (insert a X) W" if "live_ok W \<and> apart X W" "transports W b = Some t" "Remote_socket_disconnect a \<in> set (disconnects t)" for X W b t a
  proof -
    have "a \<in> called_back W" using that(2,3) unfolding called_back_def by blast
    then show ?thesis using that(1) by (simp add: live_ok_def apart_def)
  qed
  show "live_ok W \<and> apart X W" if "live_ok W \<and> apart (insert a X) W" for W a X using that by (simp add: apart_def)
  show "live_ok (freeS a W) \<and> apart (insert a X) (freeS a W)" if "live_ok W \<and> apart (insert a X) W" for W a X
    using that live_free [of W a] by (simp add: apart_def freeS_def)
  show "live_ok W' \<and> apart X W'" if "live_ok W \<and> apart X W" "remove_socket a W = Inr W'" for W a W' X
    using that live_remove by blast
  show "live_ok (freeS a W') \<and> apart X (freeS a W')" if "live_ok W \<and> apart X W" "remove_socket a W = Inr W'" for W a W' X
    using live_remove(1,2) [OF _ that(2)] live_remove(3) [OF _ that(2), of X] live_free [of W' a] that(1) by (auto simp: apart_def freeS_def)
  fix X W a t assume I: "live_ok W \<and> apart X W" and t: "transports W a = Some t"
  let ?W = "\<lambda>t'. W\<lparr>transports := (transports W)(a \<mapsto> t')\<rparr>"
  have same: "same_sockets W (?W t')" for t' by (simp add: same_sockets_def)
  show "live_ok (?W t') \<and> apart X (?W t')" if "same_link t t'" for t'
    using live_transport [of W "?W t'" a t'] I t same that by (auto simp: same_link_def)
  show "live_ok (?W (t\<lparr>to_threads := to_threads t @ [p]\<rparr>)) \<and> apart X (?W (t\<lparr>to_threads := to_threads t @ [p]\<rparr>))" for p
    using live_transport [of W "?W (t\<lparr>to_threads := to_threads t @ [p]\<rparr>)" a] I t same by auto
  show "live_ok (?W (t\<lparr>disconnects := disconnects t @ [d]\<rparr>)) \<and> apart X (?W (t\<lparr>disconnects := disconnects t @ [d]\<rparr>))"
    if "\<forall>x. d = Remote_socket_disconnect x \<longrightarrow> x \<in> X" for d
  proof -
    have "called_back (?W (t\<lparr>disconnects := disconnects t @ [d]\<rparr>)) \<subseteq> called_back W \<union> X"
      using called_back_upd [of W a "t\<lparr>disconnects := disconnects t @ [d]\<rparr>"] t that by (fastforce simp: called_back_def)
    then show ?thesis using I by (fastforce simp: live_ok_def apart_def simp del: unlisted_def)
  qed
qed

interpretation live: server_inv "\<lambda>X W. pipes_ok W \<and> live_ok W \<and> apart X W"
proof (rule server_inv.intro [OF close_inv_conj [OF close_inv_pipes close_inv_live] server_inv_axioms.intro])
  fix X W assume I: "pipes_ok W \<and> live_ok W \<and> apart X W"
  then have P: "pipes_ok W" and L: "live_ok W" "apart X W" by blast+
  note same = live_same [OF L(1)] and upd = live_transport [OF L(1)]
  show "pipes_ok W' \<and> live_ok W' \<and> apart X W'" if u: "unlink_transport a W = Inr W'" for a W'
    using unlink_effect [OF u] pipes.I_unlink [OF P u] same [of W'] L(2) by (simp add: same_but_links_def called_back_def)
  show "pipes_ok W' \<and> live_ok W' \<and> apart X W'" if u: "registration W = (t, True) # ms" "link_transport t (W\<lparr>registration := ms\<rparr>) = Inr W'" for t ms W'
    using link_effect [OF u(2)] pipes.I_link [OF P u] same [of W'] L(2) by (simp add: same_but_links_def same_sockets_def called_back_def)
  show "pipes_ok (W\<lparr>local_transports := clear_slot a (local_transports W)\<rparr>) \<and> live_ok (W\<lparr>local_transports := clear_slot a (local_transports W)\<rparr>)
      \<and> apart X (W\<lparr>local_transports := clear_slot a (local_transports W)\<rparr>)" for a
    using pipes.I_clear [OF P] same [of "W\<lparr>local_transports := clear_slot a (local_transports W)\<rparr>"] L(2) by (simp add: same_sockets_def called_back_def)
  show "pipes_ok W' \<and> live_ok W' \<and> apart X W'" if r: "register_socket_transport fd (Some ser) port loc W = Inr W'" for fd ser port loc W'
  proof -
    have "called_back W' \<subseteq> called_back W" using register_effect [OF r] by (intro called_back_subset) (auto split: if_splits)
    then show ?thesis using register_effect [OF r] pipes.I_register_socket [OF P r] same [of W'] L(2) by auto
  qed
  show "pipes_ok W' \<and> live_ok W' \<and> apart X W'"
    if "\<not> unlisted s" "install_local_socket (next_addr W) (setS (next_addr W) s (W\<lparr>next_addr := next_addr W + 1\<rparr>)) = Inr W'" for s W'
    using live_install [OF L(1) that] L(2) pipes_new_socket(2) [OF P that(2)] by blast
  show "pipes_ok (setS (next_addr W) s (W\<lparr>next_addr := next_addr W + 1\<rparr>)) \<and> live_ok (setS (next_addr W) s (W\<lparr>next_addr := next_addr W + 1\<rparr>))
      \<and> apart X (setS (next_addr W) s (W\<lparr>next_addr := next_addr W + 1\<rparr>))" for s
    using pipes_new_socket(1) [OF P] live_new_socket [OF L(1)] L(2) by (auto simp: apart_def setS_def)
  show "wf_packet p" if "transports W a = Some tr" "p \<in> set (to_loop tr)" for a tr p using P that pipes.I_delivered by blast
  show "pipes_ok (W\<lparr>next_addr := next_addr W + 1\<rparr>) \<and> live_ok (W\<lparr>next_addr := next_addr W + 1\<rparr>) \<and> apart X (W\<lparr>next_addr := next_addr W + 1\<rparr>)"
    using pipes.I_alloc [OF P] same [of "W\<lparr>next_addr := next_addr W + 1\<rparr>"] L(2) by (simp add: same_sockets_def called_back_def)
  show "pipes_ok (register_usb_transport h u w W) \<and> live_ok (register_usb_transport h u w W) \<and> apart X (register_usb_transport h u w W)" for h u w
  proof -
    have "called_back (register_usb_transport h u w W) \<subseteq> called_back W" by (intro called_back_subset) (auto simp: world_parts split: if_splits)
    then show ?thesis
      using pipes.I_register_usb [OF P] same [of "register_usb_transport h u w W"] L(2) by (simp add: same_sockets_def register_usb_transport_def register_transport_def Let_def)
  qed
  show "pipes_ok (W\<lparr>registration := ms\<rparr>) \<and> live_ok (W\<lparr>registration := ms\<rparr>) \<and> apart X (W\<lparr>registration := ms\<rparr>)" if "registration W = m # ms" for m ms
    using pipes.I_pop [OF P that] same [of "W\<lparr>registration := ms\<rparr>"] L(2) by (simp add: same_sockets_def called_back_def)
  show "pipes_ok (remove_transport a W) \<and> live_ok (remove_transport a W) \<and> apart X (remove_transport a W)" for a
    using pipes.I_announce [OF P] same [of "remove_transport a W"] L(2) by (simp add: same_sockets_def called_back_def remove_transport_def)
  show "pipes_ok (W\<lparr>transports := (transports W)(t := None)\<rparr>) \<and> live_ok (W\<lparr>transports := (transports W)(t := None)\<rparr>) \<and> apart X (W\<lparr>transports := (transports W)(t := None)\<rparr>)" for t
  proof -
    have "called_back (W\<lparr>transports := (transports W)(t := None)\<rparr>) \<subseteq> called_back W" by (intro called_back_subset) (auto split: if_splits)
    then show ?thesis using pipes.I_drop [OF P] same [of "W\<lparr>transports := (transports W)(t := None)\<rparr>"] L(2) by (simp add: same_sockets_def)
  qed
  show "pipes_ok (W\<lparr>transports := (transports W)(a \<mapsto> tr\<lparr>to_loop := to_loop tr @ [p]\<rparr>)\<rparr>)
      \<and> live_ok (W\<lparr>transports := (transports W)(a \<mapsto> tr\<lparr>to_loop := to_loop tr @ [p]\<rparr>)\<rparr>)
      \<and> apart X (W\<lparr>transports := (transports W)(a \<mapsto> tr\<lparr>to_loop := to_loop tr @ [p]\<rparr>)\<rparr>)"
    if "transports W a = Some tr" "wf_packet p" for a tr p
    using pipes.I_deliver [OF P that] upd [of "W\<lparr>transports := (transports W)(a \<mapsto> tr\<lparr>to_loop := to_loop tr @ [p]\<rparr>)\<rparr>" a "tr\<lparr>to_loop := to_loop tr @ [p]\<rparr>"] L(2) that
    by (auto simp: same_sockets_def)
qed

section \<open>The registry of transports\<close>

text \<open>The way along the \<^verbatim>\<open>next\<close> pointers from one node back to the list head.\<close>

fun next_chain :: "(addr \<rightharpoonup> addr) \<Rightarrow> addr \<Rightarrow> addr list \<Rightarrow> bool" where
  "next_chain nx a [] = (nx a = Some 0)"
| "next_chain nx a (b # bs) = (nx a = Some b \<and> b \<noteq> 0 \<and> next_chain nx b bs)"

text \<open>
  A transport is linked once, at the tail, and addresses are given out in the order of registration. So every \<^verbatim>\<open>next\<close> pointer leads to a
  transport registered later or to the head, every \<^verbatim>\<open>prev\<close> pointer to one registered earlier, however often transports are unlinked.
  What the pointers lead to has been linked, but need not be allocated any more.
\<close>

definition links_ok :: "world \<Rightarrow> bool" where
  "links_ok W \<longleftrightarrow> dev_nxt W 0 \<noteq> None \<and> dev_prv W 0 \<noteq> None
   \<and> (\<forall>a b. dev_nxt W a = Some b \<longrightarrow> a < next_addr W \<and> (b \<noteq> 0 \<longrightarrow> a < b \<and> dev_nxt W b \<noteq> None))
   \<and> (\<forall>a b. dev_prv W a = Some b \<longrightarrow> dev_nxt W b \<noteq> None \<and> (a \<noteq> 0 \<longrightarrow> b < a))"

text \<open>The transports that wait to be linked, in the order of their messages.\<close>

definition waiting_links :: "world \<Rightarrow> addr list" where
  "waiting_links W = map fst (filter snd (registration W))"

definition messages_ok :: "world \<Rightarrow> bool" where
  "messages_ok W \<longleftrightarrow> sorted_wrt (<) (waiting_links W)
   \<and> (\<forall>a \<in> set (waiting_links W). a < next_addr W \<and> (\<forall>b. dev_nxt W b \<noteq> None \<longrightarrow> b < a))"

definition registry_ok :: "world \<Rightarrow> bool" where
  "registry_ok W \<longleftrightarrow> slot_inv W \<and> transports W 0 = None \<and> links_ok W \<and> messages_ok W \<and> next_chain (dev_nxt W) 0 (transport_list W)"

lemma walk_chain:
  assumes "\<And>a b. nx a = Some b \<Longrightarrow> a < m \<and> (b \<noteq> 0 \<longrightarrow> a < b \<and> nx b \<noteq> None)" "nx a \<noteq> None" "m \<le> a + n"
  shows "next_chain nx a (walk n nx a)"
  using assms(2,3)
proof (induction n arbitrary: a)
  case 0
  then show ?case using assms(1) [of a] by force
next
  case (Suc n)
  then obtain b where b: "nx a = Some b" by blast
  then show ?case using Suc assms(1) [OF b] by auto
qed

lemma chain_increasing:
  assumes "\<And>a b. nx a = Some b \<Longrightarrow> b \<noteq> 0 \<Longrightarrow> a < b" "next_chain nx a bs"
  shows "sorted_wrt (<) (a # bs)"
  using assms(2)
proof (induction bs arbitrary: a)
  case (Cons b bs)
  then have "a < b" "sorted_wrt (<) (b # bs)" using Cons.IH [of b] assms(1) by simp_all
  then show ?case by (auto intro: order_less_trans)
qed simp

text \<open>What the registry depends on.\<close>

lemma links_frame:
  assumes "links_ok W" "same_devices W W'" "next_addr W \<le> next_addr W'"
  shows "links_ok W'"
proof -
  have "a < next_addr W'" if "dev_nxt W a = Some b" for a b
    using assms(1,3) that order_less_le_trans [of a "next_addr W" "next_addr W'"] by (simp add: links_ok_def)
  with assms(1,2) show ?thesis unfolding links_ok_def same_devices_def by simp
qed

lemma messages_frame:
  assumes "messages_ok W" "same_devices W W'" "next_addr W \<le> next_addr W'" "waiting_links W' = waiting_links W"
  shows "messages_ok W'"
proof -
  have "a < next_addr W'" if "a \<in> set (waiting_links W)" for a
    using assms(1,3) that order_less_le_trans [of a "next_addr W" "next_addr W'"] by (simp add: messages_ok_def)
  with assms(1,2,4) show ?thesis unfolding messages_ok_def same_devices_def by simp
qed

lemma registry_frame:
  assumes "registry_ok W" "same_devices W W'" "registration W' = registration W" "local_transports W' = local_transports W" "next_addr W \<le> next_addr W'"
    and "\<And>a u. a < next_addr W \<Longrightarrow> transports W' a = Some u \<Longrightarrow> \<exists>t. transports W a = Some t \<and> adb_port t = adb_port u"
  shows "registry_ok W'"
proof -
  have "slot_inv W'" by (rule slot_inv_frame [of W]) (use assms in \<open>auto simp: registry_ok_def slot_inv_def\<close>)
  moreover have "transports W' 0 = None" using assms(1) assms(6) [of 0] by (cases "transports W' 0") (auto simp: registry_ok_def links_ok_def)
  ultimately show ?thesis
    using assms(1-3) links_frame [of W W'] messages_frame [of W W'] assms(5) by (simp add: registry_ok_def same_devices_def waiting_links_def)
qed

lemma relinked:
  assumes "links_ok W'" "same_but_links W W'"
  shows "next_chain (dev_nxt W') 0 (transport_list W')"
proof -
  have "next_chain (dev_nxt W') 0 (walk (next_addr W) (dev_nxt W') 0)"
    by (rule walk_chain [where m = "next_addr W'"]) (use assms in \<open>auto simp: links_ok_def same_but_links_def\<close>)
  with assms(2) show ?thesis by (simp add: same_but_links_def)
qed

lemma same_but_links_slots: "slot_inv W \<Longrightarrow> same_but_links W W' \<Longrightarrow> slot_inv W'"
  by (rule slot_inv_frame [of W]) (auto simp: same_but_links_def slot_inv_def)

lemma registry_unlink:
  assumes "registry_ok W" "unlink_transport a W = Inr W'"
  shows "registry_ok W'"
proof -
  from unlink_effect [OF assms(2)] obtain n p where same: "same_but_links W W'" and np: "dev_nxt W a = Some n" "dev_prv W a = Some p"
    and new: "dev_nxt W' = (dev_nxt W)(p \<mapsto> n)" "dev_prv W' = (dev_prv W)(n \<mapsto> p)" by blast
  have old: "links_ok W" "messages_ok W" "slot_inv W" "transports W 0 = None" using assms(1) by (simp_all add: registry_ok_def)
  with unlink_effect [OF assms(2)] have "a \<noteq> 0" by metis
  then have p: "p < a" "dev_nxt W p \<noteq> None" and n: "n \<noteq> 0 \<Longrightarrow> a < n \<and> dev_nxt W n \<noteq> None" using old(1) np by (simp_all add: links_ok_def)
  have dom: "dev_nxt W' b \<noteq> None \<longleftrightarrow> dev_nxt W b \<noteq> None" for b using p(2) by (simp add: new(1))
  have next_ok: "b < next_addr W \<and> (c \<noteq> 0 \<longrightarrow> b < c \<and> dev_nxt W c \<noteq> None)" if "dev_nxt W' b = Some c" for b c
    using that p n old(1) by (auto simp: new(1) links_ok_def split: if_splits)
  have prev_ok: "dev_nxt W c \<noteq> None \<and> (b \<noteq> 0 \<longrightarrow> c < b)" if "dev_prv W' b = Some c" for b c
    using that p n old(1) by (auto simp: new(2) links_ok_def split: if_splits)
  have "links_ok W'"
    using old(1) same next_ok prev_ok unfolding links_ok_def dom by (auto simp: new(2) same_but_links_def)
  moreover have "messages_ok W'" using old(2) same unfolding messages_ok_def dom by (simp add: waiting_links_def same_but_links_def)
  ultimately show ?thesis
    using relinked same_but_links_slots [OF old(3)] same old(4) by (simp add: registry_ok_def same_but_links_def)
qed

text \<open>While the loop over all TCP devices unlinks one of them, the way to those behind it stays as it is.\<close>

lemma unlink_keeps_later:
  assumes "registry_ok W" "unlink_transport a W = Inr W'" "a \<le> b"
  shows "dev_nxt W' b = dev_nxt W b"
proof -
  from unlink_effect [OF assms(2)] obtain n p where a: "transports W a \<noteq> None" and np: "dev_nxt W a = Some n" "dev_prv W a = Some p"
    and new: "dev_nxt W' = (dev_nxt W)(p \<mapsto> n)" by blast
  have "transports W 0 = None" "links_ok W" using assms(1) by (simp_all add: registry_ok_def)
  with a have "a \<noteq> 0" by metis
  then have "p < a" using \<open>links_ok W\<close> np(2) by (simp add: links_ok_def)
  with assms(3) show ?thesis by (simp add: new)
qed

lemma registry_link:
  assumes "registry_ok W" "registration W = (t, True) # ms" "link_transport t (W\<lparr>registration := ms\<rparr>) = Inr W'"
  shows "registry_ok W'"
proof -
  let ?V = "W\<lparr>registration := ms\<rparr>"
  from link_effect [OF assms(3)] obtain p where same: "same_but_links ?V W'" and p: "dev_prv W 0 = Some p"
    and new: "dev_nxt W' = (dev_nxt W)(t \<mapsto> 0, p \<mapsto> t)" "dev_prv W' = (dev_prv W)(t \<mapsto> p, 0 \<mapsto> t)" by auto
  have old: "links_ok W" "messages_ok W" "slot_inv ?V" "transports W 0 = None"
    using assms(1) by (simp_all add: registry_ok_def slot_inv_def same_slot_def)
  have pend: "waiting_links W = t # waiting_links ?V" using assms(2) by (simp add: waiting_links_def)
  have t: "t < next_addr W" "\<And>b. dev_nxt W b \<noteq> None \<Longrightarrow> b < t" and rest: "sorted_wrt (<) (waiting_links ?V)" "\<And>a. a \<in> set (waiting_links ?V) \<Longrightarrow> t < a \<and> a < next_addr W"
    using old(2) unfolding messages_ok_def pend by auto
  have pt: "p < t" "dev_nxt W p \<noteq> None" "0 < t" using old(1) p t(2) by (auto simp: links_ok_def)
  have dom: "dev_nxt W' b \<noteq> None \<longleftrightarrow> b = t \<or> dev_nxt W b \<noteq> None" for b using pt by (simp add: new(1))
  have next_ok: "b < next_addr W \<and> (c \<noteq> 0 \<longrightarrow> b < c \<and> dev_nxt W' c \<noteq> None)" if "dev_nxt W' b = Some c" for b c
    using that pt t old(1) unfolding dom by (auto simp: new(1) links_ok_def split: if_splits)
  have prev_ok: "dev_nxt W' c \<noteq> None \<and> (b \<noteq> 0 \<longrightarrow> c < b)" if "dev_prv W' b = Some c" for b c
    using that pt old(1) unfolding dom by (auto simp: new(2) links_ok_def split: if_splits)
  have "links_ok W'"
    unfolding links_ok_def
  proof (intro conjI allI impI)
    show "dev_nxt W' 0 \<noteq> None" unfolding dom using old(1) by (simp add: links_ok_def)
    show "dev_prv W' 0 \<noteq> None" by (simp add: new(2))
  qed (use next_ok prev_ok same in \<open>auto simp: same_but_links_def\<close>)
  moreover have "b < a" if "a \<in> set (waiting_links ?V)" "b = t \<or> dev_nxt W b \<noteq> None" for a b
    using rest(2) [OF that(1)] t(2) [of b] that(2) by auto
  then have "messages_ok W'"
    using rest same unfolding messages_ok_def dom by (simp add: waiting_links_def same_but_links_def)
  ultimately show ?thesis
    using relinked [OF _ same] same_but_links_slots [OF old(3) same] same old(4) by (simp add: registry_ok_def same_but_links_def)
qed

text \<open>Messages.\<close>

lemma registry_messages:
  assumes "registry_ok W" "same_devices W W'" "slot_inv W'" "next_addr W \<le> next_addr W'" "transports W' 0 = None"
    and "waiting_links W' = waiting_links W \<or> (\<exists>a. waiting_links W = a # waiting_links W') \<or> waiting_links W' = waiting_links W @ [next_addr W] \<and> next_addr W < next_addr W'"
  shows "registry_ok W'"
proof -
  have old: "links_ok W" "messages_ok W" "next_chain (dev_nxt W) 0 (transport_list W)" using assms(1) by (simp_all add: registry_ok_def)
  have links: "links_ok W'" by (rule links_frame [OF old(1) assms(2,4)])
  have less: "a < next_addr W'" if "a \<in> set (waiting_links W)" for a
    using old(2) assms(4) that order_less_le_trans [of a "next_addr W" "next_addr W'"] by (simp add: messages_ok_def)
  from assms(6) have "messages_ok W'"
  proof (elim disjE exE conjE)
    assume "waiting_links W' = waiting_links W @ [next_addr W]" "next_addr W < next_addr W'"
    then show ?thesis
      using old(1,2) assms(2) less by (auto simp: messages_ok_def links_ok_def sorted_wrt_append same_devices_def)
  next
    assume "waiting_links W' = waiting_links W"
    then show ?thesis by (rule messages_frame [OF old(2) assms(2,4)])
  next
    fix a assume "waiting_links W = a # waiting_links W'"
    then show ?thesis using old(2) assms(2) less by (auto simp: messages_ok_def same_devices_def)
  qed
  with links show ?thesis using old(3) assms(2,3,5) by (simp add: registry_ok_def same_devices_def)
qed

lemma slot_inv_new:
  assumes "slot_inv W" "local_transports W' = local_transports W" "next_addr W' = next_addr W + 1"
    "transports W' = transports W \<or> (\<exists>t. transports W' = (transports W)(next_addr W \<mapsto> t))"
  shows "slot_inv W'"
  by (rule slot_inv_frame [OF assms(1)]) (use assms in \<open>auto simp: slot_inv_def split: if_splits\<close>)

lemma registry_register:
  assumes "registry_ok W" "register_socket_transport fd (Some ser) port loc W = Inr W'"
  shows "registry_ok W'"
proof -
  have old: "slot_inv W" "transports W 0 = None" "0 < next_addr W" using assms(1) by (auto simp: registry_ok_def links_ok_def)
  note e = register_effect [OF assms(2)]
  have pend: "waiting_links W' = waiting_links W \<or> waiting_links W' = waiting_links W @ [next_addr W]" and zero: "transports W' 0 = None"
    using e old by (auto simp: waiting_links_def)
  from e consider "local_transports W' = local_transports W" "transports W' = transports W \<or> (\<exists>t. transports W' = (transports W)(next_addr W \<mapsto> t))"
    | t where "table_entered t W W'" "transports W' = (transports W)(next_addr W \<mapsto> t)" by blast
  then have "slot_inv W'"
  proof cases
    case 1
    then show ?thesis using slot_inv_new [OF old(1)] e by simp
  next
    case 2
    from 2(1) have "find_port (adb_port t) (local_transports W) W = Inr None" by (simp add: table_entered_def)
    from find_port_spec [OF this] show ?thesis
      using slot_inv_enter [OF old(1), of t W'] 2 e by (simp add: table_entered_def)
  qed
  then show ?thesis using registry_messages [OF assms(1)] e pend zero by auto
qed

lemma registry_register_usb:
  assumes "registry_ok W"
  shows "registry_ok (register_usb_transport h ser w W)"
proof (rule registry_messages [OF assms])
  have old: "slot_inv W" "transports W 0 = None" "0 < next_addr W" using assms by (auto simp: registry_ok_def links_ok_def)
  show "slot_inv (register_usb_transport h ser w W)"
    by (rule slot_inv_new [OF old(1)]) (auto simp: register_usb_transport_def register_transport_def Let_def)
  show "transports (register_usb_transport h ser w W) 0 = None" using old by (simp add: register_usb_transport_def register_transport_def Let_def)
qed (simp_all add: register_usb_transport_def register_transport_def Let_def same_devices_def waiting_links_def)

text \<open>The table.\<close>

lemma length_clear_slot [simp]: "length (clear_slot a xs) = length xs"
  by (induction xs) auto

lemma clear_slot_nth: "i < length xs \<Longrightarrow> clear_slot a xs ! i = Some b \<Longrightarrow> xs ! i = Some b"
  by (induction xs arbitrary: i) (auto simp: nth_Cons split: if_splits nat.splits)

lemma registry_clear:
  assumes "registry_ok W"
  shows "registry_ok (W\<lparr>local_transports := clear_slot a (local_transports W)\<rparr>)"
proof (rule registry_messages [OF assms])
  have "slot_inv W" using assms by (simp add: registry_ok_def)
  then show "slot_inv (W\<lparr>local_transports := clear_slot a (local_transports W)\<rparr>)"
    by (rule slot_inv_frame) (use \<open>slot_inv W\<close> in \<open>auto simp: slot_inv_def intro: clear_slot_nth\<close>)
qed (use assms in \<open>simp_all add: same_devices_def registry_ok_def waiting_links_def\<close>)

lemma close_inv_registry: "close_inv (\<lambda>_. registry_ok)"
proof
  show rm: "registry_ok W'" if "registry_ok W" "remove_socket a W = Inr W'" for W a W'
    by (rule registry_frame [OF that(1)]) (use remove_effect [OF that(2)] in auto)
  show "registry_ok (freeS a W')" if "registry_ok W" "remove_socket a W = Inr W'" for W a W'
    by (rule registry_frame [OF rm [OF that]]) (simp_all add: freeS_def same_devices_def)
  show "registry_ok W'" if "registry_ok W" "quiet W W'" for W W'
    by (rule registry_frame [OF that(1)]) (use that(2) in \<open>auto simp: quiet_def same_devices_def\<close>)
  show "registry_ok (setS a s' W)" "registry_ok (freeS a W)" if "registry_ok W" for W a s'
    by (rule registry_frame [OF that]; simp add: setS_def freeS_def same_devices_def)+
  have upd: "registry_ok (W\<lparr>transports := (transports W)(a \<mapsto> t')\<rparr>)" if "registry_ok W" "transports W a = Some t" "adb_port t' = adb_port t" for W a t t'
    by (rule registry_frame [OF that(1)]) (use that(2,3) in \<open>auto simp: same_devices_def split: if_splits\<close>)
  fix W a t assume W: "registry_ok W" "transports W a = Some t"
  show "registry_ok (W\<lparr>transports := (transports W)(a \<mapsto> t')\<rparr>)" if "same_link t t'" for t'
    using that by (intro upd [OF W]) (simp add: same_link_def)
  show "registry_ok (W\<lparr>transports := (transports W)(a \<mapsto> t\<lparr>disconnects := disconnects t @ [d]\<rparr>)\<rparr>)"
    "registry_ok (W\<lparr>transports := (transports W)(a \<mapsto> t\<lparr>to_threads := to_threads t @ [p]\<rparr>)\<rparr>)" for d p
    by (rule upd [OF W]; simp)+
qed

interpretation registry: server_inv "\<lambda>_ W. pipes_ok W \<and> registry_ok W"
proof (rule server_inv.intro [OF close_inv_conj [OF close_inv_pipes close_inv_registry] server_inv_axioms.intro])
  show "wf_packet p" if "pipes_ok W \<and> registry_ok W" "transports W a = Some tr" "p \<in> set (to_loop tr)" for W a tr p
    using that pipes.I_delivered by blast
  fix W assume I: "pipes_ok W \<and> registry_ok W"
  note frame = registry_frame [OF I [THEN conjunct2]] and P = I [THEN conjunct1] and R = I [THEN conjunct2]
  show "pipes_ok W' \<and> registry_ok W'" if "unlink_transport a W = Inr W'" for a W'
    using pipes.I_unlink [OF P that] registry_unlink [OF R that] by blast
  show "pipes_ok W' \<and> registry_ok W'" if "registration W = (t, True) # ms" "link_transport t (W\<lparr>registration := ms\<rparr>) = Inr W'" for t ms W'
    using pipes.I_link [OF P that] registry_link [OF R that] by blast
  show "pipes_ok W' \<and> registry_ok W'" if "register_socket_transport fd (Some ser) port loc W = Inr W'" for fd ser port loc W'
    using pipes.I_register_socket [OF P that] registry_register [OF R that] by blast
  show "pipes_ok W' \<and> registry_ok W'" if "install_local_socket (next_addr W) (setS (next_addr W) s (W\<lparr>next_addr := next_addr W + 1\<rparr>)) = Inr W'" for s W'
    using pipes_new_socket(2) [OF P that] frame [of W'] install_effect [OF that] by auto
  show "pipes_ok (W\<lparr>next_addr := next_addr W + 1\<rparr>) \<and> registry_ok (W\<lparr>next_addr := next_addr W + 1\<rparr>)"
    using pipes.I_alloc [OF P] by (auto simp: same_devices_def intro: frame)
  show "pipes_ok (setS (next_addr W) s (W\<lparr>next_addr := next_addr W + 1\<rparr>)) \<and> registry_ok (setS (next_addr W) s (W\<lparr>next_addr := next_addr W + 1\<rparr>))" for s
    using pipes_new_socket(1) [OF P] by (auto simp: same_devices_def setS_def intro: frame)
  show "pipes_ok (register_usb_transport h u w W) \<and> registry_ok (register_usb_transport h u w W)" for h u w
    using pipes.I_register_usb [OF P] registry_register_usb [OF R] by blast
  show "pipes_ok (W\<lparr>registration := ms\<rparr>) \<and> registry_ok (W\<lparr>registration := ms\<rparr>)" if "registration W = m # ms" for m ms
  proof -
    have "slot_inv (W\<lparr>registration := ms\<rparr>)" using R by (simp add: registry_ok_def slot_inv_def same_slot_def)
    then show ?thesis
      using pipes.I_pop [OF P that] registry_messages [OF R, of "W\<lparr>registration := ms\<rparr>"] R that
      by (cases "snd m") (auto simp: waiting_links_def same_devices_def registry_ok_def)
  qed
  show "pipes_ok (remove_transport a W) \<and> registry_ok (remove_transport a W)" for a
  proof -
    have "slot_inv (remove_transport a W)" using R by (simp add: registry_ok_def slot_inv_def same_slot_def remove_transport_def)
    then show ?thesis
      using pipes.I_announce [OF P] registry_messages [OF R, of "remove_transport a W"] R
      by (auto simp: waiting_links_def same_devices_def registry_ok_def remove_transport_def)
  qed
  show "pipes_ok (W\<lparr>local_transports := clear_slot a (local_transports W)\<rparr>) \<and> registry_ok (W\<lparr>local_transports := clear_slot a (local_transports W)\<rparr>)" for a
    using pipes.I_clear [OF P] registry_clear [OF R] by blast
  show "pipes_ok (W\<lparr>transports := (transports W)(t := None)\<rparr>) \<and> registry_ok (W\<lparr>transports := (transports W)(t := None)\<rparr>)" for t
    using pipes.I_drop [OF P] by (auto simp: same_devices_def intro!: frame split: if_splits)
  show "pipes_ok (W\<lparr>transports := (transports W)(a \<mapsto> tr\<lparr>to_loop := to_loop tr @ [p]\<rparr>)\<rparr>)
      \<and> registry_ok (W\<lparr>transports := (transports W)(a \<mapsto> tr\<lparr>to_loop := to_loop tr @ [p]\<rparr>)\<rparr>)"
    if "transports W a = Some tr" "wf_packet p" for a tr p
    using pipes.I_deliver [OF P that] that(1) by (auto simp: same_devices_def intro!: frame split: if_splits)
qed

section \<open>The program\<close>

definition build_local_name :: "nat \<Rightarrow> int \<Rightarrow> string" where
  "build_local_name tsize server_port = snprintf tsize (''tcp:'' @ fmt_d server_port)"

text \<open>
  \<^verbatim>\<open>adb_main\<close> up to the event loop, with the first lines of \<^verbatim>\<open>fdevent_loop\<close>. \<open>pair\<close> and \<open>notify\<close> are the two socket pairs it asks for, the
  three arguments after them are those of \<^verbatim>\<open>usb_vendors_init\<close>. The threads started here are those of the step relation below.
\<close>

definition adb_main ::
    "net_env \<Rightarrow> (int \<times> int) option \<Rightarrow> (int \<times> int) option \<Rightarrow> bool \<Rightarrow> string option \<Rightarrow> (string \<Rightarrow> string list option) \<Rightarrow> int \<Rightarrow> world \<Rightarrow> world res" where
  "adb_main E pair notify bad home vendor_lines server_port W =
     rbind (init_transport_registration pair W) (\<lambda>W1.
     rbind (usb_vendors_init bad home vendor_lines) (\<lambda>vendorIds.
       if \<not> thread_ok E then Inl (Fatal ''cannot create input thread'')
       else rbind (install_listener E (build_local_name 30 server_port) ''*smartsocket*'' None (W1\<lparr>HOST := True\<rparr>)) (\<lambda>(r, W2).
         if r \<noteq> 0 then Inl (Exit 1)
         else
           let a = next_addr W2 in
           rbind (fdevent_subproc_setup notify a (fds W2)) (\<lambda>(fd, F). Inr (W2\<lparr>fds := F, next_addr := a + 1\<rparr>)))))"

text \<open>The server: its memory and where the threads of each transport are.\<close>

record server =
  mem :: world
  out_threads :: "addr \<rightharpoonup> out_pc"
  in_threads :: "addr \<rightharpoonup> in_pc"

text \<open>\<^verbatim>\<open>read_from_remote\<close> and \<^verbatim>\<open>write_to_remote\<close> of a USB transport whose handle is in the state \<open>U\<close>; a call that does not return is no step.\<close>

definition usb_link_read :: "usb \<Rightarrow> read_call" where
  "usb_link_read U t W = (case usb_remote_read get_apacket U of None \<Rightarrow> Inl OutOfFuel | Some (r, p, U') \<Rightarrow> Inr (r, p, W))"

definition usb_link_write :: "usb \<Rightarrow> write_call" where
  "usb_link_write U p t W = (case usb_remote_write p U of None \<Rightarrow> Inl OutOfFuel | Some (r, U') \<Rightarrow> Inr (r, W))"

text \<open>
  The steps: a callback of the event loop (which may start the threads of a transport), a wait for events, a step of a thread of a
  transport, the threads that look for emulators and USB devices, a service thread that ends, and anything the kernel does to the descriptors.
  A callback of the event loop is one step, although in the program a thread may run between two statements of it. A step of a thread is what it
  does under one lock: marking a transport as kicked, calling its \<^verbatim>\<open>kick\<close>, dropping a reference and closing the sockets of a transport are
  steps of their own. A step that faults is not taken, and what a program does after undefined behaviour is not described.
  Environments, answers of the kernel and states of USB handles are arbitrary in each step.
\<close>

inductive srv_step :: "server \<Rightarrow> server \<Rightarrow> bool" where
  turn: "loop_turn E acc pair rcount (mem S) = Inr (Some (None, W)) \<Longrightarrow> srv_step S (S\<lparr>mem := W\<rparr>)"
| start: "loop_turn E acc pair rcount (mem S) = Inr (Some (Some t, W)) \<Longrightarrow>
    srv_step S (S\<lparr>mem := W, out_threads := (out_threads S)(t \<mapsto> Out_online), in_threads := (in_threads S)(t \<mapsto> In_read False)\<rparr>)"
| wait: "loop_wait sel bad (mem S) = Inr W \<Longrightarrow> srv_step S (S\<lparr>mem := W\<rparr>)"
| device_out: "\<lbrakk>out_threads S t = Some pc; transports (mem S) t = Some tr;
      rd = (case t_ops tr of Socket_ops \<Rightarrow> socket_read | Usb_ops \<Rightarrow> usb_link_read U); output_step rd t pc (mem S) = Inr (pc', W)\<rbrakk> \<Longrightarrow>
    srv_step S (S\<lparr>mem := W, out_threads := (out_threads S)(t \<mapsto> pc')\<rparr>)"
| device_in: "\<lbrakk>in_threads S t = Some pc; transports (mem S) t = Some tr;
      wr = (case t_ops tr of Socket_ops \<Rightarrow> socket_write | Usb_ops \<Rightarrow> usb_link_write U); input_step wr t pc (mem S) = Inr (pc', W)\<rbrakk> \<Longrightarrow>
    srv_step S (S\<lparr>mem := W, in_threads := (in_threads S)(t \<mapsto> pc')\<rparr>)"
| emulator: "local_connect E port (mem S) = Inr (r, W) \<Longrightarrow> srv_step S (S\<lparr>mem := W\<rparr>)"
| usb_found: "srv_step S (S\<lparr>mem := register_usb_transport h ser can_write (mem S)\<rparr>)"
| usb_lost: "unregister_usb_transport h (mem S) = Inr W \<Longrightarrow> srv_step S (S\<lparr>mem := W\<rparr>)"
| waited: "wait_for_state fd ttype ser tss (mem S) = Some W \<Longrightarrow> srv_step S (S\<lparr>mem := W\<rparr>)"
| resolved: "srv_step S (S\<lparr>mem := dns_service fd addr4 (mem S)\<rparr>)"
| kernel: "srv_step S (S\<lparr>mem := (mem S)\<lparr>incoming := q, outgoing := q'\<rparr>\<rparr>)"

inductive srv_reachable :: "server \<Rightarrow> bool" where
  start: "adb_main E pair notify bad home vendor_lines server_port (world_init\<lparr>incoming := q, outgoing := q'\<rparr>) = Inr W \<Longrightarrow>
    srv_reachable \<lparr>mem = W, out_threads = Map.empty, in_threads = Map.empty\<rparr>"
| step: "srv_reachable S \<Longrightarrow> srv_step S S' \<Longrightarrow> srv_reachable S'"

lemma usb_bulk_read_length: "usb_bulk_read len U = (n, bs, U') \<Longrightarrow> 0 \<le> n \<Longrightarrow> n = int (length bs) \<and> length bs \<le> len"
proof -
  have "n = int (length bs) \<and> length bs \<le> len" if "reap_loop len q U = (n, bs, U')" "0 \<le> n" for q U n bs U'
    using that by (induction len q U rule: reap_loop.induct) (auto simp: Let_def split: if_splits reap.splits)
  then show "usb_bulk_read len U = (n, bs, U') \<Longrightarrow> 0 \<le> n \<Longrightarrow> ?thesis"
    by (auto simp: usb_bulk_read_def split: if_splits prod.splits)
qed

lemma usb_read_length:
  assumes "usb_read len U = Some (0, bs, U')"
  shows "length bs = len"
proof -
  let ?P = "\<lambda>len (got :: bytes) (U :: usb) (r :: int \<times> bytes \<times> usb). fst r = 0 \<longrightarrow> length (fst (snd r)) = length got + len"
  have "?P len got U r" if "usb_read_loop len got U = Some r" for len got U r
  proof (rule usb_read_loop.raw_induct [of ?P, OF _ that])
    fix f len got U r
    assume IH: "\<And>len got U r. f len got U = Some r \<Longrightarrow> ?P len got U r"
      and body: "(if len = 0 then Some (0, got, U)
        else let xfer = if 4096 < len then 4096 else len
          in case usb_bulk_read xfer U of (n, bs, U1) \<Rightarrow>
            if n \<noteq> int xfer then if u_errno U1 = U_ETIMEDOUT \<and> u_desc U1 \<noteq> - 1
              then if 0 < n then f (len - nat n) (got @ bs) U1 else f len got U1 else Some (- 1, got @ bs, U1)
            else f (len - xfer) (got @ bs) U1) = Some r"
    let ?xfer = "if 4096 < len then 4096 else len"
    obtain n bs U1 where rd: "usb_bulk_read ?xfer U = (n, bs, U1)" by (metis prod_cases3)
    show "?P len got U r"
    proof (cases "len = 0 \<or> n < 0 \<or> n = 0")
      case True
      then show ?thesis using body rd IH [of len got U1 r] IH [of "len - ?xfer" "got @ bs" U1 r] by (auto simp: Let_def split: if_splits)
    next
      case False
      then have "n = int (length bs)" "length bs \<le> ?xfer" using usb_bulk_read_length [OF rd] by auto
      then show ?thesis
        using False body rd IH [of "len - nat n" "got @ bs" U1 r] IH [of "len - ?xfer" "got @ bs" U1 r] by (auto simp: Let_def split: if_splits)
    qed
  qed
  from this [of len "[]" U] assms show ?thesis by (simp add: usb_read_def)
qed

lemma usb_remote_read_wf:
  assumes "usb_remote_read p0 U = Some (0, p, U')"
  shows "wf_packet p"
  using assms unfolding usb_remote_read_def Let_def
  by (auto simp: check_header_zero_iff wf_packet_def split: option.splits if_splits dest!: usb_read_length)

context server_inv
begin

lemma link_reads:
  assumes "I X W" "(case k of Socket_ops \<Rightarrow> socket_read | Usb_ops \<Rightarrow> usb_link_read U) t W = Inr (r, p, W')"
  shows "I X W' \<and> (r = 0 \<longrightarrow> wf_packet p)"
proof (cases k)
  case Socket_ops
  show ?thesis using assms rx.decode_sound_view [of get_apacket] unfolding Socket_ops
    by (auto simp: socket_read_def rbind_eq_Inr_iff remote_read_eq [symmetric] split: if_splits prod.splits intro!: quiet_updates)
next
  case Usb_ops
  then show ?thesis using assms by (auto simp: usb_link_read_def split: option.splits dest: usb_remote_read_wf)
qed

lemma link_writes:
  assumes "I X W" "(case k of Socket_ops \<Rightarrow> socket_write | Usb_ops \<Rightarrow> usb_link_write U) p t W = Inr (r, W')"
  shows "I X W'"
  using assms
  by (auto simp: socket_write_def usb_link_write_def rbind_eq_Inr_iff split: transport_ops.splits if_splits prod.splits option.splits
      intro!: quiet_updates)

lemma server_steps: "srv_step S S' \<Longrightarrow> I X (mem S) \<Longrightarrow> I X (mem S')"
proof (induction rule: srv_step.induct)
  case (turn E acc pair rcount S W)
  then show ?case using turns [of X "mem S" E acc pair rcount] by simp
next
  case (start E acc pair rcount S t W)
  then show ?case using turns [of X "mem S" E acc pair rcount] by simp
next
  case (wait sel bad S W)
  then show ?case using waits [of X "mem S" sel bad] by simp
next
  case (device_out S t pc tr rd U pc' W)
  then show ?case using output_steps [of X rd t "mem S" pc] link_reads by simp
next
  case (device_in S t pc tr wr U pc' W)
  then show ?case using input_steps [of X wr t "mem S" pc] link_writes by simp
next
  case (emulator E port S r W)
  then show ?case using connects_port [of X "mem S" E port] by simp
next
  case (usb_lost h S W)
  then show ?case using usb_unregistered [of X "mem S" h] by simp
next
  case (waited fd ttype ser tss S W)
  then show ?case by (auto simp: wait_for_state_def Let_def intro!: quiet_updates split: option.splits)
qed (auto simp: dns_service_def Let_def intro!: quiet_updates I_register_usb)

lemma starts_up:
  assumes "I X W" "HOST W" "adb_main E pair notify bad home vendor_lines server_port W = Inr W'"
  shows "I X W'"
proof -
  have init: "ends_in (\<lambda>W. I X W \<and> HOST W) (init_transport_registration pair W)"
    using assms(1,2) I_quiet [OF I_alloc [OF assms(1)]]
    by (auto simp: init_transport_registration_def on_fds_def ends_in_def rbind_eq_Inr_iff Let_def quiet_def split: option.splits)
  have host: "W1\<lparr>HOST := True\<rparr> = W1" if "HOST W1" for W1 :: world using that by simp
  have fin: "I X (W2\<lparr>fds := F, next_addr := next_addr W2 + 1\<rparr>)" if "I X W2" for W2 F
    using I_alloc [OF quiet_updates(6) [OF that, of F]] by simp
  have "ends_in (I X) (adb_main E pair notify bad home vendor_lines server_port W)"
    unfolding adb_main_def Let_def
    by (rule ends_in_bind [OF init], rule ends_in_any)
      (auto simp: host intro!: installs_listener [THEN ends_in_bind] ends_in_any [where m = "fdevent_subproc_setup _ _ _"] fin simp del: One_nat_def add_Suc_right)
  with assms(3) show ?thesis by (simp add: ends_in_def)
qed

lemma reached:
  assumes "\<And>q q'. I X (world_init\<lparr>incoming := q, outgoing := q'\<rparr>)" "srv_reachable S"
  shows "I X (mem S)"
  using assms(2)
proof (induction rule: srv_reachable.induct)
  case (start E pair notify bad home vendor_lines server_port q q' W)
  then show ?case using starts_up [OF assms(1)] by (simp add: world_init_def)
qed (rule server_steps)

end

lemma start_ok: "pipes_ok (world_init\<lparr>incoming := q, outgoing := q'\<rparr>)" "ids_ok (world_init\<lparr>incoming := q, outgoing := q'\<rparr>)"
  "registry_ok (world_init\<lparr>incoming := q, outgoing := q'\<rparr>)"
  "live_ok (world_init\<lparr>incoming := q, outgoing := q'\<rparr>)" "apart {} W"
  by (simp_all add: live_ok_def apart_def called_back_def pipes_ok_def ids_ok_def numbered_def registry_ok_def slot_inv_def messages_ok_def links_ok_def waiting_links_def world_init_def)

lemmas reachable_pipes = pipes.reached [OF start_ok(1)]

lemma reachable_invariants:
  assumes "srv_reachable S"
  shows "ids_ok (mem S)" "registry_ok (mem S)" "live_ok (mem S)"
  using ids.reached [OF _ assms] registry.reached [OF _ assms] live.reached [OF _ assms, of "{}"] start_ok by (blast, blast, blast)

end
