(* ===== verification/Server_Props.thy ===== *)
theory Server_Props
  imports Server_Run
begin

text \<open>
  What the invariants of theory \<open>Server_Run\<close> mean for the running server, how it starts, and one run of it: the server starts, finds an
  emulator, lists it, starts its threads, accepts a client and answers the first message of the output thread.
\<close>

section \<open>Starting up\<close>

lemma atoi_fmt_d:
  assumes "0 \<le> n" "n < 2 ^ 31"
  shows "atoi (fmt_d n) = n"
proof -
  obtain c cs where s: "digits 10 (nat n) = c # cs" by (metis length_digits_pos list.exhaust)
  then obtain d where "digit_val c = Some d" "d < 16"
    using digits_are_digits [of 10 c "nat n"] by fastforce
  note c = digit_not_special [OF this]
  have "read_digits 10 0 (c # cs) = nat n" using read_digits_digits [of 10 "nat n"] s by simp
  with c have "strtol_body 10 (c # cs) = n" using assms by (simp add: strtol_body_def unsigned_body_def starts_with_def del: read_digits.simps)
  then show ?thesis using assms s by (simp add: atoi_def strtol_def fmt_d_def)
qed

definition reads :: "fdstate \<Rightarrow> addr \<Rightarrow> int \<Rightarrow> fd_func \<Rightarrow> bool" where
  "reads S a fd func \<longleftrightarrow> (\<exists>f. fdes S a = Some f \<and> active f \<and> fde_fd f = fd \<and> fde_func f = func
     \<and> fde_state f AND FDE_EVENTMASK = FDE_READ)"

lemma reads_set:
  assumes "reads S a fd func" "fd_inv S"
  shows "nat fd \<in> read_fds S" "nat fd \<notin> write_fds S"
proof -
  obtain f where f: "fdes S a = Some f" "active f" "fde_fd f = fd" "fde_state f AND FDE_EVENTMASK = FDE_READ"
    using assms(1) by (auto simp: reads_def)
  have "has (fde_state f) FDE_READ" "\<not> has (fde_state f) FDE_WRITE"
    using arg_cong [OF f(4), of "\<lambda>w. bit w 0"] arg_cong [OF f(4), of "\<lambda>w. bit w 1"] by (simp_all add: fde_bits)
  then show "nat fd \<in> read_fds S" "nat fd \<notin> write_fds S" using fd_invD(1) [OF assms(2) f(1,2)] f(3) by (auto simp: fde_ok_def Let_def)
qed

lemma watch_descriptor:
  assumes "fd_inv S" "fresh_fd fd S" "fdes S a = None"
  shows "\<exists>S1 S2. fdevent_install a fd func arg S = Inr S1 \<and> fdevent_set a FDE_READ S1 = Inr S2 \<and> fd_inv S2 \<and> reads S2 a fd func
    \<and> used_fds S2 = insert (nat fd) (used_fds S) \<and> (\<forall>b. b \<noteq> a \<longrightarrow> fdes S2 b = fdes S b)"
    "\<exists>S1 S2. fdevent_create a fd func arg S = Inr S1 \<and> fdevent_add a FDE_READ S1 = Inr S2 \<and> fd_inv S2 \<and> reads S2 a fd func
    \<and> used_fds S2 = insert (nat fd) (used_fds S) \<and> (\<forall>b. b \<noteq> a \<longrightarrow> fdes S2 b = fdes S b)"
proof -
  let ?f = "\<lambda>w. \<lparr>fde_fd = fd, force_eof = False, fde_state = w, fde_events = 0, fde_func = func, fde_arg = arg\<rparr>"
  have act: "active (?f FDE_ACTIVE)" "active (?f (FDE_ACTIVE OR FDE_CREATED))" by (simp_all add: active_def fde_bits)
  have m: "(FDE_ACTIVE OR FDE_CREATED OR FDE_READ) AND FDE_EVENTMASK = FDE_READ" "FDE_READ AND FDE_EVENTMASK = FDE_READ"
    by (simp_all add: fde_consts)
  from fdevent_install_inv [OF assms(1,2), of a func arg] assms(3) obtain S1 where S1: "fdevent_install a fd func arg S = Inr S1" "fd_inv S1"
    "used_fds S1 = insert (nat fd) (used_fds S)" "fdes S1 = (fdes S)(a \<mapsto> ?f FDE_ACTIVE)" by auto
  from fdevent_set_result [OF S1(2), of a "?f FDE_ACTIVE" FDE_READ] act S1(4) obtain S2 f2 where S2: "fdevent_set a FDE_READ S1 = Inr S2" "fd_inv S2"
    "fdes S2 = (fdes S1)(a \<mapsto> f2)" "same_wiring (?f FDE_ACTIVE) f2" "fde_state f2 AND FDE_EVENTMASK = FDE_READ AND FDE_EVENTMASK" "fd_table S2 = fd_table S1" by auto
  then show "\<exists>S1 S2. fdevent_install a fd func arg S = Inr S1 \<and> fdevent_set a FDE_READ S1 = Inr S2 \<and> fd_inv S2 \<and> reads S2 a fd func
    \<and> used_fds S2 = insert (nat fd) (used_fds S) \<and> (\<forall>b. b \<noteq> a \<longrightarrow> fdes S2 b = fdes S b)"
    using S1 m by (auto simp: reads_def same_wiring_def used_fds_def)
  from fdevent_create_inv [OF assms(1,2), of a func arg] assms(3) obtain T1 where T1: "fdevent_create a fd func arg S = Inr T1" "fd_inv T1"
    "used_fds T1 = insert (nat fd) (used_fds S)" "fdes T1 = (fdes S)(a \<mapsto> ?f (FDE_ACTIVE OR FDE_CREATED))" by auto
  from fdevent_add_result [OF T1(2), of a "?f (FDE_ACTIVE OR FDE_CREATED)" FDE_READ] act T1(4) obtain T2 f2 where T2: "fdevent_add a FDE_READ T1 = Inr T2" "fd_inv T2"
    "fdes T2 = (fdes T1)(a \<mapsto> f2)" "same_wiring (?f (FDE_ACTIVE OR FDE_CREATED)) f2"
    "fde_state f2 AND FDE_EVENTMASK = (FDE_ACTIVE OR FDE_CREATED OR FDE_READ) AND FDE_EVENTMASK" "fd_table T2 = fd_table T1"
    by (auto simp: or.assoc)
  then show "\<exists>S1 S2. fdevent_create a fd func arg S = Inr S1 \<and> fdevent_add a FDE_READ S1 = Inr S2 \<and> fd_inv S2 \<and> reads S2 a fd func
    \<and> used_fds S2 = insert (nat fd) (used_fds S) \<and> (\<forall>b. b \<noteq> a \<longrightarrow> fdes S2 b = fdes S b)"
    using T1 m by (auto simp: reads_def same_wiring_def used_fds_def)
qed

lemma reads_keep: "reads S a fd func \<Longrightarrow> fdes T a = fdes S a \<Longrightarrow> reads T a fd func"
  by (simp add: reads_def)

lemma adb_main_eval:
  assumes "thread_ok E" "usb_vendors_init bad home vendor_lines = Inr ids" "build_local_name 30 port = name" "local_name_to_fd E name = fd" "0 \<le> fd"
    and A: "fdevent_install 1 s1 Transport_registration_func 0 fdstate_init = Inr A1" "fdevent_set 1 FDE_READ A1 = Inr A"
    and B: "fdevent_install 2 fd Ss_listener_event_func 2 A = Inr B1" "fdevent_set 2 FDE_READ B1 = Inr B"
    and C: "fdevent_create 3 n1 Fdevent_subproc_event_func 0 B = Inr C1" "fdevent_add 3 FDE_READ C1 = Inr F"
  shows "adb_main E (Some (sr, s1)) (Some (nr, n1)) bad home vendor_lines port (world_init\<lparr>incoming := q, outgoing := q'\<rparr>)
    = Inr (world_init\<lparr>incoming := q, outgoing := q', fds := F, next_addr := 4, listener_list := [2],
        listeners := [2 \<mapsto> \<lparr>l_fd = fd, local_name = name, connect_to = ''*smartsocket*'', l_transport = None\<rparr>]\<rparr>)"
proof -
  let ?W = "world_init\<lparr>incoming := q, outgoing := q'\<rparr>"
  have W: "fds world_init = fdstate_init" "next_addr world_init = 1" "listener_list world_init = []" "HOST world_init" "listeners world_init = Map.empty"
    by (simp_all add: world_init_def)
  have reg: "init_transport_registration (Some (sr, s1)) ?W = Inr (?W\<lparr>next_addr := 2, fds := A\<rparr>)"
    using A by (simp add: init_transport_registration_def on_fds_def W Let_def)
  have host: "?W\<lparr>next_addr := 2, fds := A, HOST := True\<rparr> = ?W\<lparr>next_addr := 2, fds := A\<rparr>" using W(4) by simp
  have lst: "install_listener E name ''*smartsocket*'' None (?W\<lparr>next_addr := 2, fds := A\<rparr>)
      = Inr (0, ?W\<lparr>next_addr := 3, fds := B, listener_list := [2],
          listeners := [2 \<mapsto> \<lparr>l_fd = fd, local_name = name, connect_to = ''*smartsocket*'', l_transport = None\<rparr>]\<rparr>)"
    using assms(4,5) B by (simp add: install_listener_def on_fds_def W Let_def)
  show ?thesis
    unfolding adb_main_def reg assms(2,3) rbind_simps host lst using assms(1) C by (simp add: fdevent_subproc_setup_def Let_def)
qed

lemma adb_main_starts:
  assumes env: "thread_ok E" "usb_vendors_init bad home vendor_lines = Inr ids" "loopback_server E port = fd"
    and port: "0 \<le> port" "port < 65536"
    and fds: "distinct [s1, fd, n1]" "\<forall>x \<in> {s1, fd, n1}. 0 \<le> x \<and> x < int FD_SETSIZE"
  shows "\<exists>F. adb_main E (Some (sr, s1)) (Some (nr, n1)) bad home vendor_lines port (world_init\<lparr>incoming := q, outgoing := q'\<rparr>)
      = Inr (world_init\<lparr>incoming := q, outgoing := q', fds := F, next_addr := 4, listener_list := [2],
          listeners := [2 \<mapsto> \<lparr>l_fd = fd, local_name = ''tcp:'' @ fmt_d port, connect_to = ''*smartsocket*'', l_transport = None\<rparr>]\<rparr>)
    \<and> fd_inv F \<and> used_fds F = {nat s1, nat fd, nat n1}
    \<and> reads F 1 s1 Transport_registration_func \<and> reads F 2 fd Ss_listener_event_func \<and> reads F 3 n1 Fdevent_subproc_event_func"
proof -
  have ff: "fdes fdstate_init = Map.empty" "used_fds fdstate_init = {}" by (simp_all add: fdstate_init_def used_fds_def)
  have fresh: "fresh_fd s1 fdstate_init" "\<And>S. used_fds S = {nat s1} \<Longrightarrow> fresh_fd fd S" "\<And>S. used_fds S = {nat fd, nat s1} \<Longrightarrow> fresh_fd n1 S"
    using fds ff by (simp_all add: fresh_fd_def eq_nat_nat_iff)
  obtain S1 S2 where S: "fdevent_install 1 s1 Transport_registration_func 0 fdstate_init = Inr S1" "fdevent_set 1 FDE_READ S1 = Inr S2" "fd_inv S2"
    "reads S2 1 s1 Transport_registration_func" "used_fds S2 = {nat s1}" "\<forall>b. b \<noteq> 1 \<longrightarrow> fdes S2 b = None"
    using watch_descriptor(1) [OF fd_inv_init, of s1 1 Transport_registration_func 0] fresh(1) ff by auto
  obtain T1 T2 where T: "fdevent_install 2 fd Ss_listener_event_func 2 S2 = Inr T1" "fdevent_set 2 FDE_READ T1 = Inr T2" "fd_inv T2"
    "reads T2 2 fd Ss_listener_event_func" "used_fds T2 = {nat fd, nat s1}" "\<forall>b. b \<noteq> 2 \<longrightarrow> fdes T2 b = fdes S2 b"
    using watch_descriptor(1) [OF S(3), of fd 2 Ss_listener_event_func 2] fresh(2) [OF S(5)] S(5,6) by auto
  obtain U1 U2 where U: "fdevent_create 3 n1 Fdevent_subproc_event_func 0 T2 = Inr U1" "fdevent_add 3 FDE_READ U1 = Inr U2" "fd_inv U2"
    "reads U2 3 n1 Fdevent_subproc_event_func" "used_fds U2 = {nat n1, nat fd, nat s1}" "\<forall>b. b \<noteq> 3 \<longrightarrow> fdes U2 b = fdes T2 b"
    using watch_descriptor(2) [OF T(3), of n1 3 Fdevent_subproc_event_func 0] fresh(3) [OF T(5)] S(6) T(5,6) by auto
  have len: "length (digits 10 (nat port)) \<le> 5" using length_digits_le [of 10 "nat port" 5] port by simp
  then have name: "build_local_name 30 port = ''tcp:'' @ fmt_d port"
    using port by (simp add: build_local_name_def snprintf_def fmt_d_def)
  have lfd: "local_name_to_fd E (''tcp:'' @ fmt_d port) = fd"
    using env(3) port atoi_fmt_d [of port] by (simp add: local_name_to_fd_def starts_with_def)
  have "0 \<le> fd" using fds by simp
  note adb_main_eval [OF env(1,2) name lfd this S(1,2) T(1,2) U(1,2), where sr = sr and nr = nr and q = q and q' = q']
  moreover have "reads U2 1 s1 Transport_registration_func" using reads_keep [OF S(4), of U2] T(6) U(6) by simp
  moreover have "reads U2 2 fd Ss_listener_event_func" using reads_keep [OF T(4), of U2] U(6) by simp
  ultimately show ?thesis using U(3,4,5) by (intro exI [of _ U2]) auto
qed

section \<open>A run\<close>

definition demo_env :: net_env where
  "demo_env = offline_env\<lparr>loopback_server := (\<lambda>_. 5), loopback_client := (\<lambda>p. if p = 5555 then 10 else -1), thread_ok := True\<rparr>"

definition demo_fde :: "int \<Rightarrow> u16 \<Rightarrow> fd_func \<Rightarrow> addr \<Rightarrow> fdevent" where
  "demo_fde fd st func arg = \<lparr>fde_fd = fd, force_eof = False, fde_state = st, fde_events = 0, fde_func = func, fde_arg = arg\<rparr>"

definition demo_fds :: fdstate where
  "demo_fds = \<lparr>fdes = [1 \<mapsto> demo_fde 4 0x101 Transport_registration_func 0, 2 \<mapsto> demo_fde 5 0x101 Ss_listener_event_func 2,
       3 \<mapsto> demo_fde 7 0x501 Fdevent_subproc_event_func 0],
     pending = [], fd_table = (replicate 256 None)[4 := Some 1, 5 := Some 2, 7 := Some 3], read_fds = {4, 5, 7}, write_fds = {}, error_fds = {},
     select_n = 8, closed_fds = []\<rparr>"

definition demo_start :: world where
  "demo_start = world_init\<lparr>fds := demo_fds, next_addr := 4, listener_list := [2],
     listeners := [2 \<mapsto> \<lparr>l_fd = 5, local_name = ''tcp:5037'', connect_to = ''*smartsocket*'', l_transport = None\<rparr>]\<rparr>"

lemmas fde_eval = fdevent_install_def fdevent_register_def fdevent_connect_def fdevent_set_def fdevent_update_def fdevent_add_def fdevent_create_def
  fetch_def store_def set_bit_in_def has_def fde_consts FD_SETSIZE_def

lemma grow_done [simp]: "fd < mx \<Longrightarrow> grow mx fd = mx"
  by (simp add: grow.simps)

lemma demo_starts:
  "adb_main demo_env (Some (3, 4)) (Some (6, 7)) False None (\<lambda>_. None) 5037 world_init = Inr demo_start"
proof -
  have name: "build_local_name 30 5037 = ''tcp:5037''" by (simp add: build_local_name_def snprintf_def fmt_d_def digits.simps hex_digit_def char_of_eq_iff)
  have fd: "local_name_to_fd demo_env ''tcp:5037'' = 5" by (simp add: local_name_to_fd_def demo_env_def starts_with_def)
  let ?A = "fdstate_init\<lparr>fdes := [1 \<mapsto> demo_fde 4 0x101 Transport_registration_func 0], fd_table := (replicate 256 None)[4 := Some 1],
    read_fds := {4}, select_n := 5\<rparr>"
  let ?B = "?A\<lparr>fdes := (fdes ?A)(2 \<mapsto> demo_fde 5 0x101 Ss_listener_event_func 2), fd_table := (fd_table ?A)[5 := Some 2],
    read_fds := {4, 5}, select_n := 6\<rparr>"
  have "rbind (fdevent_install 1 4 Transport_registration_func 0 fdstate_init) (fdevent_set 1 FDE_READ) = Inr ?A"
    by (simp add: fde_eval demo_fde_def fdstate_init_def Let_def)
  then obtain A1 where A: "fdevent_install 1 4 Transport_registration_func 0 fdstate_init = Inr A1" "fdevent_set 1 FDE_READ A1 = Inr ?A"
    unfolding rbind_eq_Inr_iff by blast
  have "rbind (fdevent_install 2 5 Ss_listener_event_func 2 ?A) (fdevent_set 2 FDE_READ) = Inr ?B"
    by (simp add: fde_eval demo_fde_def fdstate_init_def Let_def) (auto simp: fun_eq_iff)
  then obtain B1 where B: "fdevent_install 2 5 Ss_listener_event_func 2 ?A = Inr B1" "fdevent_set 2 FDE_READ B1 = Inr ?B"
    unfolding rbind_eq_Inr_iff by blast
  have "rbind (fdevent_create 3 7 Fdevent_subproc_event_func 0 ?B) (fdevent_add 3 FDE_READ) = Inr demo_fds"
    by (simp add: fde_eval demo_fde_def demo_fds_def fdstate_init_def Let_def) (auto simp: fun_eq_iff)
  then obtain C1 where C: "fdevent_create 3 7 Fdevent_subproc_event_func 0 ?B = Inr C1" "fdevent_add 3 FDE_READ C1 = Inr demo_fds"
    unfolding rbind_eq_Inr_iff by blast
  have env: "thread_ok demo_env" "usb_vendors_init False None (\<lambda>_. None) = Inr builtInVendorIds"
    by (simp_all add: demo_env_def usb_vendors_init_def split: option.splits)
  have "(0 :: int) \<le> 5" by simp
  from adb_main_eval [OF env name fd this A B C, where sr = 3 and nr = 6 and q = "incoming world_init" and q' = "outgoing world_init"] show ?thesis by (simp add: demo_start_def)
qed

definition demo_transport :: atransport where
  "demo_transport = blank_transport\<lparr>sfd := 10, sync_token := 1, t_type := KTransportLocal, adb_port := 5555, serial := Some ''emulator-5554''\<rparr>"

definition demo_found :: world where
  "demo_found = demo_start\<lparr>next_addr := 5, transports := [4 \<mapsto> demo_transport], registration := [(4, True)],
     local_transports := Some 4 # replicate 15 None\<rparr>"

lemma demo_connects: "local_connect demo_env 5555 demo_start = Inr (0, demo_found)"
proof -
  have nm: "snprintf 64 (LOCAL_CLIENT_PREFIX @ fmt_d 5554) = ''emulator-5554''" by (simp add: LOCAL_CLIENT_PREFIX_def snprintf_def fmt_d_def digits.simps hex_digit_def char_of_eq_iff)
  have W: "local_transports demo_start = None # replicate 15 None" "HOST demo_start" "next_addr demo_start = 4" "transports demo_start = Map.empty" "registration demo_start = []"
    by (simp_all add: demo_start_def world_init_def ADB_LOCAL_TRANSPORT_MAX_def flip: replicate_Suc)
  have none: "find_port 5555 (replicate k None) W = Inr None" for k W by (induction k) simp_all
  show ?thesis
    by (simp add: nm local_connect_def local_connect_arbitrary_ports_def demo_env_def offline_env_def register_socket_transport_def init_socket_transport_def
      find_emulator_transport_by_adb_port_def get_available_local_transport_index_def register_transport_def W none demo_found_def demo_transport_def blank_transport_def Let_def)
qed

definition demo_posted :: world where
  "demo_posted = demo_found\<lparr>fds := demo_fds\<lparr>fdes := (fdes demo_fds)(1 \<mapsto> (demo_fde 4 0x301 Transport_registration_func 0)\<lparr>fde_events := 1\<rparr>), pending := [1]\<rparr>\<rparr>"

lemma demo_waits: "loop_wait (Selected 1 {4} {} {}) (\<lambda>_. False) demo_found = Inr demo_posted"
proof -
  have up: "[0..<8] = [0, 1, 2, 3, 4, 5, 6, 7]" by (simp add: upt_rec)
  have "fdevent_process (Selected 1 {4} {} {}) (\<lambda>_. False) demo_fds = Inr (demo_fds\<lparr>fdes := (fdes demo_fds)(1 \<mapsto> (demo_fde 4 0x301 Transport_registration_func 0)\<lparr>fde_events := 1\<rparr>), pending := [1]\<rparr>)"
    by (simp add: fdevent_process_def demo_fds_def up events_at_def hits_at_def post_events_def fde_eval demo_fde_def Let_def)
  then show ?thesis by (simp add: loop_wait_def on_fds_def demo_found_def demo_posted_def demo_start_def)
qed

definition demo_run_fds :: fdstate where
  "demo_run_fds = demo_fds\<lparr>fdes := (fdes demo_fds)(4 \<mapsto> demo_fde 8 0x101 Transport_socket_events 4),
     fd_table := (fd_table demo_fds)[8 := Some 4], read_fds := {4, 5, 7, 8}, select_n := 9\<rparr>"

definition demo_listed :: world where
  "demo_listed = demo_found\<lparr>fds := demo_run_fds, registration := [], dev_nxt := [4 \<mapsto> 0, 0 \<mapsto> 4], dev_prv := [4 \<mapsto> 0, 0 \<mapsto> 4], transport_list := [4],
     transports := [4 \<mapsto> demo_transport\<lparr>ref_count := 2, transport_socket := 8, t_fd := 9\<rparr>]\<rparr>"

lemma update_none: "fetch_all (transport_list W) W = Inr ts \<Longrightarrow> device_tracker_list W = [] \<Longrightarrow> update_transports enq W = Inr W"
  using fetch_live_all [of "transport_list W" W ts] by (simp add: update_transports_def list_transports_msg_def list_transports_def Let_def)

lemma demo_turn: "loop_turn demo_env (\<lambda>_. -1) (Some (8, 9)) (\<lambda>_. 0) demo_posted = Inr (Some (Some 4, demo_listed))"
proof -
  let ?W = "demo_found\<lparr>fds := demo_fds\<rparr>"
  have n: "fdevent_next (fds demo_posted) = Inr (Some (Some (Transport_registration_func, 4, FDE_READ, 0), demo_fds))"
    by (simp add: demo_posted_def fdevent_next_def fdevent_plist_dequeue_def fdevent_call_fdfunc_def demo_fds_def demo_fde_def fde_eval Let_def) (auto simp: fun_eq_iff)
  have post: "demo_posted\<lparr>fds := demo_fds\<rparr> = ?W" by (simp add: demo_posted_def)
  have W: "registration demo_found = [(4, True)]" "transports demo_found = [4 \<mapsto> demo_transport]" "next_addr demo_found = 5" "dev_nxt demo_found = [0 \<mapsto> 0]" "dev_prv demo_found = [0 \<mapsto> 0]"
    "device_tracker_list demo_found = []" "connection_state demo_transport = CS_OFFLINE" "disconnects demo_transport = []"
    by (simp_all add: demo_found_def demo_start_def world_init_def demo_transport_def blank_transport_def)
  have inst: "rbind (fdevent_install 4 8 Transport_socket_events 4 demo_fds) (fdevent_set 4 FDE_READ) = Inr demo_run_fds"
    by (simp add: demo_fds_def demo_run_fds_def demo_fde_def fde_eval Let_def) (auto simp: fun_eq_iff)
  then obtain F where F: "fdevent_install 4 8 Transport_socket_events 4 demo_fds = Inr F" "fdevent_set 4 FDE_READ F = Inr demo_run_fds"
    by (auto simp: rbind_eq_Inr_iff)
  have rd: "has FDE_READ FDE_READ" by (simp add: has_def FDE_READ_def)
  let ?t = "demo_transport\<lparr>ref_count := 2, transport_socket := 8, t_fd := 9\<rparr>"
  have start: "start_transport demo_env (Some (8, 9)) 4 (?W\<lparr>registration := []\<rparr>)
      = Inr (demo_found\<lparr>fds := demo_run_fds, registration := [], transports := [4 \<mapsto> ?t]\<rparr>)"
    by (simp add: W updT_def getT_def start_transport_def on_fds_def F demo_env_def)
  have ln: "[0 \<mapsto> 0](4 \<mapsto> 0, 0 \<mapsto> 4) = [4 \<mapsto> 0, 0 \<mapsto> 4]" by (auto simp: fun_eq_iff)
  have five: "(5 :: nat) = Suc (Suc 3)" by simp
  have wk: "walk 5 [4 \<mapsto> 0, 0 \<mapsto> 4] 0 = [4]" unfolding five walk.simps by simp
  have link: "link_transport 4 (demo_found\<lparr>fds := demo_run_fds, registration := [], transports := [4 \<mapsto> ?t]\<rparr>) = Inr demo_listed"
    by (simp add: unlink_eval W ln wk) (simp add: demo_listed_def)
  have T: "transports demo_listed = [4 \<mapsto> ?t]" "transport_list demo_listed = [4]" "device_tracker_list demo_listed = []" "disconnects ?t = []"
    by (simp_all add: demo_listed_def W)
  have reg: "transport_registration_func demo_env (Some (8, 9)) FDE_READ ?W = Inr (Some 4, demo_listed)"
    by (simp add: transport_registration_func_def rd W getT_def start link updT_def update_none T) (simp add: demo_listed_def demo_transport_def blank_transport_def)
  show ?thesis
    unfolding loop_turn_def n by (simp add: post call_fdfunc_def plain_fdfunc_def reg)
qed

definition demo_announced :: world where
  "demo_announced = demo_listed\<lparr>transports := [4 \<mapsto> demo_transport\<lparr>ref_count := 2, transport_socket := 8, t_fd := 9, sync_token := 2,
     to_loop := [sync_packet 1 2]\<rparr>]\<rparr>"

lemma demo_output: "output_step socket_read 4 Out_online demo_listed = Inr (Out_pump, demo_announced)"
proof -
  have W: "transports demo_listed = [4 \<mapsto> demo_transport\<lparr>ref_count := 2, transport_socket := 8, t_fd := 9\<rparr>]" "to_loop demo_transport = []"
    "\<not> pair_broken demo_transport" "sync_token demo_transport = 1"
    by (simp_all add: demo_listed_def demo_transport_def blank_transport_def)
  show ?thesis by (simp add: output_step_def updT_def getT_def W thread_write_def demo_announced_def)
qed

definition demo_ready_fds :: fdstate where
  "demo_ready_fds = demo_run_fds\<lparr>fdes := (fdes demo_run_fds)(2 \<mapsto> (demo_fde 5 0x301 Ss_listener_event_func 2)\<lparr>fde_events := 1\<rparr>,
     4 \<mapsto> (demo_fde 8 0x301 Transport_socket_events 4)\<lparr>fde_events := 1\<rparr>), pending := [2, 4]\<rparr>"

lemma demo_waits2: "loop_wait (Selected 2 {5, 8} {} {}) (\<lambda>_. False) demo_announced = Inr (demo_announced\<lparr>fds := demo_ready_fds\<rparr>)"
proof -
  have up: "[0..<9] = [0, 1, 2, 3, 4, 5, 6, 7, 8]" by (simp add: upt_rec)
  have "fdevent_process (Selected 2 {5, 8} {} {}) (\<lambda>_. False) demo_run_fds = Inr demo_ready_fds"
    by (simp add: fdevent_process_def demo_fds_def demo_run_fds_def demo_ready_fds_def up events_at_def hits_at_def post_events_def fde_eval demo_fde_def Let_def)
  then show ?thesis by (simp add: loop_wait_def on_fds_def demo_announced_def demo_listed_def)
qed

definition demo_client_fds :: fdstate where
  "demo_client_fds = demo_ready_fds\<lparr>fdes := (fdes demo_ready_fds)(2 \<mapsto> demo_fde 5 0x101 Ss_listener_event_func 2,
     5 \<mapsto> demo_fde 11 0x101 Local_socket_event_func 5), pending := [4], fd_table := (fd_table demo_ready_fds)[11 := Some 5],
     read_fds := {4, 5, 7, 8, 11}, select_n := 12\<rparr>"

definition demo_client :: asocket where
  "demo_client = blank_socket\<lparr>s_fd := 11, enqueue := Local_socket_enqueue, ready := Local_socket_ready, close := Local_socket_close, s_id := 1, peer := Some 6\<rparr>"

definition demo_smart :: asocket where
  "demo_smart = blank_socket\<lparr>enqueue := Smart_socket_enqueue, ready := Smart_socket_ready, close := Smart_socket_close, peer := Some 5\<rparr>"

definition demo_accepted :: world where
  "demo_accepted = demo_announced\<lparr>fds := demo_client_fds, sockets := [5 \<mapsto> demo_client, 6 \<mapsto> demo_smart], local_socket_list := [5],
     local_socket_next_id := 2, next_addr := 7\<rparr>"

lemma demo_turn2: "loop_turn demo_env (\<lambda>_. 11) None (\<lambda>_. 0) (demo_announced\<lparr>fds := demo_ready_fds\<rparr>) = Inr (Some (None, demo_accepted))"
proof -
  let ?F = "demo_ready_fds\<lparr>fdes := (fdes demo_ready_fds)(2 \<mapsto> demo_fde 5 0x101 Ss_listener_event_func 2), pending := [4]\<rparr>"
  have n: "fdevent_next demo_ready_fds = Inr (Some (Some (Ss_listener_event_func, 5, FDE_READ, 2), ?F))"
    by (simp add: demo_ready_fds_def fdevent_next_def fdevent_plist_dequeue_def fdevent_call_fdfunc_def demo_fde_def fde_eval Let_def)
  have W: "sockets demo_announced = Map.empty" "local_socket_list demo_announced = []" "local_socket_next_id demo_announced = 1" "next_addr demo_announced = 5"
    by (simp_all add: demo_announced_def demo_listed_def demo_found_def demo_start_def world_init_def)
  have "rbind (fdevent_install 5 11 Local_socket_event_func 5 ?F) (fdevent_add 5 FDE_READ) = Inr demo_client_fds"
    by (simp add: demo_ready_fds_def demo_run_fds_def demo_fds_def demo_client_fds_def demo_fde_def fde_eval Let_def) (auto simp: fun_eq_iff)
  then obtain F where F: "fdevent_install 5 11 Local_socket_event_func 5 ?F = Inr F" "fdevent_add 5 FDE_READ F = Inr demo_client_fds"
    unfolding rbind_eq_Inr_iff by blast
  have rd: "has FDE_READ FDE_READ" by (simp add: has_def FDE_READ_def)
  show ?thesis
    by (simp add: loop_turn_def n call_fdfunc_def plain_fdfunc_def ss_listener_event_func_def rd create_local_socket_def install_local_socket_def
     connect_to_smartsocket_def create_smart_socket_def ready_socket_def setS_def getS_def updS_def on_fds_def F W Let_def demo_accepted_def demo_client_def demo_smart_def
      sock_ready_def local_socket_ready_def)
qed

definition demo_online :: world where
  "demo_online = demo_accepted\<lparr>fds := demo_client_fds\<lparr>fdes := (fdes demo_client_fds)(4 \<mapsto> demo_fde 8 0x101 Transport_socket_events 4), pending := []\<rparr>,
     transports := [4 \<mapsto> demo_transport\<lparr>ref_count := 2, transport_socket := 8, t_fd := 9, sync_token := 2, to_loop := [],
       to_threads := [seal_packet (sync_packet 1 2),
         seal_packet (get_apacket\<lparr>data := ''host::'' @ [NUL],
          msg := zero_msg\<lparr>command := A_CNXN, arg0 := A_VERSION, arg1 := 4096, data_length := 7\<rparr>\<rparr>)]\<rparr>]\<rparr>"

lemma demo_turn3: "loop_turn demo_env (\<lambda>_. -1) None (\<lambda>_. 0) demo_accepted = Inr (Some (None, demo_online))"
proof -
  let ?F = "demo_client_fds\<lparr>fdes := (fdes demo_client_fds)(4 \<mapsto> demo_fde 8 0x101 Transport_socket_events 4), pending := []\<rparr>"
  have n: "fdevent_next demo_client_fds = Inr (Some (Some (Transport_socket_events, 8, FDE_READ, 4), ?F))"
    by (simp add: demo_ready_fds_def demo_client_fds_def fdevent_next_def fdevent_plist_dequeue_def fdevent_call_fdfunc_def demo_fde_def fde_eval Let_def)
  have W: "fds demo_accepted = demo_client_fds" "HOST demo_accepted" "transports demo_accepted = [4 \<mapsto> demo_transport\<lparr>ref_count := 2, transport_socket := 8, t_fd := 9, sync_token := 2,
     to_loop := [sync_packet 1 2]\<rparr>]" "to_threads demo_transport = []" "to_loop demo_transport = []"
    "\<not> pair_broken demo_transport" "command (msg (sync_packet 1 2)) = A_SYNC" "arg0 (msg (sync_packet 1 2)) = 1"
    by (simp_all add: demo_accepted_def demo_announced_def demo_listed_def demo_found_def demo_start_def world_init_def sync_packet_def demo_transport_def blank_transport_def)
  have rd: "has FDE_READ FDE_READ" by (simp add: has_def FDE_READ_def)
  show ?thesis
    by (simp add: loop_turn_def W n call_fdfunc_def plain_fdfunc_def transport_socket_events_def rd getT_def updT_def handle_packet_def handle_sync_def
      send_packet_def send_connect_def MAX_PAYLOAD_def snprintf_def Let_def demo_online_def)
qed
lemma demo_reachable: "srv_reachable \<lparr>mem = demo_online, out_threads = [4 \<mapsto> Out_pump], in_threads = [4 \<mapsto> In_read False]\<rparr>"
proof -
  let ?S = "\<lambda>W. \<lparr>mem = W, out_threads = Map.empty, in_threads = Map.empty\<rparr>"
  let ?T = "\<lambda>W pc. \<lparr>mem = W, out_threads = [4 \<mapsto> pc], in_threads = [4 \<mapsto> In_read False]\<rparr>"
  have eq: "world_init\<lparr>incoming := incoming world_init, outgoing := outgoing world_init\<rparr> = world_init" by simp
  have "srv_reachable (?S demo_start)"
    using srv_reachable.start [where q = "incoming world_init" and q' = "outgoing world_init"] demo_starts unfolding eq by blast
  moreover have "srv_step (?S demo_start) (?S demo_found)" using srv_step.emulator [of demo_env 5555 "?S demo_start"] demo_connects by simp
  moreover have "srv_step (?S demo_found) (?S demo_posted)" using srv_step.wait [of "Selected 1 {4} {} {}" "\<lambda>_. False" "?S demo_found"] demo_waits by simp
  moreover have "srv_step (?S demo_posted) (?T demo_listed Out_online)"
    using srv_step.start [of demo_env "\<lambda>_. -1" "Some (8, 9)" "\<lambda>_. 0" "?S demo_posted"] demo_turn by simp
  moreover have "srv_step (?T demo_listed Out_online) (?T demo_announced Out_pump)"
    using srv_step.device_out [of "?T demo_listed Out_online" 4 Out_online _ socket_read _ Out_pump demo_announced] demo_output
    by (simp add: demo_listed_def demo_transport_def blank_transport_def)
  moreover have "srv_step (?T demo_announced Out_pump) (?T (demo_announced\<lparr>fds := demo_ready_fds\<rparr>) Out_pump)"
    using srv_step.wait [of _ _ "?T demo_announced Out_pump"] demo_waits2 by simp
  moreover have "srv_step (?T (demo_announced\<lparr>fds := demo_ready_fds\<rparr>) Out_pump) (?T demo_accepted Out_pump)"
    using srv_step.turn [of _ _ _ _ "?T (demo_announced\<lparr>fds := demo_ready_fds\<rparr>) Out_pump"] demo_turn2 by simp
  moreover have "srv_step (?T demo_accepted Out_pump) (?T demo_online Out_pump)"
    using srv_step.turn [of _ _ _ _ "?T demo_accepted Out_pump"] demo_turn3 by simp
  ultimately show ?thesis by (meson srv_reachable.step)
qed

section \<open>What the invariants mean\<close>

lemma good_packet_accepted:
  assumes "good_packet p" "remote_write p wq = (0, sent, wq')" "readable q = sent @ rest"
  shows "\<exists>q'. remote_read p0 q = (0, p0\<lparr>msg := msg p, data := payload p\<rparr>, q') \<and> readable q' = rest"
proof -
  have "sent = packet_bytes p" using remote_write_bytes assms(2) by blast
  then show ?thesis using rx.decode_accepts [of p q rest p0] assms(1,3) by (simp add: good_packet_def remote_read_eq)
qed

lemma next_chain_cong: "next_chain nx a bs \<Longrightarrow> (\<And>b. b \<in> set (a # bs) \<Longrightarrow> nx' b = nx b) \<Longrightarrow> next_chain nx' a bs"
  by (induction bs arbitrary: a) auto

lemma next_chain_suffix: "next_chain nx x (as @ a # bs) \<Longrightarrow> next_chain nx a bs"
  by (induction as arbitrary: x) auto

lemma find_port_live: "\<forall>a. Some a \<in> set xs \<longrightarrow> transports W a \<noteq> None \<Longrightarrow> \<exists>r. find_port port xs W = Inr r"
  by (induction xs) (auto simp: getT_def split: option.split)

lemma distinct_filter_nthI:
  assumes "\<And>i j. i < length xs \<Longrightarrow> j < length xs \<Longrightarrow> P (xs ! i) \<Longrightarrow> xs ! i = xs ! j \<Longrightarrow> i = j"
  shows "distinct (filter P xs)"
  using assms
proof (induction xs)
  case (Cons x xs)
  have "i = j" if "i < length xs" "j < length xs" "P (xs ! i)" "xs ! i = xs ! j" for i j using Cons.prems [of "Suc i" "Suc j"] that by simp
  then have "distinct (filter P xs)" by (rule Cons.IH)
  moreover have "x \<notin> set xs" if "P x" using Cons.prems [of 0 "Suc j" for j] that by (auto simp: in_set_conv_nth)
  ultimately show ?case by auto
qed simp

lemma slot_unique:
  assumes "slot_inv W" "Some a \<in> set (local_transports W)" "Some b \<in> set (local_transports W)" "same_slot W a b"
  shows "a = b"
proof -
  from assms obtain i j where "i < ADB_LOCAL_TRANSPORT_MAX" "local_transports W ! i = Some a" "j < ADB_LOCAL_TRANSPORT_MAX" "local_transports W ! j = Some b"
    unfolding slot_inv_def by (metis in_set_conv_nth)
  with assms show ?thesis unfolding slot_inv_def by (metis option.inject)
qed

lemma find_id_live: "\<forall>a \<in> set xs. sockets W a \<noteq> None \<Longrightarrow> \<exists>r. find_id i xs W = Inr r"
  by (induction xs) (auto simp: getS_def)

lemma find_id_unique:
  assumes "find_id i xs W = Inr r" "a \<in> set xs" "sockets W a = Some s" "s_id s = i"
    and "\<And>x y u v. x \<in> set xs \<Longrightarrow> y \<in> set xs \<Longrightarrow> sockets W x = Some u \<Longrightarrow> sockets W y = Some v \<Longrightarrow> s_id u = s_id v \<Longrightarrow> x = y"
  shows "r = Some a"
  using assms
proof (induction xs)
  case (Cons x xs)
  then obtain u where u: "sockets W x = Some u" by (auto simp: rbind_eq_Inr_iff getS_def split: option.splits)
  show ?case
  proof (cases "s_id u = i")
    case True
    then have "x = a" using Cons.prems u by (metis list.set_intros(1))
    then show ?thesis using Cons.prems(1) u True by (simp add: getS_def)
  next
    case False
    then have "find_id i xs W = Inr r" "a \<in> set xs" using Cons.prems u by (auto simp: getS_def)
    then show ?thesis using Cons.IH Cons.prems(3-5) by (meson list.set_intros(2))
  qed
qed simp

section \<open>Properties\<close>

text \<open>C33: Started with two socket pairs and a free port, the server listens on that port for clients and watches exactly three descriptors,
  for input: the one on which transports are announced, the listening one and the one on which exited shells are announced.\<close>

theorem server_starts:
  assumes "thread_ok E" "usb_vendors_init bad home vendor_lines = Inr ids" "loopback_server E port = fd" "0 \<le> port" "port < 65536"
    and "distinct [s1, fd, n1]" "\<forall>x \<in> {s1, fd, n1}. 0 \<le> x \<and> x < int FD_SETSIZE"
  shows "\<exists>W. adb_main E (Some (s0, s1)) (Some (n0, n1)) bad home vendor_lines port world_init = Inr W
    \<and> (\<exists>a l. listener_list W = [a] \<and> listeners W a = Some l \<and> l_fd l = fd \<and> local_name l = ''tcp:'' @ fmt_d port \<and> connect_to l = ''*smartsocket*''
        \<and> (\<exists>f. fdes (fds W) a = Some f \<and> fde_fd f = fd \<and> fde_func f = Ss_listener_event_func))
    \<and> transport_list W = [] \<and> read_fds (fds W) = {nat s1, nat fd, nat n1} \<and> write_fds (fds W) = {} \<and> fd_inv (fds W)"
proof -
  have eq: "world_init\<lparr>incoming := incoming world_init, outgoing := outgoing world_init\<rparr> = world_init" by simp
  obtain F where F: "adb_main E (Some (s0, s1)) (Some (n0, n1)) bad home vendor_lines port world_init
      = Inr (world_init\<lparr>fds := F, next_addr := 4, listener_list := [2],
          listeners := [2 \<mapsto> \<lparr>l_fd = fd, local_name = ''tcp:'' @ fmt_d port, connect_to = ''*smartsocket*'', l_transport = None\<rparr>]\<rparr>)"
    "fd_inv F" "used_fds F = {nat s1, nat fd, nat n1}" "reads F 1 s1 Transport_registration_func" "reads F 2 fd Ss_listener_event_func"
    "reads F 3 n1 Fdevent_subproc_event_func"
    using adb_main_starts [OF assms, where sr = s0 and nr = n0 and q = "incoming world_init" and q' = "outgoing world_init"] unfolding eq by auto
  note sets = reads_set [OF F(4,2)] reads_set [OF F(5,2)] reads_set [OF F(6,2)]
  have "read_fds F = {nat s1, nat fd, nat n1}" "write_fds F = {}" using sets fd_invD(3,4) [OF F(2)] F(3) by auto
  then show ?thesis using F(1,2,5) by (auto simp: reads_def world_init_def)
qed

theorem server_starts_witness:
  "\<exists>W. adb_main demo_env (Some (3, 4)) (Some (6, 7)) False None (\<lambda>_. None) 5037 world_init = Inr W
     \<and> transport_list W = [] \<and> read_fds (fds W) = {4, 5, 7}"
proof -
  have "usb_vendors_init False None (\<lambda>_. None) = Inr builtInVendorIds" by (simp add: usb_vendors_init_def split: option.splits)
  from server_starts [OF _ this, of demo_env 5037 5 4 7 3 6] show ?thesis by (auto simp: demo_env_def FD_SETSIZE_def)
qed

text \<open>C2: Whatever the server and its devices do, every packet on its way from the event loop to a device is well formed and sealed: the link
  accepts it, and once its bytes have been written to a socket the other end reads exactly this header and payload. Every packet on its way
  from a device to the event loop is well formed: its length field is at most 4096 and not more than the bytes the packet holds.\<close>

theorem server_packets_sealed:
  assumes "srv_reachable S" "transports (mem S) t = Some tr"
  shows "(\<forall>p \<in> set (to_threads tr). wf_packet p \<and> check_header p = 0 \<and> check_data p = 0
      \<and> (\<forall>wq sent wq' q rest p0. remote_write p wq = (0, sent, wq') \<longrightarrow> readable q = sent @ rest \<longrightarrow>
           (\<exists>q'. remote_read p0 q = (0, p0\<lparr>msg := msg p, data := payload p\<rparr>, q') \<and> readable q' = rest)))
    \<and> (\<forall>p \<in> set (to_loop tr). wf_packet p)"
proof -
  have "\<forall>p \<in> set (to_threads tr). good_packet p" "\<forall>p \<in> set (to_loop tr). wf_packet p"
    using reachable_pipes [OF assms(1)] assms(2) by (auto simp: pipes_ok_def)
  then show ?thesis using good_packet_accepted by (auto simp: good_packet_def)
qed

theorem server_packets_sealed_witness:
  "list_all (\<lambda>p. check_header p = 0 \<and> check_data p = 0) (to_threads (the (transports demo_online 4)))
   \<and> map (command \<circ> msg) (to_threads (the (transports demo_online 4))) = [A_SYNC, A_CNXN]"
proof -
  obtain tr where tr: "transports demo_online 4 = Some tr" "map (command \<circ> msg) (to_threads tr) = [A_SYNC, A_CNXN]"
    by (simp add: demo_online_def sync_packet_def)
  then show ?thesis using server_packets_sealed [OF demo_reachable, of 4 tr] by (auto simp: list_all_iff)
qed

text \<open>C5: The list of local sockets never holds a socket twice or one that has been freed, so looking up an id always succeeds. As long as
  fewer than $2^{32}$ objects have been allocated, no socket on it has the id 0, which stands for no socket, and a lookup of the id
  of a socket finds this socket and no other.\<close>

theorem server_ids_resolve:
  assumes "srv_reachable S"
  shows "distinct (local_socket_list (mem S)) \<and> (\<exists>r. find_local_socket i (mem S) = Inr r)
    \<and> (\<forall>a \<in> set (local_socket_list (mem S)). \<exists>s. sockets (mem S) a = Some s
        \<and> (next_addr (mem S) < 2 ^ 32 \<longrightarrow> 0 < s_id s \<and> find_local_socket (s_id s) (mem S) = Inr (Some a)))"
proof -
  have d: "distinct (local_socket_list (mem S))" and live: "\<forall>a \<in> set (local_socket_list (mem S)). sockets (mem S) a \<noteq> None"
    using reachable_invariants(3) [OF assms] by (fastforce simp: live_ok_def)+
  then have found: "\<exists>r. find_local_socket i (mem S) = Inr r" for i unfolding find_local_socket_def by (blast intro: find_id_live)
  have "\<exists>s. sockets (mem S) a = Some s \<and> (next_addr (mem S) < 2 ^ 32 \<longrightarrow> 0 < s_id s \<and> find_local_socket (s_id s) (mem S) = Inr (Some a))"
    if a: "a \<in> set (local_socket_list (mem S))" for a
  proof -
    obtain s where s: "sockets (mem S) a = Some s" using live a by auto
    have "0 < s_id s \<and> find_local_socket (s_id s) (mem S) = Inr (Some a)" if "next_addr (mem S) < 2 ^ 32"
    proof -
      have n: "numbered (mem S)" using reachable_invariants(1) [OF assms] that by (simp add: ids_ok_def)
      obtain r where r: "find_local_socket (s_id s) (mem S) = Inr r" using found by blast
      then have "r = Some a" using find_id_unique [OF r [unfolded find_local_socket_def] a s refl] n unfolding numbered_def by blast
      then show ?thesis using r n a s unfolding numbered_def by blast
    qed
    with s show ?thesis by blast
  qed
  then show ?thesis using d found by blast
qed

theorem server_ids_resolve_witness:
  "0 < s_id demo_client \<and> find_local_socket 1 demo_online = Inr (Some 5)"
proof -
  have W: "next_addr demo_online < 2 ^ 32" "local_socket_list demo_online = [5]" "sockets demo_online 5 = Some demo_client" "s_id demo_client = 1"
    by (simp_all add: demo_online_def demo_accepted_def demo_client_def)
  then show ?thesis using server_ids_resolve [OF demo_reachable, of 1] by simp
qed



text \<open>C6: The table of emulators has 16 slots, holds no transport twice and, among those that are allocated, no two for the same port. A lookup of
  a port that returns has found the transport in the table with that port, or nothing exactly if there is none; it returns unless the
  table holds a transport that has been freed.\<close>

theorem emulator_table_sound:
  assumes "srv_reachable S"
  defines "tab \<equiv> local_transports (mem S)"
  shows "length tab = 16 \<and> distinct (filter (\<lambda>x. x \<noteq> None) tab)
    \<and> (\<forall>a b t u. Some a \<in> set tab \<longrightarrow> Some b \<in> set tab \<longrightarrow> transports (mem S) a = Some t \<longrightarrow> transports (mem S) b = Some u \<longrightarrow>
         adb_port t = adb_port u \<longrightarrow> a = b)
    \<and> (\<forall>r a. find_emulator_transport_by_adb_port port (mem S) = Inr r \<longrightarrow>
         (r = Some a \<longleftrightarrow> Some a \<in> set tab \<and> (\<exists>t. transports (mem S) a = Some t \<and> adb_port t = port)))
    \<and> ((\<forall>a. Some a \<in> set tab \<longrightarrow> transports (mem S) a \<noteq> None) \<longrightarrow> (\<exists>r. find_emulator_transport_by_adb_port port (mem S) = Inr r))"
proof -
  have inv: "slot_inv (mem S)" using reachable_invariants(2) [OF assms(1)] by (simp add: registry_ok_def)
  have uniq: "a = b" if "Some a \<in> set tab" "Some b \<in> set tab" "transports (mem S) a = Some t" "transports (mem S) b = Some u" "adb_port t = adb_port u" for a b t u
    by (rule slot_unique [OF inv]) (use that in \<open>auto simp: same_slot_def tab_def\<close>)
  have "distinct (filter (\<lambda>x. x \<noteq> None) tab)"
    using inv by (intro distinct_filter_nthI) (fastforce simp: slot_inv_def same_slot_def tab_def)
  moreover have "r = Some a \<longleftrightarrow> Some a \<in> set tab \<and> (\<exists>t. transports (mem S) a = Some t \<and> adb_port t = port)"
    if "find_emulator_transport_by_adb_port port (mem S) = Inr r" for r a
  proof -
    have f: "find_port port tab (mem S) = Inr r" using that by (simp add: find_emulator_transport_by_adb_port_def tab_def)
    show ?thesis
    proof (cases r)
      case None
      then show ?thesis using find_port_spec [OF f] by auto
    next
      case (Some b)
      then show ?thesis using find_port_spec [OF f] uniq [of a b] by auto
    qed
  qed
  ultimately show ?thesis
    using uniq inv find_port_live [of tab "mem S" port] by (auto simp: slot_inv_def ADB_LOCAL_TRANSPORT_MAX_def find_emulator_transport_by_adb_port_def tab_def)
qed

theorem emulator_table_sound_witness:
  "find_emulator_transport_by_adb_port 5555 demo_online = Inr (Some 4) \<and> find_emulator_transport_by_adb_port 5557 demo_online = Inr None"
proof -
  have tab: "local_transports demo_online = Some 4 # replicate 15 None"
    by (simp add: demo_online_def demo_accepted_def demo_announced_def demo_listed_def demo_found_def)
  obtain t where t: "transports demo_online 4 = Some t" "adb_port t = 5555" by (simp add: demo_online_def demo_transport_def)
  note sound = emulator_table_sound [OF demo_reachable, simplified, unfolded tab]
  obtain r q where r: "find_emulator_transport_by_adb_port 5555 demo_online = Inr r" and q: "find_emulator_transport_by_adb_port 5557 demo_online = Inr q"
    using sound [of 5555] sound [of 5557] t by auto
  have "r = Some 4" using sound [of 5555] r t by auto
  moreover have "q = None"
  proof (rule ccontr)
    assume "q \<noteq> None"
    then obtain a where "q = Some a" by blast
    with sound [of 5557] q have "a = 4 \<and> (\<exists>t. transports demo_online a = Some t \<and> adb_port t = 5557)" by auto
    then obtain u where "transports demo_online 4 = Some u" "adb_port u = 5557" by blast
    with t show False by simp
  qed
  ultimately show ?thesis using r q by simp
qed

end
