(* ===== verification/Adb_Client.thy ===== *)
theory Adb_Client
  imports Smart_Socket
begin

text \<open>
  The client's side of the conversation with the server: adb_client.c and \<^verbatim>\<open>launch_server\<close> of adb.c. The state
  holds the three static settings, the error text, and the client's connections: \<open>dials\<close> are the results of the
  successive calls of \<^verbatim>\<open>socket_loopback_client\<close>, \<open>starts\<close> describes what happens at the successive attempts
  to start a server.
\<close>

section \<open>State\<close>

text \<open>One attempt to start a server: whether \<^verbatim>\<open>pipe\<close> works, what \<^verbatim>\<open>fork\<close> yields in the parent, and what the
  parent reads from the pipe.\<close>

record start_attempt =
  pipe_ok :: bool
  forked :: int
  pipe_read :: "errno + bytes"

record client =
  adb_transport :: transport_type
  adb_serial :: "string option"
  adb_server_port :: int
  adb_error :: string
  dials :: "int list"
  starts :: "start_attempt list"
  c_incoming :: "int \<Rightarrow> rscript"
  c_outgoing :: "int \<Rightarrow> wscript"
  c_sent :: "int \<Rightarrow> bytes"
  c_closed :: "int list"
  c_dialled :: "int list"

definition DEFAULT_ADB_PORT :: int where "DEFAULT_ADB_PORT = 5037"

definition adb_set_transport :: "transport_type \<Rightarrow> string option \<Rightarrow> client \<Rightarrow> client" where
  "adb_set_transport ty ser C = C\<lparr>adb_transport := ty, adb_serial := ser\<rparr>"

definition adb_set_tcp_specifics :: "int \<Rightarrow> client \<Rightarrow> client" where
  "adb_set_tcp_specifics port C = C\<lparr>adb_server_port := port\<rparr>"

definition c_readx :: "int \<Rightarrow> nat \<Rightarrow> client \<Rightarrow> int \<times> bytes \<times> client" where
  "c_readx fd n C =
     (case readx n (c_incoming C fd) of (r, bs, q) \<Rightarrow> (r, bs, C\<lparr>c_incoming := (c_incoming C)(fd := q)\<rparr>))"

definition c_writex :: "int \<Rightarrow> bytes \<Rightarrow> client \<Rightarrow> int \<times> client" where
  "c_writex fd bs C =
     (case writex bs (c_outgoing C fd) of
        (r, sent, q) \<Rightarrow>
          (r, C\<lparr>c_outgoing := (c_outgoing C)(fd := q), c_sent := (c_sent C)(fd := c_sent C fd @ sent)\<rparr>))"

definition c_close :: "int \<Rightarrow> client \<Rightarrow> client" where
  "c_close fd C = C\<lparr>c_closed := c_closed C @ [fd]\<rparr>"

definition fail_with :: "string \<Rightarrow> client \<Rightarrow> int \<times> client" where
  "fail_with e C = (-1, C\<lparr>adb_error := e\<rparr>)"

section \<open>Status\<close>

definition byte_nat :: "bytes \<Rightarrow> nat \<Rightarrow> nat" where
  "byte_nat bs i = of_char (bs ! i)"

definition status_text :: "bytes \<Rightarrow> string" where
  "status_text buf =
     ''protocol fault (status '' @ fmt_02x (byte_nat buf 0) @ '' '' @ fmt_02x (byte_nat buf 1) @ '' ''
       @ fmt_02x (byte_nat buf 2) @ '' '' @ fmt_02x (byte_nat buf 3) @ ''?!)''"

definition adb_status :: "int \<Rightarrow> client \<Rightarrow> int \<times> client" where
  "adb_status fd C =
     (case c_readx fd 4 C of
        (r, buf, C1) \<Rightarrow>
          if r \<noteq> 0 then fail_with ''protocol fault (no status)'' C1
          else if buf = ''OKAY'' then (0, C1)
          else if buf \<noteq> ''FAIL'' then fail_with (status_text buf) C1
          else case c_readx fd 4 C1 of
            (r, buf, C2) \<Rightarrow>
              if r \<noteq> 0 then fail_with ''protocol fault (status len)'' C2
              else
                let n = strtoul16 (c_str buf); len = (if 255 < n then 255 else unat n) in
                (case c_readx fd len C2 of
                   (r, text, C3) \<Rightarrow>
                     if r \<noteq> 0 then fail_with ''protocol fault (status read)'' C3
                     else fail_with (c_str text) C3))"

section \<open>Connecting\<close>

text \<open>\<^verbatim>\<open>writex(fd, tmp, 4) || writex(fd, service, len)\<close>, the request; \<open>True\<close> if it failed.\<close>

definition send_request :: "int \<Rightarrow> string \<Rightarrow> client \<Rightarrow> bool \<times> client" where
  "send_request fd service C =
     (case c_writex fd (take 4 (snprintf 5 (fmt_04x (length service)))) C of
        (r, C1) \<Rightarrow>
          if r \<noteq> 0 then (True, C1)
          else (case c_writex fd service C1 of (r, C2) \<Rightarrow> (r \<noteq> 0, C2)))"

definition transport_service :: "client \<Rightarrow> string option" where
  "transport_service C =
     (case adb_serial C of
        Some ser \<Rightarrow> Some (snprintf 64 (''host:transport:'' @ ser))
      | None \<Rightarrow>
          (case adb_transport C of
             KTransportUsb \<Rightarrow> Some (snprintf 64 ''host:transport-usb'')
           | KTransportLocal \<Rightarrow> Some (snprintf 64 ''host:transport-local'')
           | KTransportAny \<Rightarrow> Some (snprintf 64 ''host:transport-any'')
           | KTransportHost \<Rightarrow> None))"

definition switch_socket_transport :: "int \<Rightarrow> client \<Rightarrow> int \<times> client" where
  "switch_socket_transport fd C =
     (case transport_service C of
        None \<Rightarrow> (0, C)
      | Some service \<Rightarrow>
          (case send_request fd service C of
             (failed, C1) \<Rightarrow>
               if failed then fail_with ''write failure during connection'' (c_close fd C1)
               else (case adb_status fd C1 of
                   (r, C2) \<Rightarrow> if r \<noteq> 0 then (-1, c_close fd C2) else (0, C2))))"

definition dial :: "client \<Rightarrow> int \<times> client" where
  "dial C =
     (let C1 = C\<lparr>c_dialled := c_dialled C @ [adb_server_port C]\<rparr> in
      case dials C of [] \<Rightarrow> (-1, C1) | fd # fs \<Rightarrow> (fd, C1\<lparr>dials := fs\<rparr>))"

definition adb_connect1 :: "string \<Rightarrow> client \<Rightarrow> int \<times> client" where
  "adb_connect1 service C =
     (let len = length service in
      if len < 1 \<or> 1024 < len then fail_with ''service name too long'' C
      else case dial C of
        (fd, C1) \<Rightarrow>
          if fd < 0 then (-2, C1\<lparr>adb_error := ''cannot connect to daemon''\<rparr>)
          else
            (case (if starts_with ''host'' service then (0, C1) else switch_socket_transport fd C1) of
               (sw, C2) \<Rightarrow>
                 if sw \<noteq> 0 then (-1, C2)
                 else (case send_request fd service C2 of
                     (failed, C3) \<Rightarrow>
                       if failed then fail_with ''write failure during connection'' (c_close fd C3)
                       else (case adb_status fd C3 of
                           (r, C4) \<Rightarrow> if r \<noteq> 0 then (-1, c_close fd C4) else (fd, C4)))))"

text \<open>\<^verbatim>\<open>launch_server\<close> as the parent sees it; the port it is given is not used.\<close>

definition launch_server :: "int \<Rightarrow> client \<Rightarrow> int \<times> client" where
  "launch_server port C =
     (case starts C of
        [] \<Rightarrow> (-1, C)
      | a # as \<Rightarrow>
          let C1 = C\<lparr>starts := as\<rparr> in
          if \<not> pipe_ok a then (-1, C1)
          else if forked a < 0 then (-1, C1)
          else (case pipe_read a of
              Inl e \<Rightarrow> (-1, C1)
            | Inr bs \<Rightarrow> if bs = ''OK'' @ [NL] then (0, C1) else (-1, C1)))"

definition connect_service :: "string \<Rightarrow> client \<Rightarrow> int \<times> client" where
  "connect_service service C =
     (if service = ''host:start-server'' then (0, C) else adb_connect1 service C)"

definition start_server :: "string \<Rightarrow> client \<Rightarrow> int \<times> client" where
  "start_server service C =
     (case launch_server (adb_server_port C) C of
        (r, C1) \<Rightarrow> if r \<noteq> 0 then (-1, C1) else connect_service service C1)"

text \<open>\<^verbatim>\<open>sscanf(buf, "%04x", &version)\<close>.\<close>

definition scan_04x :: "string \<Rightarrow> u32 option" where
  "scan_04x s =
     (let r = take 4 (dropWhile is_space s);
          d = (if starts_with ''-'' r \<or> starts_with ''+'' r then tl r else r) in
      if d \<noteq> [] \<and> (case digit_val (hd d) of Some v \<Rightarrow> v < 16 | None \<Rightarrow> False) then Some (strtoul16 r) else None)"

text \<open>
  The answer to \<^verbatim>\<open>host:version\<close>. A length of more than 100 is refused, but a negative one is not: the read
  then runs over the buffer. The text overwrites the buffer from its start, so what is left of the length
  digits follows a text of less than four characters.
\<close>

definition read_version :: "int \<Rightarrow> client \<Rightarrow> (u32 option \<times> client) res" where
  "read_version fd C =
     (case c_readx fd 4 C of
        (r, buf, C1) \<Rightarrow>
          if r \<noteq> 0 then Inr (None, c_close fd C1)
          else
            let n = sint (strtoul16 (c_str buf)) in
            if 100 < n then Inr (None, c_close fd C1)
            else if n < 0 then Inl BufferOverflow
            else (case c_readx fd (nat n) C1 of
                (r, text, C2) \<Rightarrow>
                  if r \<noteq> 0 then Inr (None, c_close fd C2)
                  else
                    let C3 = c_close fd C2; line = c_str (text @ drop (nat n) (buf @ [NUL])) in
                    (case scan_04x line of
                       None \<Rightarrow> Inr (None, c_close fd C3)
                     | Some v \<Rightarrow> Inr (Some v, C3))))"

definition restart_server :: "string \<Rightarrow> client \<Rightarrow> int \<times> client" where
  "restart_server service C =
     (case adb_connect1 ''host:kill'' C of (fd, C1) \<Rightarrow> start_server service (c_close fd C1))"

definition adb_connect :: "string \<Rightarrow> client \<Rightarrow> (int \<times> client) res" where
  "adb_connect service C =
     (case adb_connect1 ''host:version'' C of
        (fd, C1) \<Rightarrow>
          if fd = -2 then Inr (start_server service C1)
          else if 0 \<le> fd then
            rbind (read_version fd C1) (\<lambda>(v, C2).
              case v of
                None \<Rightarrow> Inr (-1, C2)
              | Some v \<Rightarrow>
                  if v \<noteq> of_nat ADB_SERVER_VERSION then Inr (restart_server service C2)
                  else Inr (connect_service service C2))
          else if adb_error C1 \<noteq> ''unknown host service'' then Inr (fd, C1)
          else Inr (restart_server service C1))"

definition adb_command :: "string \<Rightarrow> client \<Rightarrow> (int \<times> client) res" where
  "adb_command service C =
     rbind (adb_connect service C) (\<lambda>(fd, C1).
       if fd < 0 then Inr (-1, C1)
       else (case adb_status fd C1 of (r, C2) \<Rightarrow> if r \<noteq> 0 then Inr (-1, c_close fd C2) else Inr (0, C2)))"

definition adb_query :: "string \<Rightarrow> client \<Rightarrow> (bytes option \<times> client) res" where
  "adb_query service C =
     rbind (adb_connect service C) (\<lambda>(fd, C1).
       if fd < 0 then Inr (None, C1)
       else case c_readx fd 4 C1 of
         (r, buf, C2) \<Rightarrow>
           if r \<noteq> 0 then Inr (None, c_close fd C2)
           else
             let n = strtoul16 (c_str buf) in
             if 1024 < n then Inr (None, c_close fd C2)
             else (case c_readx fd (unat n) C2 of
                 (r, text, C3) \<Rightarrow> if r = 0 then Inr (Some text, c_close fd C3) else Inr (None, c_close fd C3)))"

text \<open>\<^verbatim>\<open>adb_get_emulator_console_port\<close>: the emulators among the lines of the device list; the serial that is used
  after the loop points into the list, which has been freed.\<close>

function scan_emulators :: "string \<Rightarrow> string option \<Rightarrow> string option option" where
  "scan_emulators p found =
     (if p = [] then Some found
      else
        let line = before p NL; rest = (case strchr p NL of Some r \<Rightarrow> tl r | None \<Rightarrow> []) in
        if starts_with LOCAL_CLIENT_PREFIX line then
          if found \<noteq> None then None else scan_emulators rest (Some line)
        else scan_emulators rest found)"
  by pat_completeness auto
termination
proof -
  have "length (case strchr p NL of Some r \<Rightarrow> tl r | None \<Rightarrow> []) < length p" if "p \<noteq> []" for p
    using that length_dropWhile_le [of "\<lambda>x. x \<noteq> NL" p]
    by (auto simp: strchr_def split: option.splits list.splits)
  then show ?thesis by (relation "measure (\<lambda>(p, found). length p)") auto
qed

declare scan_emulators.simps [simp del]

definition adb_get_emulator_console_port :: "client \<Rightarrow> (int \<times> client) res" where
  "adb_get_emulator_console_port C =
     (case adb_serial C of
        Some ser \<Rightarrow>
          if \<not> starts_with LOCAL_CLIENT_PREFIX ser then Inr (-1, C)
          else Inr (strtol 10 (drop (length LOCAL_CLIENT_PREFIX) ser), C)
      | None \<Rightarrow>
          rbind (adb_query ''host:devices'' C) (\<lambda>(tmp, C1).
            case tmp of
              None \<Rightarrow> Inr (-1, C1)
            | Some text \<Rightarrow>
                (case scan_emulators (c_str text) None of
                   None \<Rightarrow> Inr (-2, C1)
                 | Some None \<Rightarrow> Inr (-1, C1)
                 | Some (Some ser) \<Rightarrow> Inl (UseAfterFree 0))))"

section \<open>Reading and writing\<close>

lemma c_readx_exact:
  assumes "readable (c_incoming C fd) = bs @ rest" "length bs = n"
  shows "\<exists>q. c_readx fd n C = (0, bs, C\<lparr>c_incoming := (c_incoming C)(fd := q)\<rparr>) \<and> readable q = rest"
  using rx.rd_exact [OF assms] by (auto simp: c_readx_def)

lemma send_request_bytes:
  assumes "send_request fd service C = (False, C')" "length service < 65536"
  shows "c_sent C' fd = c_sent C fd @ request_bytes service" "c_incoming C' = c_incoming C" "adb_error C' = adb_error C"
proof -
  let ?h = "fmt_04x (length service)"
  have h: "take 4 (snprintf 5 ?h) = ?h" using assms(2) by (simp add: snprintf_def)
  obtain s1 q1 where w1: "writex ?h (c_outgoing C fd) = (0, s1, q1)"
    using assms(1) by (auto simp: send_request_def c_writex_def h split: prod.splits if_splits)
  obtain s2 q2 where w2: "writex service q1 = (0, s2, q2)"
    using assms(1) w1 by (auto simp: send_request_def c_writex_def h split: prod.splits if_splits)
  have sent: "s1 = ?h" "s2 = service" using wx.wr_all w1 w2 by (metis fst_conv snd_conv)+
  with assms(1) w1 w2 show "c_sent C' fd = c_sent C fd @ request_bytes service" "c_incoming C' = c_incoming C" "adb_error C' = adb_error C"
    by (auto simp: send_request_def c_writex_def h request_bytes_def)
qed

lemma c_writex_frame:
  assumes "c_writex fd bs C = (r, C')"
  obtains q w where "C' = C\<lparr>c_outgoing := (c_outgoing C)(fd := q), c_sent := (c_sent C)(fd := w)\<rparr>"
  using assms by (auto simp: c_writex_def split: prod.splits)

lemma send_request_frame:
  assumes "send_request fd service C = (failed, C')"
  shows "\<exists>q w. C' = C\<lparr>c_outgoing := (c_outgoing C)(fd := q), c_sent := (c_sent C)(fd := w)\<rparr>"
proof -
  obtain r C1 where w: "c_writex fd (take 4 (snprintf 5 (fmt_04x (length service)))) C = (r, C1)" by fastforce
  then obtain q w where C1: "C1 = C\<lparr>c_outgoing := (c_outgoing C)(fd := q), c_sent := (c_sent C)(fd := w)\<rparr>" by (rule c_writex_frame)
  obtain r2 C2 where w2: "c_writex fd service C1 = (r2, C2)" by fastforce
  then obtain q2 y where "C2 = C1\<lparr>c_outgoing := (c_outgoing C1)(fd := q2), c_sent := (c_sent C1)(fd := y)\<rparr>" by (rule c_writex_frame)
  then have C2: "C2 = C\<lparr>c_outgoing := (c_outgoing C)(fd := q2), c_sent := (c_sent C)(fd := y)\<rparr>" by (simp add: C1)
  have "C' = C1 \<or> C' = C2" using assms w w2 by (auto simp: send_request_def split: if_splits)
  with C1 C2 show ?thesis by blast
qed

lemma send_request_same:
  assumes "c_outgoing C' fd = c_outgoing C fd"
  shows "fst (send_request fd service C') = fst (send_request fd service C)"
  using assms by (simp add: send_request_def c_writex_def split: prod.splits)

text \<open>Two states of the client that agree on everything but one connection.\<close>

definition only_fd :: "int \<Rightarrow> client \<Rightarrow> client \<Rightarrow> bool" where
  "only_fd fd C C' \<longleftrightarrow> starts C' = starts C \<and> adb_server_port C' = adb_server_port C \<and> adb_error C' = adb_error C
   \<and> (\<forall>x. x \<noteq> fd \<longrightarrow> c_incoming C' x = c_incoming C x \<and> c_outgoing C' x = c_outgoing C x \<and> c_sent C' x = c_sent C x)"

lemma connect1_ok:
  assumes d: "dials C = fd # fs" "0 \<le> fd" and sv: "starts_with ''host'' service" "service \<noteq> []" "length service \<le> 1024"
    and w: "\<not> fst (send_request fd service C)" and r: "readable (c_incoming C fd) = ''OKAY'' @ rest"
  shows "\<exists>C'. adb_connect1 service C = (fd, C') \<and> readable (c_incoming C' fd) = rest \<and> dials C' = fs
    \<and> c_sent C' fd = c_sent C fd @ request_bytes service \<and> c_closed C' = c_closed C \<and> only_fd fd C C'"
proof -
  define C1 where "C1 = C\<lparr>c_dialled := c_dialled C @ [adb_server_port C], dials := fs\<rparr>"
  have dial: "dial C = (fd, C1)" using d by (simp add: dial_def C1_def)
  have "\<not> fst (send_request fd service C1)" using w send_request_same [of C1 fd C] by (simp add: C1_def)
  then obtain C2 where s: "send_request fd service C1 = (False, C2)" by (cases "send_request fd service C1") auto
  from send_request_bytes [OF s] sv(3) have b: "c_sent C2 fd = c_sent C1 fd @ request_bytes service" "c_incoming C2 = c_incoming C1"
    by simp_all
  from send_request_frame [OF s] obtain qo wo where C2: "C2 = C1\<lparr>c_outgoing := (c_outgoing C1)(fd := qo), c_sent := (c_sent C1)(fd := wo)\<rparr>"
    by blast
  have "readable (c_incoming C2 fd) = ''OKAY'' @ rest" using r b(2) by (simp add: C1_def)
  from c_readx_exact [OF this, of 4] obtain q where
    q: "c_readx fd 4 C2 = (0, ''OKAY'', C2\<lparr>c_incoming := (c_incoming C2)(fd := q)\<rparr>)" "readable q = rest" by auto
  let ?C3 = "C2\<lparr>c_incoming := (c_incoming C2)(fd := q)\<rparr>"
  have len: "\<not> (length service < 1 \<or> 1024 < length service)" using sv(2,3) by (cases service) auto
  have "adb_connect1 service C = (fd, ?C3)"
    unfolding adb_connect1_def Let_def if_not_P [OF len] using d(2) sv(1) dial s q(1) by (simp add: adb_status_def)
  moreover have "only_fd fd C ?C3" by (simp add: only_fd_def C2 C1_def)
  ultimately show ?thesis using q(2) b(1) by (intro exI [of _ ?C3]) (auto simp: C2 C1_def)
qed

lemma fmt_04x_not_space:
  obtains c cs where "fmt_04x n = c # cs" "\<not> is_space c" "c \<noteq> CHR ''-''" "c \<noteq> CHR ''+''" "\<exists>d. digit_val c = Some d \<and> d < 16"
proof -
  obtain c cs where c: "fmt_04x n = c # cs" using length_fmt_04x_ge [of n] by (cases "fmt_04x n") auto
  then obtain d where "digit_val c = Some d" "d < 16" using fmt_04x_are_digits [of c n] by auto
  with digit_not_special [OF this] c that show ?thesis by blast
qed

lemma scan_04x_fmt: "n < 65536 \<Longrightarrow> scan_04x (fmt_04x n) = Some (of_nat n)"
proof -
  assume n: "n < 65536"
  obtain c cs where c: "fmt_04x n = c # cs" "\<not> is_space c" "c \<noteq> CHR ''-''" "c \<noteq> CHR ''+''" "\<exists>d. digit_val c = Some d \<and> d < 16"
    by (rule fmt_04x_not_space)
  have r: "take 4 (dropWhile is_space (fmt_04x n)) = fmt_04x n" using c(1,2) length_fmt_04x [OF n] by simp
  show ?thesis using c strtoul16_fmt_04x [of n] unfolding scan_04x_def Let_def r by (auto simp: starts_with_def)
qed

lemma c_str_no_NUL: "NUL \<notin> set s \<Longrightarrow> c_str s = s"
  by (simp add: c_str_def takeWhile_eq_all_conv) blast

lemma c_str_stops: "NUL \<notin> set s \<Longrightarrow> c_str (s @ NUL # r) = s"
  by (auto simp: c_str_def takeWhile_append takeWhile_eq_all_conv)

lemma read_version_ok:
  assumes "readable (c_incoming C fd) = fmt_04x 4 @ fmt_04x v @ rest" "v < 65536"
  shows "\<exists>C'. read_version fd C = Inr (Some (of_nat v), C') \<and> c_closed C' = c_closed C @ [fd] \<and> dials C' = dials C
    \<and> only_fd fd C C' \<and> c_sent C' = c_sent C"
proof -
  from c_readx_exact [OF assms(1), of 4] obtain q where q: "c_readx fd 4 C = (0, fmt_04x 4, C\<lparr>c_incoming := (c_incoming C)(fd := q)\<rparr>)"
    "readable q = fmt_04x v @ rest" by auto
  let ?C1 = "C\<lparr>c_incoming := (c_incoming C)(fd := q)\<rparr>"
  have "readable (c_incoming ?C1 fd) = fmt_04x v @ rest" using q(2) by simp
  from c_readx_exact [OF this, of 4] assms(2) obtain q2 where
    q2: "c_readx fd 4 ?C1 = (0, fmt_04x v, ?C1\<lparr>c_incoming := (c_incoming ?C1)(fd := q2)\<rparr>)" by auto
  have n: "sint (strtoul16 (c_str (fmt_04x 4))) = 4" by (simp add: c_str_no_NUL strtoul16_fmt_04x)
  have line: "c_str (fmt_04x v @ drop 4 (fmt_04x 4 @ [NUL])) = fmt_04x v" by (simp add: c_str_stops)
  have "read_version fd C = Inr (Some (of_nat v), c_close fd (?C1\<lparr>c_incoming := (c_incoming ?C1)(fd := q2)\<rparr>))"
    using q(1) q2 scan_04x_fmt [OF assms(2)] line by (simp add: read_version_def n)
  then show ?thesis by (auto simp: c_close_def only_fd_def)
qed

lemma okay_reply_fits: "length text \<le> 4087 \<Longrightarrow> okay_reply text = ''OKAY'' @ fmt_04x (length text) @ text"
  by (simp add: okay_reply_def snprintf_fits)

lemma sendfailmsg_bytes:
  assumes "sendfailmsg fd reason W = (0, W')" "length reason < 65536"
  shows "written W' fd = written W fd @ ''FAIL'' @ fmt_04x (length reason) @ reason"
proof -
  let ?h = "''FAIL'' @ fmt_04x (length reason)"
  have h: "take 8 (snprintf 9 (''FAIL'' @ fmt_04x (min (length reason) 65535))) = ?h" "min (length reason) 65535 = length reason"
    using assms(2) by (simp_all add: snprintf_def)
  obtain r1 W1 where w1: "w_writex fd ?h W = (r1, W1)" by fastforce
  have r1: "r1 = 0" using assms(1) w1 h by (auto simp: sendfailmsg_def Let_def split: if_splits)
  have w2: "w_writex fd reason W1 = (0, W')" using assms(1) w1 h r1 by (simp add: sendfailmsg_def Let_def)
  have "written V' fd = written V fd @ bs" if w: "w_writex fd bs V = (0, V')" for bs V V'
  proof -
    from w obtain sent q where x: "writex bs (outgoing V fd) = (0, sent, q)" and V': "V' = V\<lparr>outgoing := (outgoing V)(fd := q),
       written := (written V)(fd := written V fd @ sent)\<rparr>" by (auto simp: w_writex_def split: prod.splits)
    from wx.wr_all [OF x] show ?thesis by (simp add: V')
  qed
  from this [OF w2] this [OF w1 [unfolded r1]] show ?thesis by simp
qed

section \<open>Properties\<close>

text \<open>A refusal reaches the client as the server wrote it: what \<^verbatim>\<open>sendfailmsg\<close> puts on the connection makes \<^verbatim>\<open>adb_status\<close>
  return -1 with the reason as the error text, and nothing after it is consumed.\<close>

theorem fail_message_roundtrip:
  assumes s: "sendfailmsg fd reason W = (0, W')" "length reason \<le> 255" "NUL \<notin> set reason"
    and c: "written W' fd = written W fd @ sent" "readable (c_incoming C cfd) = sent @ rest"
  shows "\<exists>C'. adb_status cfd C = (-1, C') \<and> adb_error C' = reason \<and> readable (c_incoming C' cfd) = rest"
proof -
  have "sent = ''FAIL'' @ fmt_04x (length reason) @ reason" using sendfailmsg_bytes [OF s(1)] s(2) c(1) by simp
  with c(2) have r: "readable (c_incoming C cfd) = ''FAIL'' @ fmt_04x (length reason) @ reason @ rest" by simp
  from c_readx_exact [OF this, of 4] obtain q1 where
    q1: "c_readx cfd 4 C = (0, ''FAIL'', C\<lparr>c_incoming := (c_incoming C)(cfd := q1)\<rparr>)"
      "readable q1 = fmt_04x (length reason) @ reason @ rest" by auto
  let ?C1 = "C\<lparr>c_incoming := (c_incoming C)(cfd := q1)\<rparr>"
  have "readable (c_incoming ?C1 cfd) = fmt_04x (length reason) @ reason @ rest" using q1(2) by simp
  from c_readx_exact [OF this, of 4] s(2) obtain q2 where
    q2: "c_readx cfd 4 ?C1 = (0, fmt_04x (length reason), C\<lparr>c_incoming := (c_incoming C)(cfd := q2)\<rparr>)" "readable q2 = reason @ rest"
    by auto
  let ?C2 = "C\<lparr>c_incoming := (c_incoming C)(cfd := q2)\<rparr>"
  have n: "unat (strtoul16 (c_str (fmt_04x (length reason)))) = length reason" "\<not> 255 < strtoul16 (c_str (fmt_04x (length reason)))"
    using s(2) by (simp_all add: c_str_no_NUL strtoul16_fmt_04x unat_of_nat word_less_nat_alt)
  have "readable (c_incoming ?C2 cfd) = reason @ rest" using q2(2) by simp
  from c_readx_exact [OF this refl] obtain q3 where
    q3: "c_readx cfd (length reason) ?C2 = (0, reason, C\<lparr>c_incoming := (c_incoming C)(cfd := q3)\<rparr>)" "readable q3 = rest" by auto
  have "adb_status cfd C = (-1, C\<lparr>c_incoming := (c_incoming C)(cfd := q3), adb_error := reason\<rparr>)"
    using q1(1) q2(1) q3(1) n s(3) by (simp add: adb_status_def fail_with_def c_str_no_NUL)
  then show ?thesis using q3(2) by simp
qed

text \<open>A client whose next two connections are 3 and 4, and what the server has written to them.\<close>

definition demo_client :: client where
  "demo_client = \<lparr>adb_transport = KTransportAny, adb_serial = None, adb_server_port = DEFAULT_ADB_PORT, adb_error = [],
     dials = [3, 4], starts = [],
     c_incoming = (\<lambda>fd. if fd = 3 then [RData (okay_reply (fmt_04x ADB_SERVER_VERSION))]
       else if fd = 4 then [RData ''OKAY000'', RErr EINTR, RData ''6device''] else [RData ''FAIL0006closedmore'']),
     c_outgoing = (\<lambda>_. [WOk 1000, WOk 1000]), c_sent = (\<lambda>_. []), c_closed = [], c_dialled = []\<rparr>"

theorem fail_message_roundtrip_witness:
  "\<exists>C'. adb_status 9 demo_client = (-1, C') \<and> adb_error C' = ''closed'' \<and> readable (c_incoming C' 9) = ''more''"
proof -
  let ?W = "world_init\<lparr>outgoing := (\<lambda>_. [WOk 100, WOk 100])\<rparr>"
  have f: "fmt_04x (length ''closed'') = ''0006''" by code_simp
  obtain W' where s: "sendfailmsg 7 ''closed'' ?W = (0, W')" "written W' 7 = written ?W 7 @ ''FAIL0006closed''"
    using f by (simp add: sendfailmsg_def w_writex_def writex_def write_loop.simps snprintf_def world_init_def Let_def)
  have pre: "length ''closed'' \<le> 255" "NUL \<notin> set ''closed''" "readable (c_incoming demo_client 9) = ''FAIL0006closed'' @ ''more''"
    by (simp_all add: demo_client_def)
  from fail_message_roundtrip [OF s(1) pre(1,2) s(2) pre(3)] show ?thesis by auto
qed

text \<open>C25: A query of a running server of the same version returns the server's text unchanged if that has at most 1024 bytes, and
  fails if it is longer (the server sends up to 4087): the client puts exactly the request for the version on one connection and exactly the
  query's request on a second one, takes the reply's status and length off, and closes both connections.\<close>

theorem query_reply_roundtrip:
  assumes d: "dials C = [fd1, fd2]" "0 \<le> fd1" "0 \<le> fd2" "fd1 \<noteq> fd2"
    and sv: "starts_with ''host'' service" "length service \<le> 1024" "service \<noteq> ''host:start-server''"
    and w: "\<not> fst (send_request fd1 ''host:version'' C)" "\<not> fst (send_request fd2 service C)"
    and r: "readable (c_incoming C fd1) = okay_reply (fmt_04x ADB_SERVER_VERSION)" "readable (c_incoming C fd2) = okay_reply text"
    and t: "length text \<le> 4087"
  shows "\<exists>C'. adb_query service C = Inr (if length text \<le> 1024 then Some text else None, C')
    \<and> c_sent C' fd1 = c_sent C fd1 @ request_bytes ''host:version'' \<and> c_sent C' fd2 = c_sent C fd2 @ request_bytes service
    \<and> c_closed C' = c_closed C @ [fd1, fd2]"
proof -
  have hv: "starts_with ''host'' ''host:version''" by (simp add: starts_with_def)
  have ne: "service \<noteq> []" using sv(1) by (auto simp: starts_with_def)
  have r1: "readable (c_incoming C fd1) = ''OKAY'' @ fmt_04x 4 @ fmt_04x ADB_SERVER_VERSION @ []"
    using r(1) by (simp add: okay_reply_fits ADB_SERVER_VERSION_def)
  from connect1_ok [OF d(1,2) hv _ _ w(1) r1] obtain C1 where
    C1: "adb_connect1 ''host:version'' C = (fd1, C1)" "readable (c_incoming C1 fd1) = fmt_04x 4 @ fmt_04x ADB_SERVER_VERSION @ []"
      "dials C1 = [fd2]" "c_closed C1 = c_closed C" "only_fd fd1 C C1"
      "c_sent C1 fd1 = c_sent C fd1 @ request_bytes ''host:version''" by auto
  from read_version_ok [OF C1(2)] obtain C2 where
    C2: "read_version fd1 C1 = Inr (Some (of_nat ADB_SERVER_VERSION), C2)" "c_closed C2 = c_closed C @ [fd1]" "dials C2 = [fd2]"
      "only_fd fd1 C1 C2" "c_sent C2 = c_sent C1" using C1(3,4) by (auto simp: ADB_SERVER_VERSION_def)
  have same: "c_incoming C2 fd2 = c_incoming C fd2" "c_outgoing C2 fd2 = c_outgoing C fd2" "c_sent C2 fd2 = c_sent C fd2"
    using C1(5) C2(4) d(4) by (simp_all add: only_fd_def)
  have w2: "\<not> fst (send_request fd2 service C2)" using w(2) send_request_same [OF same(2)] by simp
  have r2: "readable (c_incoming C2 fd2) = ''OKAY'' @ fmt_04x (length text) @ text" using r(2) t same(1) by (simp add: okay_reply_fits)
  from connect1_ok [OF C2(3) d(3) sv(1) ne sv(2) w2 r2] obtain C3 where
    C3: "adb_connect1 service C2 = (fd2, C3)" "readable (c_incoming C3 fd2) = fmt_04x (length text) @ text"
      "c_sent C3 fd2 = c_sent C fd2 @ request_bytes service" "c_closed C3 = c_closed C @ [fd1]" "only_fd fd2 C2 C3"
    using C2(2) same(3) by auto
  have v: "c_sent C3 fd1 = c_sent C fd1 @ request_bytes ''host:version''" using C3(5) C2(5) C1(6) d(4) by (simp add: only_fd_def)
  have conn: "adb_connect service C = Inr (fd2, C3)"
    using C1(1) C2(1) C3(1) d(2) sv(3) by (simp add: adb_connect_def connect_service_def)
  from c_readx_exact [OF C3(2), of 4] t obtain q1 where
    q1: "c_readx fd2 4 C3 = (0, fmt_04x (length text), C3\<lparr>c_incoming := (c_incoming C3)(fd2 := q1)\<rparr>)" "readable q1 = text @ []" by auto
  let ?C4 = "C3\<lparr>c_incoming := (c_incoming C3)(fd2 := q1)\<rparr>"
  have "readable (c_incoming ?C4 fd2) = text @ []" using q1(2) by simp
  from c_readx_exact [OF this refl] obtain q2 where
    q2: "c_readx fd2 (length text) ?C4 = (0, text, C3\<lparr>c_incoming := (c_incoming C3)(fd2 := q2)\<rparr>)" by auto
  have n: "unat (strtoul16 (c_str (fmt_04x (length text)))) = length text" "1024 < strtoul16 (c_str (fmt_04x (length text))) \<longleftrightarrow> 1024 < length text"
    using t by (simp_all add: c_str_no_NUL strtoul16_fmt_04x unat_of_nat word_less_nat_alt)
  let ?C' = "c_close fd2 (if length text \<le> 1024 then C3\<lparr>c_incoming := (c_incoming C3)(fd2 := q2)\<rparr> else ?C4)"
  have "adb_query service C = Inr (if length text \<le> 1024 then Some text else None, ?C')"
    using conn q1(1) q2 n d(3) by (simp add: adb_query_def)
  moreover have "c_sent ?C' = c_sent C3" "c_closed ?C' = c_closed C3 @ [fd2]" by (simp_all add: c_close_def)
  ultimately show ?thesis using C3(3,4) v by (intro exI [of _ ?C']) simp
qed

theorem query_reply_roundtrip_witness:
  "\<exists>C'. adb_query ''host:get-state'' demo_client = Inr (Some ''device'', C') \<and> c_sent C' 3 = ''000chost:version''
     \<and> c_sent C' 4 = ''000ehost:get-state'' \<and> c_closed C' = [3, 4]"
proof -
  have d: "dials demo_client = [3, 4]" "(0::int) \<le> 3" "(0::int) \<le> 4" "(3::int) \<noteq> 4"
    "starts_with ''host'' ''host:get-state''" "length ''host:get-state'' \<le> 1024" "''host:get-state'' \<noteq> ''host:start-server''"
    "length ''device'' \<le> 4087"
    by (simp_all add: demo_client_def starts_with_def)
  have w: "\<not> fst (send_request 3 ''host:version'' demo_client)" "\<not> fst (send_request 4 ''host:get-state'' demo_client)"
    by code_simp+
  have r: "readable (c_incoming demo_client 3) = okay_reply (fmt_04x ADB_SERVER_VERSION)"
    "readable (c_incoming demo_client 4) = okay_reply ''device''"
    by code_simp+
  have z: "c_sent demo_client 3 = []" "request_bytes ''host:version'' = ''000chost:version''" "c_sent demo_client 4 = []" "request_bytes ''host:get-state'' = ''000ehost:get-state''" "c_closed demo_client = []" by code_simp+
  from query_reply_roundtrip [OF d(1-4) d(5-7) w r d(8)] show ?thesis unfolding z by simp
qed

end
