(* ===== verification/File_Sync.thy ===== *)
theory File_Sync
  imports Adb_Client
begin

text \<open>
  The file transfer protocol on a \<^verbatim>\<open>sync:\<close> connection, as the client speaks it: the messages of
  file_sync_service.h and the first half of file_sync_client.c (listing, status requests, sending and receiving
  one file). The state is the client's connection together with what the local file system answers: \<open>f_open\<close>
  is the script of reads of a file that can be opened, \<open>f_size\<close> the result of \<^verbatim>\<open>lseek\<close> to its end, \<open>f_link\<close>
  the target of a link, \<open>f_creat\<close> the script of writes to a file that can be created, \<open>f_mkdir\<close> whether
  \<^verbatim>\<open>mkdir\<close> works or finds the directory there; \<open>f_data\<close> holds the files this run has written and \<open>made\<close>
  the directories it has asked for. \<open>clock\<close> are the successive answers of \<^verbatim>\<open>gettimeofday\<close>, \<open>os_error\<close> is what
  \<^verbatim>\<open>strerror\<close> would say and \<open>said\<close> collects the messages to the user. The zip library is a parameter:
  \<open>zl data = None\<close> if \<^verbatim>\<open>init_zipfile\<close> refuses the data, \<open>Some b\<close> if it accepts them and \<open>b\<close> tells whether
  there is an entry \<^verbatim>\<open>AndroidManifest.xml\<close>. Memory allocation succeeds. Descriptors of local files are not tracked.
\<close>

section \<open>Messages\<close>

definition MKID :: "char \<Rightarrow> char \<Rightarrow> char \<Rightarrow> char \<Rightarrow> u32" where
  "MKID a b c d = of_nat (of_char a + 256 * of_char b + 65536 * of_char c + 16777216 * of_char d)"

definition ID_STAT :: u32 where "ID_STAT = MKID (CHR ''S'') (CHR ''T'') (CHR ''A'') (CHR ''T'')"
definition ID_LIST :: u32 where "ID_LIST = MKID (CHR ''L'') (CHR ''I'') (CHR ''S'') (CHR ''T'')"
definition ID_SEND :: u32 where "ID_SEND = MKID (CHR ''S'') (CHR ''E'') (CHR ''N'') (CHR ''D'')"
definition ID_RECV :: u32 where "ID_RECV = MKID (CHR ''R'') (CHR ''E'') (CHR ''C'') (CHR ''V'')"
definition ID_DENT :: u32 where "ID_DENT = MKID (CHR ''D'') (CHR ''E'') (CHR ''N'') (CHR ''T'')"
definition ID_DONE :: u32 where "ID_DONE = MKID (CHR ''D'') (CHR ''O'') (CHR ''N'') (CHR ''E'')"
definition ID_DATA :: u32 where "ID_DATA = MKID (CHR ''D'') (CHR ''A'') (CHR ''T'') (CHR ''A'')"
definition ID_OKAY :: u32 where "ID_OKAY = MKID (CHR ''O'') (CHR ''K'') (CHR ''A'') (CHR ''Y'')"
definition ID_FAIL :: u32 where "ID_FAIL = MKID (CHR ''F'') (CHR ''A'') (CHR ''I'') (CHR ''L'')"
definition ID_QUIT :: u32 where "ID_QUIT = MKID (CHR ''Q'') (CHR ''U'') (CHR ''I'') (CHR ''T'')"

lemmas ID_defs = ID_STAT_def ID_LIST_def ID_SEND_def ID_RECV_def ID_DENT_def ID_DONE_def ID_DATA_def ID_OKAY_def
  ID_FAIL_def ID_QUIT_def MKID_def

definition SYNC_DATA_MAX :: nat where "SYNC_DATA_MAX = 64 * 1024"

text \<open>The members of the union \<^verbatim>\<open>syncmsg\<close>, as they go over the wire: \<^verbatim>\<open>req\<close>, \<^verbatim>\<open>data\<close> and \<^verbatim>\<open>status\<close> are an id and a
  number; the fields of \<^verbatim>\<open>stat\<close> and \<^verbatim>\<open>dent\<close> are read at their offsets.\<close>

definition msg2 :: "u32 \<Rightarrow> u32 \<Rightarrow> bytes" where
  "msg2 i n = le32 i @ le32 n"

definition field :: "nat \<Rightarrow> bytes \<Rightarrow> u32" where
  "field k m = un_le32 (drop (4 * k) m)"

definition sizeof_req :: nat where "sizeof_req = 8"
definition sizeof_stat :: nat where "sizeof_stat = 16"
definition sizeof_dent :: nat where "sizeof_dent = 20"

section \<open>State\<close>

record stat_buf =
  st_mode :: u32
  st_mtime :: u32
  st_size :: u32

record copier =
  conn :: client
  f_stat :: "string \<Rightarrow> stat_buf option"
  f_lstat :: "string \<Rightarrow> stat_buf option"
  f_dir :: "string \<Rightarrow> string list option"
  f_open :: "string \<Rightarrow> rscript option"
  f_size :: "string \<Rightarrow> int"
  f_link :: "string \<Rightarrow> string option"
  f_creat :: "string \<Rightarrow> wscript option"
  f_mkdir :: "string \<Rightarrow> bool"
  f_unlink :: "string \<Rightarrow> bool"
  f_data :: "string \<Rightarrow> bytes option"
  made :: "string list"
  clock :: "(int \<times> int) list"
  start_time :: int
  total_bytes :: u32
  os_error :: string
  said :: "string list"

definition S_ISREG :: "u32 \<Rightarrow> bool" where "S_ISREG m \<longleftrightarrow> m AND 0xF000 = 0x8000"
definition S_ISLNK :: "u32 \<Rightarrow> bool" where "S_ISLNK m \<longleftrightarrow> m AND 0xF000 = 0xA000"
definition S_ISDIR :: "u32 \<Rightarrow> bool" where "S_ISDIR m \<longleftrightarrow> m AND 0xF000 = 0x4000"
definition S_ISCHR :: "u32 \<Rightarrow> bool" where "S_ISCHR m \<longleftrightarrow> m AND 0xF000 = 0x2000"
definition S_ISBLK :: "u32 \<Rightarrow> bool" where "S_ISBLK m \<longleftrightarrow> m AND 0xF000 = 0x6000"

definition say :: "string \<Rightarrow> copier \<Rightarrow> copier" where
  "say m K = K\<lparr>said := said K @ [m]\<rparr>"

definition quoted :: "string \<Rightarrow> string" where
  "quoted s = [CHR 0x27] @ s @ [CHR 0x27]"

definition k_readx :: "int \<Rightarrow> nat \<Rightarrow> copier \<Rightarrow> int \<times> bytes \<times> copier" where
  "k_readx fd n K = (case c_readx fd n (conn K) of (r, bs, C) \<Rightarrow> (r, bs, K\<lparr>conn := C\<rparr>))"

definition k_writex :: "int \<Rightarrow> bytes \<Rightarrow> copier \<Rightarrow> int \<times> copier" where
  "k_writex fd bs K = (case c_writex fd bs (conn K) of (r, C) \<Rightarrow> (r, K\<lparr>conn := C\<rparr>))"

definition k_close :: "int \<Rightarrow> copier \<Rightarrow> copier" where
  "k_close fd K = K\<lparr>conn := c_close fd (conn K)\<rparr>"

text \<open>The statistics of a transfer.\<close>

definition NOW :: "copier \<Rightarrow> int \<times> copier" where
  "NOW K = (case clock K of [] \<Rightarrow> (0, K) | (s, u) # ts \<Rightarrow> (u + 1000000 * s, K\<lparr>clock := ts\<rparr>))"

definition BEGIN :: "copier \<Rightarrow> copier" where
  "BEGIN K = (case NOW (K\<lparr>total_bytes := 0\<rparr>) of (t, K1) \<Rightarrow> K1\<lparr>start_time := t\<rparr>)"

text \<open>Division of C rounds towards 0.\<close>

definition cdiv :: "int \<Rightarrow> int \<Rightarrow> int" where
  "cdiv a b = sgn a * sgn b * (\<bar>a\<bar> div \<bar>b\<bar>)"

definition cmod :: "int \<Rightarrow> int \<Rightarrow> int" where
  "cmod a b = a - cdiv a b * b"

definition fmt_03d :: "int \<Rightarrow> string" where
  "fmt_03d i = (let s = fmt_d \<bar>i\<bar>; sg = (if i < 0 then ''-'' else []) in
     sg @ replicate (3 - length sg - length s) (CHR ''0'') @ s)"

definition END :: "copier \<Rightarrow> copier" where
  "END K =
     (case NOW K of
        (n, K1) \<Rightarrow>
          let t = n - start_time K1; tot = uint (total_bytes K1) in
          if total_bytes K1 = 0 then K1
          else
            let t = (if t = 0 then 1000000 else t) in
            say (fmt_d (cdiv (cdiv (tot * 1000000) t) 1024) @ '' KB/s ('' @ fmt_d tot @ '' bytes in ''
              @ fmt_d (cdiv t 1000000) @ ''.'' @ fmt_03d (cdiv (cmod t 1000000) 1000) @ ''s)'') K1)"

section \<open>Requests\<close>

definition sync_quit :: "int \<Rightarrow> copier \<Rightarrow> copier" where
  "sync_quit fd K = snd (k_writex fd (msg2 ID_QUIT 0) K)"

text \<open>\<^verbatim>\<open>writex(fd, &msg.req, sizeof(msg.req)) || writex(fd, path, len)\<close>; \<open>True\<close> if it failed.\<close>

definition sync_request :: "int \<Rightarrow> u32 \<Rightarrow> string \<Rightarrow> copier \<Rightarrow> bool \<times> copier" where
  "sync_request fd i path K =
     (case k_writex fd (msg2 i (of_nat (length path))) K of
        (r, K1) \<Rightarrow>
          if r \<noteq> 0 then (True, K1)
          else (case k_writex fd path K1 of (r, K2) \<Rightarrow> (r \<noteq> 0, K2)))"

lemma c_readx_consumes:
  assumes "c_readx fd n C = (0, bs, C')"
  shows "length (readable (c_incoming C' fd)) + n = length (readable (c_incoming C fd))" "length bs = n"
proof -
  from assms obtain q where q: "readx n (c_incoming C fd) = (0, bs, q)" "C' = C\<lparr>c_incoming := (c_incoming C)(fd := q)\<rparr>"
    by (auto simp: c_readx_def split: prod.splits)
  from rx.rd_result [OF q(1)] rx.rd_zero_iff [of n "c_incoming C fd"] q
  show "length (readable (c_incoming C' fd)) + n = length (readable (c_incoming C fd))" "length bs = n" by simp_all
qed

lemma k_readx_consumes:
  assumes "k_readx fd n K = (0, bs, K')"
  shows "length (readable (c_incoming (conn K') fd)) + n = length (readable (c_incoming (conn K) fd))"
  using assms c_readx_consumes(1) [of fd n "conn K" bs "conn K'"] by (auto simp: k_readx_def split: prod.splits)

text \<open>
  The loop of \<^verbatim>\<open>sync_ls\<close>: one \<^verbatim>\<open>DENT\<close> message and one name at a time, until \<^verbatim>\<open>DONE\<close>. The callback with its cookie
  is a function on the cookie's value. A length above 256 is refused; a negative one is not, and the read then runs
  over the buffer.
\<close>

function ls_loop :: "int \<Rightarrow> (u32 \<Rightarrow> u32 \<Rightarrow> u32 \<Rightarrow> string \<Rightarrow> 'c \<Rightarrow> 'c) \<Rightarrow> 'c \<Rightarrow> copier \<Rightarrow> (int \<times> 'c \<times> copier) res" where
  "ls_loop fd func cookie K =
     (case k_readx fd sizeof_dent K of
        (r, m, K1) \<Rightarrow>
          if r \<noteq> 0 then Inr (-1, cookie, k_close fd K1)
          else if field 0 m = ID_DONE then Inr (0, cookie, K1)
          else if field 0 m \<noteq> ID_DENT then Inr (-1, cookie, k_close fd K1)
          else
            let len = sint (field 4 m) in
            if 256 < len then Inr (-1, cookie, k_close fd K1)
            else if len < 0 then Inl BufferOverflow
            else case k_readx fd (nat len) K1 of
              (r, buf, K2) \<Rightarrow>
                if r \<noteq> 0 then Inr (-1, cookie, k_close fd K2)
                else ls_loop fd func (func (field 1 m) (field 2 m) (field 3 m) (c_str buf) cookie) K2)"
  by pat_completeness auto
termination
  by (relation "measure (\<lambda>(fd, func, cookie, K). length (readable (c_incoming (conn K) fd)))")
    (auto simp: sizeof_dent_def dest!: sym [of "(_, _, _)"] k_readx_consumes)

declare ls_loop.simps [simp del]

definition sync_ls :: "int \<Rightarrow> string \<Rightarrow> (u32 \<Rightarrow> u32 \<Rightarrow> u32 \<Rightarrow> string \<Rightarrow> 'c \<Rightarrow> 'c) \<Rightarrow> 'c \<Rightarrow> copier \<Rightarrow> (int \<times> 'c \<times> copier) res" where
  "sync_ls fd path func cookie K =
     (if 1024 < length path then Inr (-1, cookie, k_close fd K)
      else case sync_request fd ID_LIST path K of
        (failed, K1) \<Rightarrow> if failed then Inr (-1, cookie, k_close fd K1) else ls_loop fd func cookie K1)"

definition sync_start_readtime :: "int \<Rightarrow> string \<Rightarrow> copier \<Rightarrow> int \<times> copier" where
  "sync_start_readtime fd path K =
     (case sync_request fd ID_STAT path K of (failed, K1) \<Rightarrow> (if failed then -1 else 0, K1))"

text \<open>The results are the timestamp, the mode and the size.\<close>

definition sync_finish_readtime :: "int \<Rightarrow> copier \<Rightarrow> (u32 \<times> u32 \<times> u32) option \<times> copier" where
  "sync_finish_readtime fd K =
     (case k_readx fd sizeof_stat K of
        (r, m, K1) \<Rightarrow>
          if r \<noteq> 0 then (None, K1)
          else if field 0 m \<noteq> ID_STAT then (None, K1)
          else (Some (field 3 m, field 1 m, field 2 m), K1))"

definition sync_readtime :: "int \<Rightarrow> string \<Rightarrow> copier \<Rightarrow> u32 option \<times> copier" where
  "sync_readtime fd path K =
     (case sync_request fd ID_STAT path K of
        (failed, K1) \<Rightarrow>
          if failed then (None, K1)
          else case k_readx fd sizeof_stat K1 of
            (r, m, K2) \<Rightarrow>
              if r \<noteq> 0 then (None, K2)
              else if field 0 m \<noteq> ID_STAT then (None, K2)
              else (Some (field 3 m), K2))"

definition sync_readmode :: "int \<Rightarrow> string \<Rightarrow> copier \<Rightarrow> u32 option \<times> copier" where
  "sync_readmode fd path K =
     (case sync_request fd ID_STAT path K of
        (failed, K1) \<Rightarrow>
          if failed then (None, K1)
          else case k_readx fd sizeof_stat K1 of
            (r, m, K2) \<Rightarrow>
              if r \<noteq> 0 then (None, K2)
              else if field 0 m \<noteq> ID_STAT then (None, K2)
              else (Some (field 1 m), K2))"

section \<open>Sending a file\<close>

text \<open>\<^verbatim>\<open>sbuf\<close> with its first \<^verbatim>\<open>size\<close> bytes of data.\<close>

definition data_frame :: "bytes \<Rightarrow> bytes" where
  "data_frame bs = msg2 ID_DATA (of_nat (length bs)) @ bs"

definition count_bytes :: "nat \<Rightarrow> copier \<Rightarrow> copier" where
  "count_bytes n K = K\<lparr>total_bytes := total_bytes K + of_nat n\<rparr>"

fun script_weight :: "rscript \<Rightarrow> nat" where
  "script_weight [] = 0"
| "script_weight (RData bs # q) = Suc (length bs + script_weight q)"
| "script_weight (RErr e # q) = Suc (script_weight q)"

lemma adb_read_weight:
  assumes "adb_read n q = (r, q')" "r = Inr bs \<and> bs \<noteq> [] \<or> r = Inl e"
  shows "script_weight q' < script_weight q"
  using assms by (cases "(n, q)" rule: adb_read.cases) (auto split: if_splits)

text \<open>A failing read ends the loop like the end of the file: the result is still 0.\<close>

function file_loop :: "int \<Rightarrow> string \<Rightarrow> rscript \<Rightarrow> copier \<Rightarrow> int \<times> copier" where
  "file_loop fd path q K =
     (case adb_read SYNC_DATA_MAX q of
        (Inr bs, q') \<Rightarrow>
          if bs = [] then (0, K)
          else (case k_writex fd (data_frame bs) K of
              (r, K1) \<Rightarrow> if r \<noteq> 0 then (-1, K1) else file_loop fd path q' (count_bytes (length bs) K1))
      | (Inl e, q') \<Rightarrow>
          if e = EINTR then file_loop fd path q' K
          else (0, say (''cannot read '' @ quoted path @ '': '' @ os_error K) K))"
  by pat_completeness auto
termination
  by (relation "measure (\<lambda>(fd, path, q, K). script_weight q)") (auto dest!: sym [of "(_, _)"] adb_read_weight)

declare file_loop.simps [simp del]

definition write_data_file :: "int \<Rightarrow> string \<Rightarrow> copier \<Rightarrow> int \<times> copier" where
  "write_data_file fd path K =
     (case f_open K path of
        None \<Rightarrow> (-1, say (''cannot open '' @ quoted path @ '': '' @ os_error K) K)
      | Some q \<Rightarrow> file_loop fd path q K)"

function buffer_loop :: "int \<Rightarrow> bytes \<Rightarrow> nat \<Rightarrow> copier \<Rightarrow> int \<times> copier" where
  "buffer_loop fd file_buffer tot K =
     (if \<not> tot < length file_buffer then (0, K)
      else
        let count = (if SYNC_DATA_MAX < length file_buffer - tot then SYNC_DATA_MAX else length file_buffer - tot) in
        case k_writex fd (data_frame (take count (drop tot file_buffer))) K of
          (r, K1) \<Rightarrow> if r \<noteq> 0 then (-1, K1) else buffer_loop fd file_buffer (tot + count) (count_bytes count K1))"
  by pat_completeness auto
termination
  by (relation "measure (\<lambda>(fd, file_buffer, tot, K). length file_buffer - tot)") (auto simp: SYNC_DATA_MAX_def)

declare buffer_loop.simps [simp del]

definition write_data_buffer :: "int \<Rightarrow> bytes \<Rightarrow> copier \<Rightarrow> int \<times> copier" where
  "write_data_buffer fd file_buffer K = buffer_loop fd file_buffer 0 K"

text \<open>\<^verbatim>\<open>readlink\<close> fills at most \<^verbatim>\<open>SYNC_DATA_MAX-1\<close> bytes; the data carry a final NUL.\<close>

definition write_data_link :: "int \<Rightarrow> string \<Rightarrow> copier \<Rightarrow> int \<times> copier" where
  "write_data_link fd path K =
     (case f_link K path of
        None \<Rightarrow> (-1, say (''error reading link '' @ quoted path @ '': '' @ os_error K) K)
      | Some target \<Rightarrow>
          let bs = take (SYNC_DATA_MAX - 1) target @ [NUL] in
          (case k_writex fd (data_frame bs) K of
             (r, K1) \<Rightarrow> if r \<noteq> 0 then (-1, K1) else (0, count_bytes (length bs) K1)))"

text \<open>The check of a package: the file is read into memory and must be an archive with a manifest. \<open>Inl\<close> is the value
  \<^verbatim>\<open>sync_send\<close> returns at once.\<close>

type_synonym zip_lib = "bytes \<Rightarrow> bool option"

definition verify_apk :: "zip_lib \<Rightarrow> string \<Rightarrow> copier \<Rightarrow> (int + bytes) \<times> copier" where
  "verify_apk zl lpath K =
     (case f_open K lpath of
        None \<Rightarrow> (Inl (-1), say (''cannot open '' @ quoted lpath @ '': '' @ os_error K) K)
      | Some q \<Rightarrow>
          let sz = f_size K lpath in
          if sz = -1 then (Inl 1, say (''error seeking in file '' @ quoted lpath) K)
          else (case fst (adb_read (nat sz) q) of
              Inl e \<Rightarrow> (Inl 1, say (''error reading from file: '' @ quoted lpath) K)
            | Inr bs \<Rightarrow>
                if int (length bs) \<noteq> sz then (Inl 1, say (''error reading from file: '' @ quoted lpath) K)
                else (case zl bs of
                    None \<Rightarrow> (Inl 1, say (''file '' @ quoted lpath @ '' is not a valid zip file'') K)
                  | Some False \<Rightarrow> (Inl 1, say (''file '' @ quoted lpath @ '' does not contain AndroidManifest.xml'') K)
                  | Some True \<Rightarrow> (Inr bs, K))))"

definition protocol_failure :: "int \<Rightarrow> copier \<Rightarrow> int \<times> copier" where
  "protocol_failure fd K = (-1, k_close fd (say ''protocol failure'' K))"

definition failed_to_copy :: "string \<Rightarrow> string \<Rightarrow> string \<Rightarrow> copier \<Rightarrow> copier" where
  "failed_to_copy sp dp why K = say (''failed to copy '' @ quoted sp @ '' to '' @ quoted dp @ '': '' @ why) K"

text \<open>The end of \<^verbatim>\<open>sync_send\<close>: the \<^verbatim>\<open>DONE\<close> message with the file's time, and the device's verdict.\<close>

definition send_done :: "int \<Rightarrow> string \<Rightarrow> string \<Rightarrow> u32 \<Rightarrow> copier \<Rightarrow> (int \<times> copier) res" where
  "send_done fd lpath rpath mtime K =
     (case k_writex fd (msg2 ID_DONE mtime) K of
        (r, K1) \<Rightarrow>
          if r \<noteq> 0 then Inr (protocol_failure fd K1)
          else case k_readx fd sizeof_req K1 of
            (r, m, K2) \<Rightarrow>
              if r \<noteq> 0 then Inr (-1, K2)
              else if field 0 m = ID_OKAY then Inr (0, K2)
              else if field 0 m = ID_FAIL then
                let n = sint (field 1 m); len = (if 256 < n then 256 else n) in
                if len < 0 then Inl BufferOverflow
                else (case k_readx fd (nat len) K2 of
                    (r, text, K3) \<Rightarrow>
                      if r \<noteq> 0 then Inr (-1, K3) else Inr (-1, failed_to_copy lpath rpath (c_str text) K3))
              else Inr (-1, failed_to_copy lpath rpath ''unknown reason'' K2))"

text \<open>The three ways the data are sent; their results are not looked at. \<open>None\<close> is \<^verbatim>\<open>goto fail\<close>.\<close>

definition send_data :: "int \<Rightarrow> string \<Rightarrow> u32 \<Rightarrow> bytes option \<Rightarrow> copier \<Rightarrow> copier option" where
  "send_data fd lpath mode file_buffer K =
     (case file_buffer of
        Some buf \<Rightarrow> Some (snd (write_data_buffer fd buf K))
      | None \<Rightarrow>
          if S_ISREG mode then Some (snd (write_data_file fd lpath K))
          else if S_ISLNK mode then Some (snd (write_data_link fd lpath K))
          else None)"

definition mode_suffix :: "u32 \<Rightarrow> string" where
  "mode_suffix mode = snprintf 64 ('','' @ fmt_d (sint mode))"

definition send_header :: "int \<Rightarrow> string \<Rightarrow> u32 \<Rightarrow> copier \<Rightarrow> bool \<times> copier" where
  "send_header fd rpath mode K =
     (case k_writex fd (msg2 ID_SEND (of_nat (length rpath + length (mode_suffix mode)))) K of
        (r, K1) \<Rightarrow>
          if r \<noteq> 0 then (True, K1)
          else case k_writex fd rpath K1 of
            (r, K2) \<Rightarrow>
              if r \<noteq> 0 then (True, K2)
              else (case k_writex fd (mode_suffix mode) K2 of (r, K3) \<Rightarrow> (r \<noteq> 0, K3)))"

definition sync_send :: "zip_lib \<Rightarrow> int \<Rightarrow> string \<Rightarrow> string \<Rightarrow> u32 \<Rightarrow> u32 \<Rightarrow> bool \<Rightarrow> copier \<Rightarrow> (int \<times> copier) res" where
  "sync_send zl fd lpath rpath mtime mode verifyApk K =
     (if 1024 < length rpath then Inr (protocol_failure fd K)
      else case (if verifyApk then (case verify_apk zl lpath K of
                     (Inl r, K1) \<Rightarrow> (Inl r, K1) | (Inr bs, K1) \<Rightarrow> (Inr (Some bs), K1))
                 else (Inr None, K)) of
        (Inl r, K1) \<Rightarrow> Inr (r, K1)
      | (Inr file_buffer, K1) \<Rightarrow>
          (case send_header fd rpath mode K1 of
             (failed, K2) \<Rightarrow>
               if failed then Inr (protocol_failure fd K2)
               else case send_data fd lpath mode file_buffer K2 of
                 None \<Rightarrow> Inr (protocol_failure fd K2)
               | Some K3 \<Rightarrow> send_done fd lpath rpath mtime K3))"

section \<open>Receiving a file\<close>

lemma strchr_shorter:
  assumes "strchr x c = Some r"
  shows "length (tl r) < length x"
proof -
  from strchr_SomeD [OF assms] obtain t where "r = c # t" "x = before x c @ r" by blast
  then have "length x = length (before x c) + Suc (length t)" by (metis length_append length_Cons)
  with \<open>r = c # t\<close> show ?thesis by simp
qed

function mkdirs_loop :: "string \<Rightarrow> string \<Rightarrow> copier \<Rightarrow> int \<times> copier" where
  "mkdirs_loop up x K =
     (case strchr x (CHR ''/'') of
        None \<Rightarrow> (0, K)
      | Some r \<Rightarrow>
          let dir = up @ before x (CHR ''/''); K1 = K\<lparr>made := made K @ [dir]\<rparr> in
          if \<not> f_mkdir K dir then (-1, K1) else mkdirs_loop (dir @ ''/'') (tl r) K1)"
  by pat_completeness auto
termination
  by (relation "measure (\<lambda>(up, x, K). length x)") (auto dest: strchr_shorter)

declare mkdirs_loop.simps [simp del]

text \<open>The search starts behind the first character; an empty name has none.\<close>

definition mkdirs :: "string \<Rightarrow> copier \<Rightarrow> (int \<times> copier) res" where
  "mkdirs name K = (case name of [] \<Rightarrow> Inl UninitRead | c # x \<Rightarrow> Inr (mkdirs_loop [c] x K))"

definition unlink_file :: "string \<Rightarrow> copier \<Rightarrow> copier" where
  "unlink_file path K = (if f_unlink K path then K\<lparr>f_data := (f_data K)(path := None)\<rparr> else K)"

lemma unlink_file_simps [simp]:
  "conn (unlink_file path K) = conn K" "f_creat (unlink_file path K) = f_creat K" "said (unlink_file path K) = said K"
  "f_data (unlink_file path K) = (if f_unlink K path then (f_data K)(path := None) else f_data K)"
  by (simp_all add: unlink_file_def)

text \<open>\<^verbatim>\<open>writex(lfd, buffer, len)\<close>: the script is that of the open file.\<close>

definition write_local :: "string \<Rightarrow> bytes \<Rightarrow> wscript \<Rightarrow> copier \<Rightarrow> int \<times> wscript \<times> copier" where
  "write_local path bs q K =
     (case writex bs q of
        (r, sent, q') \<Rightarrow> (r, q', K\<lparr>f_data := (f_data K)(path := map_option (\<lambda>d. d @ sent) (f_data K path))\<rparr>))"

text \<open>The label \<^verbatim>\<open>remote_error\<close>: the result is 0 although nothing was copied.\<close>

definition remote_error :: "int \<Rightarrow> string \<Rightarrow> string \<Rightarrow> u32 \<Rightarrow> u32 \<Rightarrow> copier \<Rightarrow> (int \<times> copier) res" where
  "remote_error fd rpath lpath i sz K =
     (let K1 = unlink_file lpath K in
      if i = ID_FAIL then
        let n = sint sz; len = (if 256 < n then 256 else n) in
        if len < 0 then Inl BufferOverflow
        else (case k_readx fd (nat len) K1 of
            (r, text, K2) \<Rightarrow> if r \<noteq> 0 then Inr (-1, K2) else Inr (0, failed_to_copy rpath lpath (c_str text) K2))
      else Inr (0, failed_to_copy rpath lpath (c_str (le32 i)) K1))"

text \<open>The loop of \<^verbatim>\<open>sync_recv\<close> from the label \<^verbatim>\<open>handle_data\<close> on, with the message that has just been read.\<close>

function handle_data :: "int \<Rightarrow> string \<Rightarrow> string \<Rightarrow> u32 \<Rightarrow> u32 \<Rightarrow> wscript \<Rightarrow> copier \<Rightarrow> (int \<times> copier) res" where
  "handle_data fd rpath lpath i sz q K =
     (let len = sint sz in
      if i = ID_DONE then Inr (0, K)
      else if i \<noteq> ID_DATA then remote_error fd rpath lpath i sz K
      else if int SYNC_DATA_MAX < len then Inr (-1, say ''data overrun'' K)
      else if len < 0 then Inl BufferOverflow
      else case k_readx fd (nat len) K of
        (r, buffer, K1) \<Rightarrow>
          if r \<noteq> 0 then Inr (-1, K1)
          else case write_local lpath buffer q K1 of
            (r, q', K2) \<Rightarrow>
              if r \<noteq> 0 then Inr (-1, say (''cannot write '' @ quoted rpath @ '': '' @ os_error K2) K2)
              else case k_readx fd sizeof_req (count_bytes (nat len) K2) of
                (r, m, K3) \<Rightarrow>
                  if r \<noteq> 0 then Inr (-1, K3)
                  else handle_data fd rpath lpath (field 0 m) (field 1 m) q' K3)"
  by pat_completeness auto
termination
proof -
  have keep: "c_incoming (conn (count_bytes n K2)) = c_incoming (conn K1)" if "write_local lp b q K1 = (0, q', K2)" for lp b q K1 q' K2 n
    using that by (auto simp: write_local_def count_bytes_def split: prod.splits)
  show ?thesis
  proof (relation "measure (\<lambda>(fd, rpath, lpath, i, sz, q, K). length (readable (c_incoming (conn K) fd)))"; clarsimp)
    fix fd :: int and lpath :: string and sz :: u32 and q :: wscript and K m K3 buffer K1 q' K2
    assume a: "(0, buffer, K1) = k_readx fd (nat (sint sz)) K" and b: "(0, q', K2) = write_local lpath buffer q K1"
      and c: "(0, m, K3) = k_readx fd sizeof_req (count_bytes (nat (sint sz)) K2)"
    from k_readx_consumes [OF a [symmetric]] k_readx_consumes [OF c [symmetric]] keep [OF b [symmetric], of "nat (sint sz)"]
    show "length (readable (c_incoming (conn K3) fd)) < length (readable (c_incoming (conn K) fd))"
      by (simp add: sizeof_req_def)
  qed
qed

declare handle_data.simps [simp del]

definition sync_recv :: "int \<Rightarrow> string \<Rightarrow> string \<Rightarrow> copier \<Rightarrow> (int \<times> copier) res" where
  "sync_recv fd rpath lpath K =
     (if 1024 < length rpath then Inr (-1, K)
      else case sync_request fd ID_RECV rpath K of
        (failed, K1) \<Rightarrow>
          if failed then Inr (-1, K1)
          else case k_readx fd sizeof_req K1 of
            (r, m, K2) \<Rightarrow>
              if r \<noteq> 0 then Inr (-1, K2)
              else
                let i = field 0 m in
                if i = ID_DATA \<or> i = ID_DONE then
                  rbind (mkdirs lpath (unlink_file lpath K2)) (\<lambda>(_, K3).
                    case f_creat K3 lpath of
                      None \<Rightarrow> Inr (-1, say (''cannot create '' @ quoted lpath @ '': '' @ os_error K3) K3)
                    | Some q \<Rightarrow>
                        handle_data fd rpath lpath i (field 1 m) q (K3\<lparr>f_data := (f_data K3)(lpath \<mapsto> [])\<rparr>))
                else remote_error fd rpath lpath i (field 1 m) K2)"

section \<open>Transfers that succeed\<close>

lemma sint_of_nat_small: "n < 2 ^ 31 \<Longrightarrow> sint (of_nat n :: u32) = int n"
  by (simp add: signed_of_nat signed_take_bit_int_eq_self)

lemma field_msg2 [simp, wire]: "field 0 (msg2 i n @ r) = i" "field (Suc 0) (msg2 i n @ r) = n"
  by (simp_all add: field_def msg2_def drop_le32)

lemma length_msg2 [simp, wire]: "length (msg2 i n) = 8"
  by (simp add: msg2_def)

lemma field_msg2' [simp, wire]: "field 0 (msg2 i n) = i" "field (Suc 0) (msg2 i n) = n"
  using field_msg2 [of i n "[]"] by simp_all

lemma k_readx_exact:
  assumes "readable (c_incoming (conn K) fd) = bs @ rest" "length bs = n"
  shows "\<exists>q. k_readx fd n K = (0, bs, K\<lparr>conn := (conn K)\<lparr>c_incoming := (c_incoming (conn K))(fd := q)\<rparr>\<rparr>) \<and> readable q = rest"
  using c_readx_exact [OF assms] by (auto simp: k_readx_def)

lemma k_writex_ok:
  assumes "k_writex fd bs K = (0, K')"
  shows "c_sent (conn K') fd = c_sent (conn K) fd @ bs" "c_incoming (conn K') = c_incoming (conn K)" "K' = K\<lparr>conn := conn K'\<rparr>"
proof -
  from assms obtain C where c: "c_writex fd bs (conn K) = (0, C)" "K' = K\<lparr>conn := C\<rparr>"
    by (auto simp: k_writex_def split: prod.splits)
  then obtain sent q where w: "writex bs (c_outgoing (conn K) fd) = (0, sent, q)" and C: "C = (conn K)\<lparr>c_outgoing :=
    (c_outgoing (conn K))(fd := q), c_sent := (c_sent (conn K))(fd := c_sent (conn K) fd @ sent)\<rparr>"
    by (auto simp: c_writex_def split: prod.splits)
  from wx.wr_all [OF w] show "c_sent (conn K') fd = c_sent (conn K) fd @ bs" "c_incoming (conn K') = c_incoming (conn K)" "K' = K\<lparr>conn := conn K'\<rparr>"
    by (simp_all add: c C)
qed

lemma sync_request_ok:
  assumes "sync_request fd i path K = (False, K')"
  shows "c_sent (conn K') fd = c_sent (conn K) fd @ msg2 i (of_nat (length path)) @ path"
    "c_incoming (conn K') = c_incoming (conn K)" "K' = K\<lparr>conn := conn K'\<rparr>"
proof -
  from assms obtain K1 where k: "k_writex fd (msg2 i (of_nat (length path))) K = (0, K1)" "k_writex fd path K1 = (0, K')"
    by (auto simp: sync_request_def split: prod.splits if_splits)
  note a = k_writex_ok [OF k(1)] and b = k_writex_ok [OF k(2)]
  show "c_sent (conn K') fd = c_sent (conn K) fd @ msg2 i (of_nat (length path)) @ path"
    "c_incoming (conn K') = c_incoming (conn K)" using a b by simp_all
  show "K' = K\<lparr>conn := conn K'\<rparr>" by (subst b(3), subst a(3)) simp
qed

text \<open>A file as its pieces on the wire.\<close>

definition pieces_ok :: "bytes list \<Rightarrow> bool" where
  "pieces_ok cs \<longleftrightarrow> (\<forall>c \<in> set cs. c \<noteq> [] \<and> length c \<le> SYNC_DATA_MAX)"

definition data_frames :: "bytes list \<Rightarrow> bytes" where
  "data_frames cs = concat (map data_frame cs)"

lemma pieces_simps [simp]:
  "pieces_ok []" "pieces_ok (c # cs) \<longleftrightarrow> c \<noteq> [] \<and> length c \<le> SYNC_DATA_MAX \<and> pieces_ok cs"
  "data_frames [] = []" "data_frames (c # cs) = data_frame c @ data_frames cs"
  by (auto simp: pieces_ok_def data_frames_def)

lemma pieces_le: "pieces_ok cs \<Longrightarrow> length cs \<le> length (concat cs)"
proof (induction cs)
  case (Cons c cs)
  then show ?case by (cases c) auto
qed simp

lemma file_loop_sends:
  assumes "file_loop fd path q K = (0, K')"
  shows "\<exists>cs. pieces_ok cs \<and> concat cs = readable q \<and> c_sent (conn K') fd = c_sent (conn K) fd @ data_frames cs"
  using assms
proof (induction fd path q K rule: file_loop.induct)
  case (1 fd path q K)
  obtain r q' where rd: "adb_read SYNC_DATA_MAX q = (r, q')" by (cases "adb_read SYNC_DATA_MAX q")
  have pos: "0 < SYNC_DATA_MAX" by (simp add: SYNC_DATA_MAX_def)
  note go = "1.prems" [unfolded file_loop.simps [of fd path q K] rd]
  show ?case
  proof (cases r)
    case (Inr bs)
    show ?thesis
    proof (cases "bs = []")
      case True
      then have "readable q = []" using adb_read_stop [OF pos, of q q'] rd Inr by simp
      with go Inr True show ?thesis by (intro exI [of _ "[]"]) simp
    next
      case False
      with go Inr obtain K1 where w: "k_writex fd (data_frame bs) K = (0, K1)"
        and l: "file_loop fd path q' (count_bytes (length bs) K1) = (0, K')"
        by (auto split: prod.splits if_splits)
      from "1.IH"(2) [OF rd [symmetric] Inr False w [symmetric] _ l] obtain cs where
        cs: "pieces_ok cs" "concat cs = readable q'" "c_sent (conn K') fd = c_sent (conn K1) fd @ data_frames cs"
        by (auto simp: count_bytes_def)
      with adb_read_readable [OF pos rd [unfolded Inr] False] k_writex_ok(1) [OF w] False show ?thesis
        by (intro exI [of _ "bs # cs"]) simp
    qed
  next
    case (Inl e)
    show ?thesis
    proof (cases "e = EINTR")
      case True
      with "1.IH"(1) [OF rd [symmetric] Inl True] go Inl adb_read_eintr [OF rd [unfolded Inl True]] show ?thesis by simp
    next
      case False
      then have "readable q = []" using adb_read_stop [OF pos, of q q' e] rd Inl by simp
      with go Inl False show ?thesis by (intro exI [of _ "[]"]) (auto simp: say_def)
    qed
  qed
qed

text \<open>Reading a file piece by piece and cutting up a buffer come to the same.\<close>

lemma file_loop_buffer_loop:
  "file_loop fd path (if tot < length buf then [RData (drop tot buf)] else []) K = buffer_loop fd buf tot K"
proof (induction fd buf tot K rule: buffer_loop.induct)
  case (1 fd buf tot K)
  show ?case
  proof (cases "tot < length buf")
    case False
    then show ?thesis by (simp add: buffer_loop.simps [of fd buf] file_loop.simps [of fd path "[]"])
  next
    case True
    define n where "n = (if SYNC_DATA_MAX < length buf - tot then SYNC_DATA_MAX else length buf - tot)"
    define q where "q = (if tot + n < length buf then [RData (drop (tot + n) buf)] else [])"
    have rd: "adb_read SYNC_DATA_MAX [RData (drop tot buf)] = (Inr (take n (drop tot buf)), q)"
      using True by (auto simp: n_def q_def add.commute)
    have "0 < n" using True by (simp add: n_def SYNC_DATA_MAX_def)
    moreover have len: "length (take n (drop tot buf)) = n" by (simp add: n_def)
    ultimately have ne: "take n (drop tot buf) \<noteq> []" by force
    obtain r K1 where w: "k_writex fd (data_frame (take n (drop tot buf))) K = (r, K1)" by fastforce
    have nn: "\<not> \<not> tot < length buf" using True by simp
    have "file_loop fd path [RData (drop tot buf)] K = (if r \<noteq> 0 then (-1, K1) else file_loop fd path q (count_bytes n K1))"
      using rd ne w len by (simp add: file_loop.simps [of fd path "[RData (drop tot buf)]"] del: adb_read.simps length_take length_drop take_eq_Nil)
    moreover have "buffer_loop fd buf tot K = (if r \<noteq> 0 then (-1, K1) else buffer_loop fd buf (tot + n) (count_bytes n K1))"
      using True w by (simp add: buffer_loop.simps [of fd buf tot] n_def [symmetric])
    moreover have "r = 0 \<Longrightarrow> file_loop fd path q (count_bytes n K1) = buffer_loop fd buf (tot + n) (count_bytes n K1)"
      using "1.IH" [OF nn n_def w [symmetric]] by (simp add: q_def)
    ultimately show ?thesis using True by simp
  qed
qed

lemma count_bytes_conn [simp]: "conn (count_bytes n K) = conn K" "f_data (count_bytes n K) = f_data K" "f_creat (count_bytes n K) = f_creat K"
  by (simp_all add: count_bytes_def)

text \<open>A file system that takes \<open>n\<close> more writes of a piece whole.\<close>

definition absorbs :: "nat \<Rightarrow> wscript \<Rightarrow> bool" where
  "absorbs n q \<longleftrightarrow> n \<le> length q \<and> (\<forall>w \<in> set (take n q). \<exists>k. w = WOk k \<and> SYNC_DATA_MAX \<le> k)"

lemma absorbs_mono: "absorbs n q \<Longrightarrow> m \<le> n \<Longrightarrow> absorbs m q"
  using set_take_subset_set_take [of m n q] by (auto simp: absorbs_def)

lemma writex_absorbed:
  assumes "absorbs (Suc n) q" "bs \<noteq> []" "length bs \<le> SYNC_DATA_MAX"
  shows "\<exists>q'. writex bs q = (0, bs, q') \<and> absorbs n q'"
proof -
  from assms(1) obtain k q' where q: "q = WOk k # q'" "SYNC_DATA_MAX \<le> k" "absorbs n q'" by (cases q) (auto simp: absorbs_def)
  with assms(2,3) show ?thesis by (auto simp: writex_def write_loop.simps [of bs] write_loop.simps [of "[]"] min_def SYNC_DATA_MAX_def)
qed

lemma data_ids [simp]: "ID_DATA \<noteq> ID_DONE" "ID_DONE \<noteq> ID_DATA"
  by (simp_all add: ID_defs)

lemma handle_data_frames:
  assumes "pieces_ok cs" "absorbs (length cs) q" "f_data K lp = Some d"
    and "readable (c_incoming (conn K) fd) = drop 8 (data_frames cs @ msg2 ID_DONE t @ rest)"
    and "i = field 0 (data_frames cs @ msg2 ID_DONE t)" "sz = field 1 (data_frames cs @ msg2 ID_DONE t)"
  shows "\<exists>K'. handle_data fd rp lp i sz q K = Inr (0, K') \<and> f_data K' lp = Some (d @ concat cs)
    \<and> readable (c_incoming (conn K') fd) = rest"
  using assms
proof (induction cs arbitrary: i sz q K d)
  case Nil
  then show ?case by (simp add: handle_data.simps [of fd rp lp ID_DONE t q K] Let_def)
next
  case (Cons c cs)
  have i: "i = ID_DATA" "sz = of_nat (length c)" using Cons.prems(5,6) by (simp_all add: data_frame_def)
  have len: "sint sz = int (length c)" "length c \<le> SYNC_DATA_MAX" "c \<noteq> []"
    using Cons.prems(1) by (simp_all add: i(2) sint_of_nat_small SYNC_DATA_MAX_def)
  let ?r = "data_frames cs @ msg2 ID_DONE t @ rest"
  have "readable (c_incoming (conn K) fd) = c @ ?r" using Cons.prems(4) by (simp add: data_frame_def)
  from k_readx_exact [OF this refl] obtain q1 where
    q1: "k_readx fd (length c) K = (0, c, K\<lparr>conn := (conn K)\<lparr>c_incoming := (c_incoming (conn K))(fd := q1)\<rparr>\<rparr>)" "readable q1 = ?r" by blast
  from writex_absorbed [of "length cs" q c] Cons.prems(2) len obtain q' where
    w: "writex c q = (0, c, q')" "absorbs (length cs) q'" by auto
  define K1 where "K1 = K\<lparr>conn := (conn K)\<lparr>c_incoming := (c_incoming (conn K))(fd := q1)\<rparr>\<rparr>"
  define K2 where "K2 = count_bytes (length c) (K1\<lparr>f_data := (f_data K1)(lp := map_option (\<lambda>d. d @ c) (f_data K1 lp))\<rparr>)"
  have "?r = take 8 ?r @ drop 8 ?r" by (rule append_take_drop_id [symmetric])
  moreover have "length (take 8 ?r) = 8" by (simp only: length_take length_append length_msg2)
  moreover have "readable (c_incoming (conn K2) fd) = ?r" using q1(2) by (simp add: K2_def K1_def)
  ultimately obtain q2 where
    q2: "k_readx fd 8 K2 = (0, take 8 ?r, K2\<lparr>conn := (conn K2)\<lparr>c_incoming := (c_incoming (conn K2))(fd := q2)\<rparr>\<rparr>)" "readable q2 = drop 8 ?r"
    using k_readx_exact [of K2 fd "take 8 ?r" "drop 8 ?r" 8] by metis
  define K3 where "K3 = K2\<lparr>conn := (conn K2)\<lparr>c_incoming := (c_incoming (conn K2))(fd := q2)\<rparr>\<rparr>"
  let ?i = "field 0 (take 8 ?r)" let ?s = "field 1 (take 8 ?r)"
  have next_ids: "?i = field 0 (data_frames cs @ msg2 ID_DONE t)" "?s = field 1 (data_frames cs @ msg2 ID_DONE t)"
    by (cases cs; simp add: data_frame_def)+
  have f: "f_data K3 lp = Some (d @ c)" using Cons.prems(3) by (simp add: K3_def K2_def K1_def)
  have r: "readable (c_incoming (conn K3) fd) = drop 8 ?r" using q2(2) by (simp add: K3_def)
  have "handle_data fd rp lp i sz q K = handle_data fd rp lp ?i ?s q' K3"
    using q1(1) w(1) q2(1) len by (simp add: handle_data.simps [of fd rp lp ID_DATA sz q K] Let_def i(1) write_local_def
      K1_def [symmetric] K2_def [symmetric] K3_def [symmetric] sizeof_req_def)
  with Cons.IH [OF _ w(2) f r next_ids] Cons.prems(1) show ?case by simp
qed

lemma mkdirs_loop_frame: "snd (mkdirs_loop up x K) = K\<lparr>made := made (snd (mkdirs_loop up x K))\<rparr>"
proof (induction up x K rule: mkdirs_loop.induct)
  case (1 up x K)
  show ?case
  proof (cases "strchr x (CHR ''/'')")
    case None
    then show ?thesis by (simp add: mkdirs_loop.simps [of up x K])
  next
    case (Some r)
    let ?dir = "up @ before x (CHR ''/'')" let ?K = "K\<lparr>made := made K @ [?dir]\<rparr>"
    have "snd (mkdirs_loop (?dir @ ''/'') (tl r) ?K) = K\<lparr>made := made (snd (mkdirs_loop (?dir @ ''/'') (tl r) ?K))\<rparr>" if "f_mkdir K ?dir"
      using "1.IH" [OF Some refl refl] that by simp
    then show ?thesis using Some by (simp add: mkdirs_loop.simps [of up x K] Let_def)
  qed
qed

text \<open>A directory's entries as the device sends them.\<close>

definition dent_bytes :: "u32 \<times> u32 \<times> u32 \<times> string \<Rightarrow> bytes" where
  "dent_bytes e = (case e of (mode, sz, time, name) \<Rightarrow>
     le32 ID_DENT @ le32 mode @ le32 sz @ le32 time @ le32 (of_nat (length name)) @ name)"

definition list_end :: "bytes \<Rightarrow> bool" where
  "list_end m \<longleftrightarrow> length m = sizeof_dent \<and> field 0 m = ID_DONE"

lemma field_dent [simp]:
  "field 0 (le32 a @ le32 b @ le32 c @ le32 d @ le32 e) = a" "field 1 (le32 a @ le32 b @ le32 c @ le32 d @ le32 e) = b"
  "field 2 (le32 a @ le32 b @ le32 c @ le32 d @ le32 e) = c" "field 3 (le32 a @ le32 b @ le32 c @ le32 d @ le32 e) = d"
  "field 4 (le32 a @ le32 b @ le32 c @ le32 d @ le32 e) = e"
  using un_le32_le32 [of e "[]"] by (simp_all add: field_def drop_le32)

lemma ls_loop_entries:
  assumes "readable (c_incoming (conn K) fd) = concat (map dent_bytes es) @ m @ rest" "list_end m"
    and "\<forall>(mode, sz, time, name) \<in> set es. length name \<le> 256 \<and> NUL \<notin> set name"
  shows "\<exists>K'. ls_loop fd func cookie K = Inr (0, fold (\<lambda>(mode, sz, time, name). func mode sz time name) es cookie, K')
    \<and> readable (c_incoming (conn K') fd) = rest"
  using assms
proof (induction es arbitrary: cookie K)
  case Nil
  then have "readable (c_incoming (conn K) fd) = m @ rest" "length m = sizeof_dent" "field 0 m = ID_DONE" by (simp_all add: list_end_def)
  from k_readx_exact [OF this(1,2)] this(3) show ?case by (auto simp: ls_loop.simps [of fd func cookie K])
next
  case (Cons e es)
  obtain mode sz time name where e: "e = (mode, sz, time, name)" by (cases e)
  let ?h = "le32 ID_DENT @ le32 mode @ le32 sz @ le32 time @ le32 (of_nat (length name))"
  let ?r = "concat (map dent_bytes es) @ m @ rest"
  have name: "length name \<le> 256" "NUL \<notin> set name" using Cons.prems(3) by (simp_all add: e)
  have "readable (c_incoming (conn K) fd) = ?h @ name @ ?r" using Cons.prems(1) by (simp add: e dent_bytes_def [of e, unfolded e])
  from k_readx_exact [OF this, of sizeof_dent] obtain q1 where q1: "k_readx fd sizeof_dent K =
    (0, ?h, K\<lparr>conn := (conn K)\<lparr>c_incoming := (c_incoming (conn K))(fd := q1)\<rparr>\<rparr>)" "readable q1 = name @ ?r"
    by (auto simp: sizeof_dent_def)
  define K1 where "K1 = K\<lparr>conn := (conn K)\<lparr>c_incoming := (c_incoming (conn K))(fd := q1)\<rparr>\<rparr>"
  have "readable (c_incoming (conn K1) fd) = name @ ?r" using q1(2) by (simp add: K1_def)
  from k_readx_exact [OF this refl] obtain q2 where q2: "k_readx fd (length name) K1 =
    (0, name, K1\<lparr>conn := (conn K1)\<lparr>c_incoming := (c_incoming (conn K1))(fd := q2)\<rparr>\<rparr>)" "readable q2 = ?r" by blast
  define K2 where "K2 = K1\<lparr>conn := (conn K1)\<lparr>c_incoming := (c_incoming (conn K1))(fd := q2)\<rparr>\<rparr>"
  have ids: "ID_DENT \<noteq> ID_DONE" by (simp add: ID_defs)
  have len: "sint (of_nat (length name) :: u32) = int (length name)" using name(1) by (simp add: sint_of_nat_small)
  have "ls_loop fd func cookie K = ls_loop fd func (func mode sz time name cookie) K2"
    unfolding ls_loop.simps [of fd func cookie K] q1(1) using q2(1) ids len name
    by (simp add: K1_def [symmetric] K2_def [symmetric] c_str_no_NUL del: One_nat_def)
  moreover have "readable (c_incoming (conn K2) fd) = ?r" using q2(2) by (simp add: K2_def)
  ultimately show ?case using Cons.IH [of K2 "func mode sz time name cookie"] Cons.prems(2,3) by (simp add: e)
qed

section \<open>Properties\<close>

text \<open>C8: A file that is sent and then received comes back unchanged, if the local disk takes it. What \<^verbatim>\<open>write_data_file\<close> puts on the wire, however the
  local reads cut the file up, makes \<^verbatim>\<open>sync_recv\<close> create a file with exactly the bytes that could be read, return 0 and leave what
  follows the closing \<^verbatim>\<open>DONE\<close> unread.\<close>

theorem file_data_roundtrip:
  assumes w: "f_open K path = Some q" "write_data_file fd path K = (0, K')" "c_sent (conn K') fd = c_sent (conn K) fd @ sent"
    and req: "length rp \<le> 1024" "sync_request rfd ID_RECV rp R = (False, R1)"
    and r: "readable (c_incoming (conn R) rfd) = sent @ msg2 ID_DONE t @ rest"
    and l: "lp \<noteq> []" "f_creat R lp = Some wq" "absorbs (length (readable q)) wq"
  shows "\<exists>R'. sync_recv rfd rp lp R = Inr (0, R') \<and> f_data R' lp = Some (readable q) \<and> readable (c_incoming (conn R') rfd) = rest"
proof -
  from file_loop_sends [of fd path q K K'] w obtain cs where
    cs: "pieces_ok cs" "concat cs = readable q" "sent = data_frames cs" by (auto simp: write_data_file_def)
  have ab: "absorbs (length cs) wq" using absorbs_mono [OF l(3)] pieces_le [OF cs(1)] cs(2) by simp
  let ?r = "data_frames cs @ msg2 ID_DONE t"
  note R1 = sync_request_ok [OF req(2)]
  have "take 8 ?r @ drop 8 ?r @ rest = ?r @ rest" by (metis append.assoc append_take_drop_id)
  moreover have "length (take 8 ?r) = 8" by (simp only: length_take length_append length_msg2)
  ultimately obtain q1 where q1: "k_readx rfd 8 R1 = (0, take 8 ?r, R1\<lparr>conn := (conn R1)\<lparr>c_incoming := (c_incoming (conn R1))(rfd := q1)\<rparr>\<rparr>)"
    "readable q1 = drop 8 ?r @ rest"
    using k_readx_exact [of R1 rfd "take 8 ?r" "drop 8 ?r @ rest" 8] r R1(2) cs(3) by (metis append.assoc)
  define R2 where "R2 = R1\<lparr>conn := (conn R1)\<lparr>c_incoming := (c_incoming (conn R1))(rfd := q1)\<rparr>\<rparr>"
  have ids: "field 0 (take 8 ?r) = field 0 ?r" "field 1 (take 8 ?r) = field 1 ?r" "field 0 ?r = ID_DATA \<or> field 0 ?r = ID_DONE"
    by (cases cs; simp add: data_frame_def)+
  obtain a x where lp: "lp = a # x" using l(1) by (cases lp) auto
  define R3 where "R3 = snd (mkdirs_loop [a] x (unlink_file lp R2))"
  obtain d where m: "mkdirs lp (unlink_file lp R2) = Inr (d, R3)" by (cases "mkdirs_loop [a] x (unlink_file lp R2)") (auto simp: mkdirs_def lp R3_def)
  have R3: "R3 = (unlink_file lp R2)\<lparr>made := made R3\<rparr>" unfolding R3_def by (rule mkdirs_loop_frame)
  have "f_creat R1 = f_creat R" using arg_cong [OF R1(3), of f_creat] by simp
  with l(2) arg_cong [OF R3, of f_creat] have c: "f_creat R3 lp = Some wq" by (simp add: R2_def)
  define R4 where "R4 = R3\<lparr>f_data := (f_data R3)(lp \<mapsto> [])\<rparr>"
  have "readable (c_incoming (conn R4) rfd) = drop 8 (data_frames cs @ msg2 ID_DONE t @ rest)" "f_data R4 lp = Some []"
    using q1(2) arg_cong [OF R3, of conn] by (simp_all add: R4_def R2_def)
  from handle_data_frames [OF cs(1) ab this(2,1) refl refl, of rp] cs(2) obtain R' where
    R': "handle_data rfd rp lp (field 0 ?r) (field 1 ?r) wq R4 = Inr (0, R')" "f_data R' lp = Some (readable q)"
      "readable (c_incoming (conn R') rfd) = rest" by auto
  have "sync_recv rfd rp lp R = Inr (0, R')"
    using req q1(1) ids m c R'(1) unfolding sync_recv_def
    by (simp only: sizeof_req_def R2_def [symmetric] R4_def [symmetric] Let_def split_conv not_less [symmetric] rbind_simps if_False if_True option.case simp_thms)
  then show ?thesis using R'(2,3) by simp
qed

lemma le32_ids:
  "le32 ID_DATA = ''DATA''" "le32 ID_DONE = ''DONE''" "le32 ID_DENT = ''DENT''" "le32 ID_FAIL = ''FAIL''" "le32 ID_OKAY = ''OKAY''"
  "le32 ID_SEND = ''SEND''" "le32 ID_RECV = ''RECV''" "le32 ID_LIST = ''LIST''" "le32 ID_STAT = ''STAT''" "le32 ID_QUIT = ''QUIT''"
  by (simp_all add: ID_defs le32_def char_of_def bit_0)

lemma le32_numbers:
  "le32 0 = [NUL, NUL, NUL, NUL]" "le32 1 = [CHR 0x01, NUL, NUL, NUL]" "le32 2 = [CHR 0x02, NUL, NUL, NUL]"
  "le32 3 = [CHR 0x03, NUL, NUL, NUL]" "le32 6 = [CHR 0x06, NUL, NUL, NUL]" "le32 9 = [CHR 0x09, NUL, NUL, NUL]"
  "le32 0x41ed = [CHR 0xed, CHR 0x41, NUL, NUL]" "le32 0x81a4 = [CHR 0xa4, CHR 0x81, NUL, NUL]"
  by (simp_all add: le32_def char_of_def bit_0)

lemma msg2_not_Nil [simp]: "msg2 i n \<noteq> []"
  using length_msg2 [of i n] by (metis list.size(3) zero_neq_numeral)

lemma k_writex_whole:
  assumes "case c_outgoing (conn K) fd of WOk n # q \<Rightarrow> length bs \<le> n | _ \<Rightarrow> False" "bs \<noteq> []"
  shows "k_writex fd bs K = (0, K\<lparr>conn := (conn K)\<lparr>c_outgoing := (c_outgoing (conn K))(fd := tl (c_outgoing (conn K) fd)),
    c_sent := (c_sent (conn K))(fd := c_sent (conn K) fd @ bs)\<rparr>\<rparr>)"
proof -
  from assms(1) obtain n q where q: "c_outgoing (conn K) fd = WOk n # q" "length bs \<le> n" by (auto split: list.splits wres.splits)
  then have "writex bs (WOk n # q) = (0, bs, q)"
    using assms(2) by (auto simp: writex_def write_loop.simps [of bs] write_loop.simps [of "[]"] min_def)
  with q(1) show ?thesis by (simp add: k_writex_def c_writex_def)
qed

lemmas send_eval = sync_request_def send_header_def data_frame_def k_writex_whole mode_suffix_def snprintf_def fmt_d_def count_bytes_def
lemmas reply_eval = dent_bytes_def data_frame_def msg2_def le32_ids le32_numbers

text \<open>A local side with one readable file, and a device's answers: 5 sends a file back, 6 lists a directory, 7 refuses.\<close>

definition demo_copier :: copier where
  "demo_copier = \<lparr>conn = demo_client\<lparr>c_incoming := (\<lambda>fd.
       if fd = 5 then [RData ''DATA'', RData [CHR 0x03, NUL, NUL, NUL], RData ''hel'', RErr EINTR,
         RData (''DATA'' @ [CHR 0x02, NUL, NUL, NUL] @ ''lo'' @ ''DONE'' @ [NUL, NUL, NUL, NUL]), RData ''more'']
       else if fd = 6 then [RData (''DENT'' @ [CHR 0xed, CHR 0x41, NUL, NUL, NUL, NUL, NUL, NUL, CHR 0x09, NUL, NUL, NUL, CHR 0x03, NUL, NUL, NUL] @ ''sub''),
         RData (''DENT'' @ [CHR 0xa4, CHR 0x81, NUL, NUL, CHR 0x03, NUL, NUL, NUL, CHR 0x09, NUL, NUL, NUL, CHR 0x01, NUL, NUL, NUL] @ ''a''),
         RData (''DONE'' @ replicate 16 NUL)]
       else if fd = 7 then [RData (''FAIL'' @ [CHR 0x06, NUL, NUL, NUL] @ ''denied'')]
       else [RData (''OKAY'' @ [NUL, NUL, NUL, NUL])]), c_outgoing := (\<lambda>_. [WOk 100, WOk 100, WOk 100, WOk 100, WOk 100, WOk 100])\<rparr>,
     f_stat = (\<lambda>_. None), f_lstat = (\<lambda>_. None), f_dir = (\<lambda>_. None),
     f_open = [''in'' \<mapsto> [RData ''hel'', RErr EINTR, RData ''lo'']], f_size = (\<lambda>_. 5), f_link = (\<lambda>_. None),
     f_creat = (\<lambda>_. Some [WOk 65536, WOk 65536, WOk 65536, WOk 65536, WOk 65536]), f_mkdir = (\<lambda>_. True), f_unlink = (\<lambda>_. True), f_data = [''out'' \<mapsto> ''old''], made = [],
     clock = [], start_time = 0, total_bytes = 0, os_error = ''error'', said = []\<rparr>"

theorem file_data_roundtrip_witness:
  "\<exists>R'. sync_recv 5 ''r'' ''out'' demo_copier = Inr (0, R') \<and> f_data R' ''out'' = Some ''hello''
     \<and> readable (c_incoming (conn R') 5) = ''more''"
proof -
  let ?q = "[RData ''hel'', RErr EINTR, RData ''lo'']"
  let ?K1 = "count_bytes (length ''hel'') (snd (k_writex 9 (data_frame ''hel'') demo_copier))"
  let ?K2 = "count_bytes (length ''lo'') (snd (k_writex 9 (data_frame ''lo'') ?K1))"
  have q: "readable ?q = ''hello''" by simp
  have w: "f_open demo_copier ''in'' = Some ?q" by (simp add: demo_copier_def)
  have rd: "adb_read SYNC_DATA_MAX ?q = (Inr ''hel'', [RErr EINTR, RData ''lo''])"
    "adb_read SYNC_DATA_MAX [RErr EINTR, RData ''lo''] = (Inl EINTR, [RData ''lo''])"
    "adb_read SYNC_DATA_MAX [RData ''lo''] = (Inr ''lo'', [])" "adb_read SYNC_DATA_MAX [] = (Inr [], [])"
    by (simp_all add: SYNC_DATA_MAX_def)
  have "fst (k_writex 9 (data_frame ''hel'') demo_copier) = 0" "fst (k_writex 9 (data_frame ''lo'') ?K1) = 0" by (simp_all add: send_eval demo_copier_def demo_client_def)
  then have ok: "write_data_file 9 ''in'' demo_copier = (0, ?K2)"
    by (simp add: write_data_file_def w file_loop.simps rd split_def del: adb_read.simps)
  have sent: "c_sent (conn ?K2) 9 = c_sent (conn demo_copier) 9 @ (data_frame ''hel'' @ data_frame ''lo'')" by (simp add: send_eval demo_copier_def demo_client_def)
  have req: "\<not> fst (sync_request 5 ID_RECV ''r'' demo_copier)" by (simp add: send_eval demo_copier_def demo_client_def)
  have wq: "f_creat demo_copier ''out'' = Some [WOk 65536, WOk 65536, WOk 65536, WOk 65536, WOk 65536]" "''out'' \<noteq> []" "length ''r'' \<le> 1024"
    "absorbs (length (readable ?q)) [WOk 65536, WOk 65536, WOk 65536, WOk 65536, WOk 65536]"
    by (simp_all add: demo_copier_def absorbs_def SYNC_DATA_MAX_def)
  have r: "readable (c_incoming (conn demo_copier) 5) = (data_frame ''hel'' @ data_frame ''lo'') @ msg2 ID_DONE 0 @ ''more''"
    by (simp add: demo_copier_def reply_eval)
  from req obtain R1 where "sync_request 5 ID_RECV ''r'' demo_copier = (False, R1)"
    by (cases "sync_request 5 ID_RECV ''r'' demo_copier") auto
  from file_data_roundtrip [OF w ok sent wq(3) this r wq(2,1,4)] q show ?thesis by simp
qed

text \<open>The two ways of sending a file are the same: \<^verbatim>\<open>write_data_buffer\<close> on a file in memory does to the connection and to the
  statistics what \<^verbatim>\<open>write_data_file\<close> does when it reads the same bytes, for every way the writes go, failures included.\<close>

theorem data_writers_agree:
  "write_data_file fd path (K\<lparr>f_open := (f_open K)(path \<mapsto> [RData buf])\<rparr>)
     = write_data_buffer fd buf (K\<lparr>f_open := (f_open K)(path \<mapsto> [RData buf])\<rparr>)"
proof (cases "buf = []")
  case True
  then show ?thesis by (simp add: write_data_file_def write_data_buffer_def file_loop.simps [of fd path "[RData []]"] buffer_loop.simps [of fd "[]"])
next
  case False
  then show ?thesis using file_loop_buffer_loop [of fd path 0 buf] by (simp add: write_data_file_def write_data_buffer_def)
qed

text \<open>A directory listing reaches the callback entry by entry: for a device that answers \<^verbatim>\<open>LIST\<close> with well-formed entries
  and \<^verbatim>\<open>DONE\<close>, \<^verbatim>\<open>sync_ls\<close> returns 0 after one call of the callback for each entry, in order and with the mode, size, time
  and name that were sent.\<close>

theorem listing_reaches_callback:
  assumes "length path \<le> 1024" "sync_request fd ID_LIST path K = (False, K1)"
    and "readable (c_incoming (conn K) fd) = concat (map dent_bytes es) @ m @ rest" "list_end m"
    and "\<forall>(mode, sz, time, name) \<in> set es. length name \<le> 256 \<and> NUL \<notin> set name"
  shows "\<exists>K'. sync_ls fd path func cookie K = Inr (0, fold (\<lambda>(mode, sz, time, name). func mode sz time name) es cookie, K')
    \<and> readable (c_incoming (conn K') fd) = rest"
proof -
  have "readable (c_incoming (conn K1) fd) = concat (map dent_bytes es) @ m @ rest"
    using assms(3) sync_request_ok(2) [OF assms(2)] by simp
  from ls_loop_entries [OF this assms(4,5)] show ?thesis using assms(1,2) by (simp add: sync_ls_def)
qed

theorem listing_reaches_callback_witness:
  "\<exists>K'. sync_ls 6 ''/'' (\<lambda>mode sz time name c. c @ [(name, sz)]) [] demo_copier = Inr (0, [(''sub'', 0), (''a'', 3)], K')
     \<and> readable (c_incoming (conn K') 6) = []"
proof -
  let ?es = "[(0x41ed, 0, 9, ''sub''), (0x81a4, 3, 9, ''a'')] :: (u32 \<times> u32 \<times> u32 \<times> string) list"
  let ?m = "le32 ID_DONE @ replicate 16 NUL"
  have m: "list_end ?m" by (simp add: list_end_def sizeof_dent_def field_def)
  have "\<not> fst (sync_request 6 ID_LIST ''/'' demo_copier)" by (simp add: send_eval demo_copier_def demo_client_def)
  then obtain K1 where s: "sync_request 6 ID_LIST ''/'' demo_copier = (False, K1)"
    by (cases "sync_request 6 ID_LIST ''/'' demo_copier") auto
  have r: "readable (c_incoming (conn demo_copier) 6) = concat (map dent_bytes ?es) @ ?m @ []" by (simp add: send_eval reply_eval demo_copier_def demo_client_def)
  have n: "\<forall>(mode, sz, time, name) \<in> set ?es. length name \<le> 256 \<and> NUL \<notin> set name" by simp
  from listing_reaches_callback [OF _ s r m n, of "\<lambda>mode sz time name c. c @ [(name, sz)]" "[]"] show ?thesis by simp
qed

text \<open>C35: A pull the device refuses ends with the result 0, and the local file of that name is deleted (unless the system refuses
  to, which goes unnoticed) although nothing has been received; the device's reason is shown to the user.\<close>

theorem refused_pull_deletes_local_file:
  assumes "length rp \<le> 1024" "sync_request fd ID_RECV rp R = (False, R1)"
    and "readable (c_incoming (conn R) fd) = msg2 ID_FAIL (of_nat (length why)) @ why @ rest" "length why \<le> 256" "NUL \<notin> set why"
  shows "\<exists>R'. sync_recv fd rp lp R = Inr (0, R') \<and> f_data R' = (if f_unlink R lp then (f_data R)(lp := None) else f_data R)
    \<and> said R' = said R @ [''failed to copy '' @ quoted rp @ '' to '' @ quoted lp @ '': '' @ why]"
proof -
  note R1 = sync_request_ok [OF assms(2)]
  have "readable (c_incoming (conn R1) fd) = msg2 ID_FAIL (of_nat (length why)) @ why @ rest" using assms(3) R1(2) by simp
  from k_readx_exact [OF this, of 8] obtain q1 where q1: "k_readx fd 8 R1 = (0, msg2 ID_FAIL (of_nat (length why)),
    R1\<lparr>conn := (conn R1)\<lparr>c_incoming := (c_incoming (conn R1))(fd := q1)\<rparr>\<rparr>)" "readable q1 = why @ rest" by auto
  define R2 where "R2 = unlink_file lp (R1\<lparr>conn := (conn R1)\<lparr>c_incoming := (c_incoming (conn R1))(fd := q1)\<rparr>\<rparr>)"
  have "readable (c_incoming (conn R2) fd) = why @ rest" using q1(2) by (simp add: R2_def)
  from k_readx_exact [OF this refl] obtain q2 where q2: "k_readx fd (length why) R2 =
    (0, why, R2\<lparr>conn := (conn R2)\<lparr>c_incoming := (c_incoming (conn R2))(fd := q2)\<rparr>\<rparr>)" by blast
  have ids: "ID_FAIL \<noteq> ID_DATA" "ID_FAIL \<noteq> ID_DONE" by (simp_all add: ID_defs)
  have len: "sint (of_nat (length why) :: u32) = int (length why)" using assms(4) by (simp add: sint_of_nat_small)
  have "sync_recv fd rp lp R = Inr (0, failed_to_copy rp lp why (R2\<lparr>conn := (conn R2)\<lparr>c_incoming := (c_incoming (conn R2))(fd := q2)\<rparr>\<rparr>))"
    using assms q1(1) q2 ids len by (simp add: sync_recv_def sizeof_req_def remote_error_def Let_def R2_def [symmetric] c_str_no_NUL)
  moreover have "f_data R1 = f_data R" "said R1 = said R" "f_unlink R1 = f_unlink R"
    using arg_cong [OF R1(3), of f_data] arg_cong [OF R1(3), of said] arg_cong [OF R1(3), of f_unlink] by simp_all
  ultimately show ?thesis by (simp add: failed_to_copy_def say_def R2_def)
qed

theorem refused_pull_deletes_local_file_witness:
  "\<exists>R'. sync_recv 7 ''r'' ''out'' demo_copier = Inr (0, R') \<and> f_data demo_copier ''out'' = Some ''old'' \<and> f_data R' ''out'' = None"
proof -
  have "\<not> fst (sync_request 7 ID_RECV ''r'' demo_copier)" by (simp add: send_eval demo_copier_def demo_client_def)
  then obtain R1 where s: "sync_request 7 ID_RECV ''r'' demo_copier = (False, R1)"
    by (cases "sync_request 7 ID_RECV ''r'' demo_copier") auto
  have r: "readable (c_incoming (conn demo_copier) 7) = msg2 ID_FAIL (of_nat (length ''denied'')) @ ''denied'' @ []" by (simp add: send_eval reply_eval demo_copier_def demo_client_def)
  have "f_data demo_copier ''out'' = Some ''old''" "f_unlink demo_copier ''out''" by (simp_all add: demo_copier_def)
  with refused_pull_deletes_local_file [OF _ s r, of "''out''"] show ?thesis by auto
qed

text \<open>A regular file that cannot be opened is still announced to the device and completed without any data, and if the
  device accepts that, the push returns 0 as if the file had been copied.\<close>

theorem unreadable_file_pushed_empty:
  assumes "length rp \<le> 1024" "f_open K lp = None" "S_ISREG mode"
    and "send_header fd rp mode K = (False, K1)" "fst (k_writex fd (msg2 ID_DONE mtime) K1) = 0"
    and "readable (c_incoming (conn K1) fd) = msg2 ID_OKAY x @ rest"
  shows "\<exists>K'. sync_send zl fd lp rp mtime mode False K = Inr (0, K') \<and> c_sent (conn K') fd = c_sent (conn K1) fd @ msg2 ID_DONE mtime"
proof -
  have "f_open K1 = f_open K" using assms(4) by (auto simp: send_header_def k_writex_def split: prod.splits if_splits)
  then have none: "f_open K1 lp = None" using assms(2) by simp
  let ?K2 = "say (''cannot open '' @ quoted lp @ '': '' @ os_error K1) K1"
  have "fst (k_writex fd (msg2 ID_DONE mtime) ?K2) = 0" using assms(5) by (auto simp: k_writex_def say_def split: prod.splits)
  then obtain K3 where w: "k_writex fd (msg2 ID_DONE mtime) ?K2 = (0, K3)" by (metis prod.collapse)
  note K3 = k_writex_ok [OF w]
  have "readable (c_incoming (conn K3) fd) = msg2 ID_OKAY x @ rest" using assms(6) K3(2) by (simp add: say_def)
  from k_readx_exact [OF this, of 8] obtain q where q: "k_readx fd 8 K3 = (0, msg2 ID_OKAY x,
    K3\<lparr>conn := (conn K3)\<lparr>c_incoming := (c_incoming (conn K3))(fd := q)\<rparr>\<rparr>)" by auto
  have "sync_send zl fd lp rp mtime mode False K = Inr (0, K3\<lparr>conn := (conn K3)\<lparr>c_incoming := (c_incoming (conn K3))(fd := q)\<rparr>\<rparr>)"
    using assms(1,3,4) none w q by (simp add: sync_send_def send_data_def write_data_file_def send_done_def sizeof_req_def)
  then show ?thesis using K3(1) by (simp add: say_def)
qed

theorem unreadable_file_pushed_empty_witness:
  "\<exists>K'. sync_send (\<lambda>_. None) 9 ''secret'' ''r'' 7 0x8000 False demo_copier = Inr (0, K')
     \<and> c_sent (conn K') 9 = msg2 ID_SEND 7 @ ''r,32768'' @ msg2 ID_DONE 7"
proof -
  let ?K1 = "snd (send_header 9 ''r'' 0x8000 demo_copier)"
  have "\<not> fst (send_header 9 ''r'' 0x8000 demo_copier)" by (simp add: send_eval demo_copier_def demo_client_def)
  then have s: "send_header 9 ''r'' 0x8000 demo_copier = (False, ?K1)" by (cases "send_header 9 ''r'' 0x8000 demo_copier") auto
  have w: "fst (k_writex 9 (msg2 ID_DONE 7) ?K1) = 0" by (simp add: send_eval demo_copier_def demo_client_def)
  have r: "readable (c_incoming (conn ?K1) 9) = msg2 ID_OKAY 0 @ []" by (simp add: send_eval reply_eval demo_copier_def demo_client_def)
  have o: "f_open demo_copier ''secret'' = None" "S_ISREG 0x8000" by (simp_all add: demo_copier_def S_ISREG_def)
  have "digits 10 32768 = ''32768''" by (simp add: digits.simps hex_digit_def char_of_def bit_0)
  then have c: "c_sent (conn ?K1) 9 = msg2 ID_SEND 7 @ ''r,32768''" by (simp add: send_eval demo_copier_def demo_client_def)
  from unreadable_file_pushed_empty [OF _ o s w r, of "\<lambda>_. None"] c show ?thesis by simp
qed

end
