(* ===== verification/File_Copy.thy ===== *)
theory File_Copy
  imports File_Sync
begin

text \<open>
  Copying files and directories: the second half of file_sync_client.c. A \<^verbatim>\<open>copyinfo\<close> list is a list whose head is the node
  the pointer designates; a new node is put in front. The recursion over local directories ends because
  \<^verbatim>\<open>local_build_list\<close> skips entries whose path would not fit \<^verbatim>\<open>PATH_MAX\<close>; the recursion over the device's directories
  is a list of the directories still to be visited, the innermost call's first, and ends because each listing takes at
  least one message off the connection.
\<close>

section \<open>Lists of files\<close>

record copyinfo =
  ci_src :: string
  ci_dst :: string
  ci_time :: u32
  ci_mode :: u32
  ci_size :: u32
  ci_flag :: bool

definition mkcopyinfo :: "string \<Rightarrow> string \<Rightarrow> string \<Rightarrow> bool \<Rightarrow> copyinfo" where
  "mkcopyinfo spath dpath name isdir =
     (let ssize = length spath + length name + 2; dsize = length dpath + length name + 2;
          tail = (if isdir then ''/'' else []) in
      \<lparr>ci_src = snprintf ssize (spath @ name @ tail), ci_dst = snprintf dsize (dpath @ name @ tail),
       ci_time = 0, ci_mode = 0, ci_size = 0, ci_flag = False\<rparr>)"

lemma mkcopyinfo_paths [simp]:
  "ci_src (mkcopyinfo s d n isdir) = s @ n @ (if isdir then ''/'' else [])"
  "ci_dst (mkcopyinfo s d n isdir) = d @ n @ (if isdir then ''/'' else [])"
  by (simp_all add: mkcopyinfo_def snprintf_def Let_def)

definition PATH_MAX :: nat where "PATH_MAX = 4096"

text \<open>
  The loop over one directory. \<open>st\<close> is the variable \<^verbatim>\<open>st\<close> of the function: the result of \<^verbatim>\<open>stat\<close> is not looked at, so
  for an entry that cannot be examined (a link that leads nowhere) it still holds what the entry before left in it. The result
  tells whether the loop came to the end of the directory.
\<close>

fun local_scan :: "string \<Rightarrow> string \<Rightarrow> string list \<Rightarrow> stat_buf option \<Rightarrow> copyinfo list \<Rightarrow> copyinfo list \<Rightarrow> copier
    \<Rightarrow> (bool \<times> copyinfo list \<times> copyinfo list \<times> copier) res" where
  "local_scan lpath rpath [] st files dirs K = Inr (True, files, dirs, K)"
| "local_scan lpath rpath (name # names) st files dirs K =
     (if name = ''.'' \<or> name = ''..'' then local_scan lpath rpath names st files dirs K
      else if PATH_MAX < length lpath + length name + 1 then local_scan lpath rpath names st files dirs K
      else
        let st1 = (case f_stat K (lpath @ name) of Some b \<Rightarrow> Some b | None \<Rightarrow> st) in
        case st1 of
          None \<Rightarrow> Inl UninitRead
        | Some b \<Rightarrow>
            if S_ISDIR (st_mode b) then local_scan lpath rpath names st1 files (mkcopyinfo lpath rpath name True # dirs) K
            else
              let ci = mkcopyinfo lpath rpath name False in
              (case f_lstat K (ci_src ci) of
                 None \<Rightarrow> Inr (False, files, dirs, say (''cannot stat '' @ quoted (ci_src ci) @ '': '' @ os_error K) K)
               | Some b \<Rightarrow>
                   if \<not> S_ISREG (st_mode b) \<and> \<not> S_ISLNK (st_mode b) then
                     local_scan lpath rpath names (Some b) files dirs (say (''skipping special file '' @ quoted (ci_src ci)) K)
                   else local_scan lpath rpath names (Some b)
                     (ci\<lparr>ci_time := st_mtime b, ci_mode := st_mode b, ci_size := st_size b\<rparr> # files) dirs K))"

fun each :: "('a \<Rightarrow> 'b \<Rightarrow> 'e + 'b) \<Rightarrow> 'a list \<Rightarrow> 'b \<Rightarrow> 'e + 'b" where
  "each f [] b = Inr b"
| "each f (x # xs) b = rbind (f x b) (each f xs)"

lemma each_cong [fundef_cong]:
  "xs = ys \<Longrightarrow> b = c \<Longrightarrow> (\<And>x a. x \<in> set ys \<Longrightarrow> f x a = g x a) \<Longrightarrow> each f xs b = each g ys c"
proof (induction xs arbitrary: ys b c)
  case (Cons x xs)
  then have "each f xs = each g xs" by fastforce
  with Cons.prems show ?case by auto
qed simp

text \<open>Every new directory is below the one that was read, and its path fits.\<close>

lemma local_scan_dirs:
  assumes "local_scan lpath rpath names st files dirs K = Inr (ok, files', dirs', K')" "ci \<in> set dirs'" "ci \<notin> set dirs"
  shows "length lpath < length (ci_src ci) \<and> length (ci_src ci) \<le> PATH_MAX"
  using assms
  by (induction lpath rpath names st files dirs K rule: local_scan.induct)
    (fastforce simp: Let_def split: if_splits option.splits)+

function local_build_list :: "string \<Rightarrow> string \<Rightarrow> copyinfo list \<times> copier \<Rightarrow> (int \<times> copyinfo list \<times> copier) res" where
  "local_build_list lpath rpath (files, K) =
     (case f_dir K lpath of
        None \<Rightarrow> Inr (-1, files, say (''cannot open '' @ quoted lpath @ '': '' @ os_error K) K)
      | Some names \<Rightarrow>
          rbind (local_scan lpath rpath names None files [] K) (\<lambda>(ok, files1, dirs, K1).
            if \<not> ok then Inr (-1, files1, K1)
            else rbind (each (\<lambda>ci S. rbind (local_build_list (ci_src ci) (ci_dst ci) S) (\<lambda>(_, S'). Inr S')) dirs (files1, K1))
                   (\<lambda>S. Inr (0, S))))"
  by pat_completeness auto
termination
proof (relation "measure (\<lambda>(lpath, rpath, S). Suc PATH_MAX - length lpath)"; clarsimp)
  fix lpath rpath :: string and files K names files1 dirs K1 ci
  assume "local_scan lpath rpath names None files [] K = Inr (True, files1, dirs, K1)" "ci \<in> set dirs"
  from local_scan_dirs [OF this] show "Suc PATH_MAX - length (ci_src ci) < Suc PATH_MAX - length lpath" by simp arith
qed

declare local_build_list.simps [simp del]

section \<open>Local to device\<close>

definition with_slash :: "string \<Rightarrow> string" where
  "with_slash p = (if last p \<noteq> CHR ''/'' then snprintf (length p + 2) (p @ ''/'') else p)"

text \<open>The loop that asks for the status of every file, and the one that reads the answers. The file on the device is up to date
  if its size agrees and, for a regular file, its time, or for a link, it is not older.\<close>

fun start_loop :: "int \<Rightarrow> copyinfo list \<Rightarrow> copier \<Rightarrow> bool \<times> copier" where
  "start_loop fd [] K = (True, K)"
| "start_loop fd (ci # cis) K =
     (case sync_start_readtime fd (ci_dst ci) K of (r, K1) \<Rightarrow> if r \<noteq> 0 then (False, K1) else start_loop fd cis K1)"

definition up_to_date :: "u32 \<times> u32 \<times> u32 \<Rightarrow> copyinfo \<Rightarrow> bool" where
  "up_to_date s ci = (case s of (timestamp, mode, sz) \<Rightarrow>
     sz = ci_size ci \<and> (S_ISREG (ci_mode ci AND mode) \<and> timestamp = ci_time ci
       \<or> S_ISLNK (ci_mode ci AND mode) \<and> ci_time ci \<le> timestamp))"

fun finish_loop :: "int \<Rightarrow> copyinfo list \<Rightarrow> copier \<Rightarrow> copyinfo list option \<times> copier" where
  "finish_loop fd [] K = (Some [], K)"
| "finish_loop fd (ci # cis) K =
     (case sync_finish_readtime fd K of
        (None, K1) \<Rightarrow> (None, K1)
      | (Some s, K1) \<Rightarrow>
          (case finish_loop fd cis K1 of
             (None, K2) \<Rightarrow> (None, K2)
           | (Some cis', K2) \<Rightarrow> (Some ((if up_to_date s ci then ci\<lparr>ci_flag := True\<rparr> else ci) # cis'), K2)))"

definition plural :: "nat \<Rightarrow> string" where
  "plural n = (if n = 1 then [] else ''s'')"

definition summary_line :: "string \<Rightarrow> nat \<Rightarrow> nat \<Rightarrow> string" where
  "summary_line verb n skipped = fmt_d (int n) @ '' file'' @ plural n @ '' '' @ verb @ ''. ''
     @ fmt_d (int skipped) @ '' file'' @ plural skipped @ '' skipped.''"

fun push_loop :: "zip_lib \<Rightarrow> int \<Rightarrow> bool \<Rightarrow> copyinfo list \<Rightarrow> nat \<Rightarrow> nat \<Rightarrow> copier \<Rightarrow> (int \<times> copier) res" where
  "push_loop zl fd listonly [] pushed skipped K = Inr (0, say (summary_line ''pushed'' pushed skipped) K)"
| "push_loop zl fd listonly (ci # cis) pushed skipped K =
     (if \<not> ci_flag ci then
        let K1 = say ((if listonly then ''would '' else []) @ ''push: '' @ ci_src ci @ '' -> '' @ ci_dst ci) K in
        if listonly then push_loop zl fd listonly cis (pushed + 1) skipped K1
        else rbind (sync_send zl fd (ci_src ci) (ci_dst ci) (ci_time ci) (ci_mode ci) False K1) (\<lambda>(r, K2).
          if r \<noteq> 0 then Inr (1, K2) else push_loop zl fd listonly cis (pushed + 1) skipped K2)
      else push_loop zl fd listonly cis pushed (skipped + 1) K)"

definition check_timestamps :: "int \<Rightarrow> copyinfo list \<Rightarrow> copier \<Rightarrow> copyinfo list option \<times> copier" where
  "check_timestamps fd filelist K =
     (case start_loop fd filelist K of
        (ok, K1) \<Rightarrow> if \<not> ok then (None, K1) else finish_loop fd filelist K1)"

definition copy_local_dir_remote :: "zip_lib \<Rightarrow> int \<Rightarrow> string \<Rightarrow> string \<Rightarrow> bool \<Rightarrow> bool \<Rightarrow> copier \<Rightarrow> (int \<times> copier) res" where
  "copy_local_dir_remote zl fd lpath rpath checktimestamps listonly K =
     (if lpath = [] \<or> rpath = [] then Inr (-1, K)
      else
        rbind (local_build_list (with_slash lpath) (with_slash rpath) ([], K)) (\<lambda>(r, filelist, K1).
          if r \<noteq> 0 then Inr (-1, K1)
          else case (if checktimestamps then check_timestamps fd filelist K1 else (Some filelist, K1)) of
            (None, K2) \<Rightarrow> Inr (1, K2)
          | (Some filelist, K2) \<Rightarrow> push_loop zl fd listonly filelist 0 0 K2))"

text \<open>\<^verbatim>\<open>adb_dirstop\<close> and the step behind it: the last component of a path.\<close>

definition base_name :: "string \<Rightarrow> string" where
  "base_name p = rev (takeWhile (\<lambda>c. c \<noteq> CHR ''/'') (rev p))"

definition sync_connect :: "copier \<Rightarrow> (int \<times> copier) res" where
  "sync_connect K = rbind (adb_connect ''sync:'' (conn K)) (\<lambda>(fd, C).
     let K1 = K\<lparr>conn := C\<rparr> in Inr (fd, if fd < 0 then say (''error: '' @ adb_error C) K1 else K1))"

text \<open>The end of a transfer: on success the statistics are shown and the device is told \<^verbatim>\<open>QUIT\<close>; otherwise the command's result is 1.\<close>

definition finish_transfer :: "int \<Rightarrow> int \<times> copier \<Rightarrow> int \<times> copier" where
  "finish_transfer fd x = (case x of (r, K) \<Rightarrow> if r \<noteq> 0 then (1, K) else (0, sync_quit fd (END K)))"

definition do_sync_push :: "zip_lib \<Rightarrow> string \<Rightarrow> string \<Rightarrow> bool \<Rightarrow> copier \<Rightarrow> (int \<times> copier) res" where
  "do_sync_push zl lpath rpath verifyApk K =
     rbind (sync_connect K) (\<lambda>(fd, K1).
       if fd < 0 then Inr (1, K1)
       else case f_stat K1 lpath of
         None \<Rightarrow> Inr (1, sync_quit fd (say (''cannot stat '' @ quoted lpath @ '': '' @ os_error K1) K1))
       | Some st \<Rightarrow>
           if S_ISDIR (st_mode st) then
             rbind (copy_local_dir_remote zl fd lpath rpath False False (BEGIN K1)) (\<lambda>x. Inr (finish_transfer fd x))
           else case sync_readmode fd rpath K1 of
             (None, K2) \<Rightarrow> Inr (1, K2)
           | (Some mode, K2) \<Rightarrow>
               let rpath = (if mode \<noteq> 0 \<and> S_ISDIR mode then
                     snprintf (length (base_name lpath) + length rpath + 2) (rpath @ ''/'' @ base_name lpath) else rpath) in
               rbind (sync_send zl fd lpath rpath (st_mtime st) (st_mode st) verifyApk (BEGIN K2)) (\<lambda>x. Inr (finish_transfer fd x)))"

definition do_sync_sync :: "zip_lib \<Rightarrow> string \<Rightarrow> string \<Rightarrow> bool \<Rightarrow> copier \<Rightarrow> (int \<times> copier) res" where
  "do_sync_sync zl lpath rpath listonly K =
     rbind (sync_connect (say (''syncing '' @ rpath @ ''...'') K)) (\<lambda>(fd, K1).
       if fd < 0 then Inr (1, K1)
       else rbind (copy_local_dir_remote zl fd lpath rpath True listonly (BEGIN K1)) (\<lambda>x. Inr (finish_transfer fd x)))"

text \<open>The callback prints one line for each entry.\<close>

definition do_sync_ls_cb :: "u32 \<Rightarrow> u32 \<Rightarrow> u32 \<Rightarrow> string \<Rightarrow> string list \<Rightarrow> string list" where
  "do_sync_ls_cb mode sz time name ls = ls @ [fmt_08x (unat mode) @ '' '' @ fmt_08x (unat sz) @ '' '' @ fmt_08x (unat time) @ '' '' @ name]"

definition say_all :: "string list \<Rightarrow> copier \<Rightarrow> copier" where
  "say_all ms K = fold say ms K"

definition do_sync_ls :: "string \<Rightarrow> copier \<Rightarrow> (int \<times> copier) res" where
  "do_sync_ls path K =
     rbind (sync_connect K) (\<lambda>(fd, K1).
       if fd < 0 then Inr (1, K1)
       else rbind (sync_ls fd path do_sync_ls_cb [] K1) (\<lambda>(r, ls, K2).
         let K3 = say_all ls K2 in if r \<noteq> 0 then Inr (1, K3) else Inr (0, sync_quit fd K3)))"

section \<open>Device to local\<close>

text \<open>The callback's cookie is the two lists and the messages it prints.\<close>

definition sync_ls_build_list_cb :: "string \<Rightarrow> string \<Rightarrow> u32 \<Rightarrow> u32 \<Rightarrow> u32 \<Rightarrow> string
    \<Rightarrow> copyinfo list \<times> copyinfo list \<times> string list \<Rightarrow> copyinfo list \<times> copyinfo list \<times> string list" where
  "sync_ls_build_list_cb rpath lpath mode sz time name args =
     (case args of
        (filelist, dirlist, ms) \<Rightarrow>
          if S_ISDIR mode then
            if name = ''.'' \<or> name = ''..'' then args
            else (filelist, mkcopyinfo rpath lpath name True # dirlist, ms)
          else if S_ISREG mode \<or> S_ISLNK mode then
            ((mkcopyinfo rpath lpath name False)\<lparr>ci_time := time, ci_mode := mode, ci_size := sz\<rparr> # filelist, dirlist, ms)
          else (filelist, dirlist, ms @ [''skipping special file '' @ quoted name]))"

lemma ls_loop_consumes:
  assumes "ls_loop fd func cookie K = Inr (0, cookie', K')"
  shows "length (readable (c_incoming (conn K') fd)) < length (readable (c_incoming (conn K) fd))"
  using assms
proof (induction fd func cookie K rule: ls_loop.induct)
  case (1 fd func cookie K)
  obtain r m K1 where k1: "k_readx fd sizeof_dent K = (r, m, K1)" by (metis prod_cases3)
  note go = "1.prems" [unfolded ls_loop.simps [of fd func cookie K] k1]
  from go have r: "r = 0" by (auto split: if_splits)
  have d: "length (readable (c_incoming (conn K1) fd)) < length (readable (c_incoming (conn K) fd))"
    using k_readx_consumes [OF k1 [unfolded r]] by (simp add: sizeof_dent_def)
  show ?case
  proof (cases "field 0 m = ID_DONE")
    case True
    with go r d show ?thesis by simp
  next
    case False
    obtain r2 buf K2 where k2: "k_readx fd (nat (sint (field 4 m))) K1 = (r2, buf, K2)" by (metis prod_cases3)
    from go r False k2 have c: "field 0 m = ID_DENT" "\<not> 256 < sint (field 4 m)" "\<not> sint (field 4 m) < 0" "r2 = 0"
      by (auto simp: Let_def split: if_splits)
    from go r False k2 c have l: "ls_loop fd func (func (field 1 m) (field 2 m) (field 3 m) (c_str buf) cookie) K2 = Inr (0, cookie', K')"
      by (simp add: Let_def)
    have "length (readable (c_incoming (conn K') fd)) < length (readable (c_incoming (conn K2) fd))"
      by (rule "1.IH" [OF k1 [symmetric] refl _ _ _ refl _ _ k2 [symmetric] refl _ l]) (use c r False in auto)
    then show ?thesis using k_readx_consumes [OF k2 [unfolded c(4)]] d by simp
  qed
qed

lemma sync_ls_consumes:
  assumes "sync_ls fd path func cookie K = Inr (0, cookie', K')"
  shows "length (readable (c_incoming (conn K') fd)) < length (readable (c_incoming (conn K) fd))"
proof -
  obtain failed K1 where s: "sync_request fd ID_LIST path K = (failed, K1)" by fastforce
  with assms have "\<not> failed" "ls_loop fd func cookie K1 = Inr (0, cookie', K')" by (auto simp: sync_ls_def split: if_splits)
  with ls_loop_consumes [OF this(2)] sync_request_ok(2) [of fd ID_LIST path K K1] s show ?thesis by simp
qed

lemma say_all_conn [simp]: "conn (say_all ms K) = conn K"
  unfolding say_all_def by (induction ms arbitrary: K) (simp_all add: say_def)

function remote_dirs :: "int \<Rightarrow> copyinfo list \<Rightarrow> copyinfo list \<Rightarrow> copier \<Rightarrow> (int \<times> copyinfo list \<times> copier) res" where
  "remote_dirs fd [] filelist K = Inr (0, filelist, K)"
| "remote_dirs fd (d # ds) filelist K =
     rbind (sync_ls fd (ci_src d) (sync_ls_build_list_cb (ci_src d) (ci_dst d)) (filelist, [], []) K)
       (\<lambda>(r, args, K1). case args of (files, dirs, ms) \<Rightarrow>
         if r \<noteq> 0 then Inr (1, files, say_all ms K1)
         else remote_dirs fd (dirs @ ds) files (say_all ms K1))"
  by pat_completeness auto
termination
  by (relation "measure (\<lambda>(fd, ds, fl, K). length (readable (c_incoming (conn K) fd)))") (auto dest: sync_ls_consumes)

declare remote_dirs.simps [simp del]

definition remote_build_list :: "int \<Rightarrow> copyinfo list \<Rightarrow> string \<Rightarrow> string \<Rightarrow> copier \<Rightarrow> (int \<times> copyinfo list \<times> copier) res" where
  "remote_build_list syncfd filelist rpath lpath K =
     remote_dirs syncfd [\<lparr>ci_src = rpath, ci_dst = lpath, ci_time = 0, ci_mode = 0, ci_size = 0, ci_flag = False\<rparr>] filelist K"

fun pull_loop :: "int \<Rightarrow> copyinfo list \<Rightarrow> nat \<Rightarrow> nat \<Rightarrow> copier \<Rightarrow> (int \<times> copier) res" where
  "pull_loop fd [] pulled skipped K = Inr (0, say (summary_line ''pulled'' pulled skipped) K)"
| "pull_loop fd (ci # cis) pulled skipped K =
     (if \<not> ci_flag ci then
        rbind (sync_recv fd (ci_src ci) (ci_dst ci) (say (''pull: '' @ ci_src ci @ '' -> '' @ ci_dst ci) K)) (\<lambda>(r, K1).
          if r \<noteq> 0 then Inr (1, K1) else pull_loop fd cis (pulled + 1) skipped K1)
      else pull_loop fd cis pulled (skipped + 1) K)"

definition copy_remote_dir_local :: "int \<Rightarrow> string \<Rightarrow> string \<Rightarrow> copier \<Rightarrow> (int \<times> copier) res" where
  "copy_remote_dir_local fd rpath lpath K =
     (if rpath = [] \<or> lpath = [] then Inr (-1, K)
      else
        rbind (remote_build_list fd [] (with_slash rpath) (with_slash lpath) (say ''pull: building file list...'' K)) (\<lambda>(r, filelist, K1).
          if r \<noteq> 0 then Inr (-1, K1) else pull_loop fd filelist 0 0 K1))"

definition do_sync_pull :: "string \<Rightarrow> string \<Rightarrow> copier \<Rightarrow> (int \<times> copier) res" where
  "do_sync_pull rpath lpath K =
     rbind (sync_connect K) (\<lambda>(fd, K1).
       if fd < 0 then Inr (1, K1)
       else case sync_readmode fd rpath K1 of
         (None, K2) \<Rightarrow> Inr (1, K2)
       | (Some mode, K2) \<Rightarrow>
           if mode = 0 then Inr (1, say (''remote object '' @ quoted rpath @ '' does not exist'') K2)
           else if S_ISREG mode \<or> S_ISLNK mode \<or> S_ISCHR mode \<or> S_ISBLK mode then
             let lpath = (case f_stat K2 lpath of
                   Some st \<Rightarrow> if S_ISDIR (st_mode st)
                     then snprintf (length (base_name rpath) + length lpath + 2) (lpath @ ''/'' @ base_name rpath) else lpath
                 | None \<Rightarrow> lpath) in
             rbind (sync_recv fd rpath lpath (BEGIN K2)) (\<lambda>x. Inr (finish_transfer fd x))
           else if S_ISDIR mode then
             rbind (copy_remote_dir_local fd rpath lpath (BEGIN K2)) (\<lambda>x. Inr (finish_transfer fd x))
           else Inr (1, say (''remote object '' @ quoted rpath @ '' not a file or directory'') K2))"

section \<open>What is listed\<close>

text \<open>The files below a directory, independently of how they are found: the entries that are regular files or links, and the files
  below the entries that are directories and can be read. Entries whose path is longer than \<^verbatim>\<open>PATH_MAX\<close> do not count.\<close>

definition usable :: "string \<Rightarrow> string \<Rightarrow> bool" where
  "usable lpath name \<longleftrightarrow> name \<noteq> ''.'' \<and> name \<noteq> ''..'' \<and> length lpath + length name + 1 \<le> PATH_MAX"

definition file_node :: "string \<Rightarrow> string \<Rightarrow> string \<Rightarrow> stat_buf \<Rightarrow> copyinfo" where
  "file_node lpath rpath name b =
     \<lparr>ci_src = lpath @ name, ci_dst = rpath @ name, ci_time = st_mtime b, ci_mode = st_mode b, ci_size = st_size b, ci_flag = False\<rparr>"

inductive in_tree :: "(string \<Rightarrow> string list option) \<Rightarrow> (string \<Rightarrow> stat_buf option) \<Rightarrow> (string \<Rightarrow> stat_buf option)
    \<Rightarrow> string \<Rightarrow> string \<Rightarrow> copyinfo \<Rightarrow> bool" for dir st lst where
  in_file: "dir lpath = Some names \<Longrightarrow> name \<in> set names \<Longrightarrow> usable lpath name \<Longrightarrow> st (lpath @ name) = Some b \<Longrightarrow> \<not> S_ISDIR (st_mode b)
    \<Longrightarrow> lst (lpath @ name) = Some l \<Longrightarrow> S_ISREG (st_mode l) \<or> S_ISLNK (st_mode l)
    \<Longrightarrow> in_tree dir st lst lpath rpath (file_node lpath rpath name l)"
| in_dir: "dir lpath = Some names \<Longrightarrow> name \<in> set names \<Longrightarrow> usable lpath name \<Longrightarrow> st (lpath @ name) = Some b \<Longrightarrow> S_ISDIR (st_mode b)
    \<Longrightarrow> in_tree dir st lst (lpath @ name @ ''/'') (rpath @ name @ ''/'') ci \<Longrightarrow> in_tree dir st lst lpath rpath ci"

inductive_cases in_treeE: "in_tree dir st lst lpath rpath ci"

text \<open>The directories that are visited from a given one, and that the system calls succeed on what is found there: \<^verbatim>\<open>stat\<close> on every
  entry and \<^verbatim>\<open>lstat\<close> on those that are not directories.\<close>

inductive below :: "(string \<Rightarrow> string list option) \<Rightarrow> (string \<Rightarrow> stat_buf option) \<Rightarrow> string \<Rightarrow> string \<Rightarrow> bool" for dir st where
  below_self: "below dir st lpath lpath"
| below_dir: "dir lpath = Some names \<Longrightarrow> name \<in> set names \<Longrightarrow> usable lpath name \<Longrightarrow> st (lpath @ name) = Some b \<Longrightarrow> S_ISDIR (st_mode b)
    \<Longrightarrow> below dir st (lpath @ name @ ''/'') p \<Longrightarrow> below dir st lpath p"

definition entries_ok :: "copier \<Rightarrow> string \<Rightarrow> string list \<Rightarrow> bool" where
  "entries_ok K lpath names \<longleftrightarrow> (\<forall>name \<in> set names. usable lpath name \<longrightarrow>
     (\<exists>b. f_stat K (lpath @ name) = Some b \<and> (S_ISDIR (st_mode b) \<or> f_lstat K (lpath @ name) \<noteq> None)))"

definition examined :: "copier \<Rightarrow> string \<Rightarrow> bool" where
  "examined K lpath \<longleftrightarrow> (\<forall>p names. below (f_dir K) (f_stat K) lpath p \<longrightarrow> f_dir K p = Some names \<longrightarrow> entries_ok K p names)"

text \<open>What one pass over a directory adds to the two lists when every entry can be examined.\<close>

definition scanned_files :: "copier \<Rightarrow> string \<Rightarrow> string \<Rightarrow> string list \<Rightarrow> copyinfo set" where
  "scanned_files K lpath rpath names = {file_node lpath rpath name l | name l b. name \<in> set names \<and> usable lpath name
     \<and> f_stat K (lpath @ name) = Some b \<and> \<not> S_ISDIR (st_mode b) \<and> f_lstat K (lpath @ name) = Some l
     \<and> (S_ISREG (st_mode l) \<or> S_ISLNK (st_mode l))}"

definition scanned_dirs :: "copier \<Rightarrow> string \<Rightarrow> string \<Rightarrow> string list \<Rightarrow> copyinfo set" where
  "scanned_dirs K lpath rpath names = {mkcopyinfo lpath rpath name True | name b. name \<in> set names \<and> usable lpath name
     \<and> f_stat K (lpath @ name) = Some b \<and> S_ISDIR (st_mode b)}"

lemma say_fs [simp]: "f_stat (say m K) = f_stat K" "f_lstat (say m K) = f_lstat K" "f_dir (say m K) = f_dir K" "entries_ok (say m K) = entries_ok K"
  "scanned_files (say m K) = scanned_files K" "scanned_dirs (say m K) = scanned_dirs K" "conn (say m K) = conn K" "said (say m K) = said K @ [m]"
  by (simp_all add: say_def entries_ok_def scanned_files_def scanned_dirs_def fun_eq_iff)

text \<open>\<open>same_fs\<close>: only messages have been printed.\<close>

definition same_fs :: "copier \<Rightarrow> copier \<Rightarrow> bool" where
  "same_fs K K' \<longleftrightarrow> K' = K\<lparr>said := said K'\<rparr>"

lemma same_fs_refl [simp, intro]: "same_fs K K"
  by (simp add: same_fs_def)

lemma same_fs_say [simp]: "same_fs K (say m K)"
  by (simp add: same_fs_def say_def)

lemma same_fs_trans: "same_fs K K1 \<Longrightarrow> same_fs K1 K2 \<Longrightarrow> same_fs K K2"
  unfolding same_fs_def by (metis copier.update_convs(17) copier.surjective)

lemma same_fs_fields:
  assumes "same_fs K K'"
  shows "f_stat K' = f_stat K" "f_lstat K' = f_lstat K" "f_dir K' = f_dir K" "conn K' = conn K" "examined K' = examined K"
proof -
  show f: "f_stat K' = f_stat K" "f_lstat K' = f_lstat K" "f_dir K' = f_dir K" "conn K' = conn K"
    using arg_cong [OF assms [unfolded same_fs_def], of f_stat] arg_cong [OF assms [unfolded same_fs_def], of f_lstat]
      arg_cong [OF assms [unfolded same_fs_def], of f_dir] arg_cong [OF assms [unfolded same_fs_def], of conn] by simp_all
  show "examined K' = examined K" unfolding fun_eq_iff examined_def entries_ok_def f by simp
qed

lemma scanned_skip:
  assumes "\<not> usable lpath name"
  shows "scanned_files K lpath rpath (name # names) = scanned_files K lpath rpath names"
    "scanned_dirs K lpath rpath (name # names) = scanned_dirs K lpath rpath names"
  using assms by (auto simp: scanned_files_def scanned_dirs_def)

lemma scanned_dir:
  assumes "usable lpath name" "f_stat K (lpath @ name) = Some b" "S_ISDIR (st_mode b)"
  shows "scanned_files K lpath rpath (name # names) = scanned_files K lpath rpath names"
    "scanned_dirs K lpath rpath (name # names) = insert (mkcopyinfo lpath rpath name True) (scanned_dirs K lpath rpath names)"
  using assms by (auto simp: scanned_files_def scanned_dirs_def)

lemma scanned_file:
  assumes "usable lpath name" "f_stat K (lpath @ name) = Some b" "\<not> S_ISDIR (st_mode b)" "f_lstat K (lpath @ name) = Some l"
  shows "scanned_files K lpath rpath (name # names) =
      (if S_ISREG (st_mode l) \<or> S_ISLNK (st_mode l) then {file_node lpath rpath name l} else {}) \<union> scanned_files K lpath rpath names"
    "scanned_dirs K lpath rpath (name # names) = scanned_dirs K lpath rpath names"
  using assms by (auto simp: scanned_files_def scanned_dirs_def)

lemma local_scan_examined:
  assumes "entries_ok K lpath names"
  shows "\<exists>files' dirs' K'. local_scan lpath rpath names st files dirs K = Inr (True, files', dirs', K') \<and> same_fs K K'
    \<and> set files' = set files \<union> scanned_files K lpath rpath names \<and> set dirs' = set dirs \<union> scanned_dirs K lpath rpath names"
  using assms
proof (induction names arbitrary: st files dirs K)
  case Nil
  then show ?case by (simp add: scanned_files_def scanned_dirs_def)
next
  case (Cons name names)
  have rest: "entries_ok K lpath names" using Cons.prems by (simp add: entries_ok_def)
  note IH = Cons.IH [OF rest]
  show ?case
  proof (cases "usable lpath name")
    case False
    then have "local_scan lpath rpath (name # names) st files dirs K = local_scan lpath rpath names st files dirs K" by (auto simp: usable_def)
    with IH [of st files dirs] show ?thesis by (simp add: scanned_skip [OF False])
  next
    case u: True
    with Cons.prems obtain b where b: "f_stat K (lpath @ name) = Some b" "S_ISDIR (st_mode b) \<or> f_lstat K (lpath @ name) \<noteq> None"
      by (auto simp: entries_ok_def)
    show ?thesis
    proof (cases "S_ISDIR (st_mode b)")
      case True
      then have "local_scan lpath rpath (name # names) st files dirs K =
          local_scan lpath rpath names (Some b) files (mkcopyinfo lpath rpath name True # dirs) K" using u b(1) by (simp add: usable_def)
      with IH [of "Some b" files "mkcopyinfo lpath rpath name True # dirs"] show ?thesis by (auto simp: scanned_dir [OF u b(1) True])
    next
      case False
      with b(2) obtain l where l: "f_lstat K (lpath @ name) = Some l" by auto
      note sc = scanned_file [OF u b(1) False l]
      have ci: "(mkcopyinfo lpath rpath name False)\<lparr>ci_time := st_mtime l, ci_mode := st_mode l, ci_size := st_size l\<rparr> = file_node lpath rpath name l"
        by (simp add: mkcopyinfo_def file_node_def Let_def snprintf_def)
      define msg where "msg = ''skipping special file '' @ quoted (lpath @ name)"
      show ?thesis
      proof (cases "S_ISREG (st_mode l) \<or> S_ISLNK (st_mode l)")
        case True
        then have "local_scan lpath rpath (name # names) st files dirs K =
            local_scan lpath rpath names (Some l) (file_node lpath rpath name l # files) dirs K"
          using u b(1) False l by (auto simp: usable_def Let_def ci [symmetric])
        with IH [of "Some l" "file_node lpath rpath name l # files" dirs] True show ?thesis by (auto simp: sc)
      next
        case special: False
        then have "local_scan lpath rpath (name # names) st files dirs K = local_scan lpath rpath names (Some l) files dirs (say msg K)"
          using u b(1) False l by (simp add: usable_def msg_def Let_def)
        with Cons.IH [of "say msg K" "Some l" files dirs] rest special show ?thesis
          by (auto simp: sc intro: same_fs_trans [OF same_fs_say])
      qed
    qed
  qed
qed

lemma in_tree_iff:
  assumes "f_dir K lpath = Some names"
  shows "in_tree (f_dir K) (f_stat K) (f_lstat K) lpath rpath ci \<longleftrightarrow> ci \<in> scanned_files K lpath rpath names
    \<or> (\<exists>d \<in> scanned_dirs K lpath rpath names. in_tree (f_dir K) (f_stat K) (f_lstat K) (ci_src d) (ci_dst d) ci)"
proof
  assume "in_tree (f_dir K) (f_stat K) (f_lstat K) lpath rpath ci"
  then show "ci \<in> scanned_files K lpath rpath names
    \<or> (\<exists>d \<in> scanned_dirs K lpath rpath names. in_tree (f_dir K) (f_stat K) (f_lstat K) (ci_src d) (ci_dst d) ci)"
    using assms by cases (force simp: scanned_files_def scanned_dirs_def)+
next
  assume "ci \<in> scanned_files K lpath rpath names
    \<or> (\<exists>d \<in> scanned_dirs K lpath rpath names. in_tree (f_dir K) (f_stat K) (f_lstat K) (ci_src d) (ci_dst d) ci)"
  then show "in_tree (f_dir K) (f_stat K) (f_lstat K) lpath rpath ci"
    using assms by (auto simp: scanned_files_def scanned_dirs_def intro: in_file in_dir)
qed

lemma in_tree_none: "f_dir K lpath = None \<Longrightarrow> \<not> in_tree (f_dir K) (f_stat K) (f_lstat K) lpath rpath ci"
  by (auto elim: in_treeE)

abbreviation tree :: "copier \<Rightarrow> string \<Rightarrow> string \<Rightarrow> copyinfo set" where
  "tree K lpath rpath \<equiv> {ci. in_tree (f_dir K) (f_stat K) (f_lstat K) lpath rpath ci}"

lemma each_dirs:
  assumes "\<And>d files V. d \<in> set ds \<Longrightarrow> same_fs K V \<Longrightarrow> \<exists>r files' V'. local_build_list (ci_src d) (ci_dst d) (files, V) = Inr (r, files', V')
      \<and> same_fs V V' \<and> set files' = set files \<union> tree K (ci_src d) (ci_dst d)" "same_fs K V"
  shows "\<exists>files' V'. each (\<lambda>ci S. rbind (local_build_list (ci_src ci) (ci_dst ci) S) (\<lambda>(_, S'). Inr S')) ds (files, V) = Inr (files', V')
    \<and> same_fs V V' \<and> set files' = set files \<union> (\<Union>d \<in> set ds. tree K (ci_src d) (ci_dst d))"
  using assms
proof (induction ds arbitrary: files V)
  case (Cons d ds)
  from Cons.prems(1) [of d V files] Cons.prems(2) obtain r f1 V1 where
    b: "local_build_list (ci_src d) (ci_dst d) (files, V) = Inr (r, f1, V1)" "same_fs V V1" "set f1 = set files \<union> tree K (ci_src d) (ci_dst d)"
    by auto
  from Cons.IH [of V1 f1] Cons.prems(1) same_fs_trans [OF Cons.prems(2) b(2)] obtain f2 V2 where
    "each (\<lambda>ci S. rbind (local_build_list (ci_src ci) (ci_dst ci) S) (\<lambda>(_, S'). Inr S')) ds (f1, V1) = Inr (f2, V2)"
    "same_fs V1 V2" "set f2 = set f1 \<union> (\<Union>d \<in> set ds. tree K (ci_src d) (ci_dst d))" by (auto simp del: rbind_simps)
  with b same_fs_trans [OF b(2)] show ?case by (auto simp: Un_assoc)
qed auto

lemma examined_below:
  assumes "examined K lpath" "f_dir K lpath = Some names" "d \<in> scanned_dirs K lpath rpath names"
  shows "examined K (ci_src d)"
proof -
  from assms(3) obtain name b where n: "d = mkcopyinfo lpath rpath name True" "name \<in> set names" "usable lpath name"
    "f_stat K (lpath @ name) = Some b" "S_ISDIR (st_mode b)" by (auto simp: scanned_dirs_def)
  then have "below (f_dir K) (f_stat K) lpath p" if "below (f_dir K) (f_stat K) (ci_src d) p" for p
    using below_dir [of "f_dir K" lpath names name "f_stat K" b p] assms(2) n that by simp
  with assms(1) show ?thesis by (auto simp: examined_def)
qed

lemma local_build_list_tree:
  assumes "examined K lpath"
  shows "\<exists>r files' K'. local_build_list lpath rpath (files, K) = Inr (r, files', K') \<and> same_fs K K'
    \<and> set files' = set files \<union> tree K lpath rpath \<and> (r = 0 \<longleftrightarrow> f_dir K lpath \<noteq> None)"
  using assms
proof (induction "Suc PATH_MAX - length lpath" arbitrary: lpath rpath files K rule: less_induct)
  case less
  show ?case
  proof (cases "f_dir K lpath")
    case None
    then show ?thesis using in_tree_none [OF None] by (auto simp: local_build_list.simps)
  next
    case (Some names)
    from less.prems Some have "entries_ok K lpath names" by (auto simp: examined_def intro: below_self)
    from local_scan_examined [OF this, of rpath None files "[]"] obtain f1 dirs K1 where
      s: "local_scan lpath rpath names None files [] K = Inr (True, f1, dirs, K1)" "same_fs K K1"
        "set f1 = set files \<union> scanned_files K lpath rpath names" "set dirs = scanned_dirs K lpath rpath names" by auto
    have "\<exists>r files' V'. local_build_list (ci_src d) (ci_dst d) (fs, V) = Inr (r, files', V') \<and> same_fs V V'
        \<and> set files' = set fs \<union> tree K (ci_src d) (ci_dst d)" if "d \<in> set dirs" "same_fs K V" for d fs V
    proof -
      note f = same_fs_fields [OF that(2)]
      have "Suc PATH_MAX - length (ci_src d) < Suc PATH_MAX - length lpath"
        using local_scan_dirs [OF s(1) that(1)] by simp arith
      moreover have "examined V (ci_src d)" using examined_below [OF less.prems Some, of d rpath] that(1) s(4) f(5) by simp
      ultimately show ?thesis using less.hyps [of "ci_src d" V "ci_dst d" fs] by (auto simp: f)
    qed
    then obtain f2 K2 where
      e: "each (\<lambda>ci S. rbind (local_build_list (ci_src ci) (ci_dst ci) S) (\<lambda>(_, S'). Inr S')) dirs (f1, K1) = Inr (f2, K2)"
        "same_fs K1 K2" "set f2 = set f1 \<union> (\<Union>d \<in> set dirs. tree K (ci_src d) (ci_dst d))" using each_dirs [of dirs K K1 f1, OF _ s(2)] by blast
    have "local_build_list lpath rpath (files, K) = Inr (0, f2, K2)" using Some s(1) e(1) by (simp add: local_build_list.simps)
    moreover have "set f2 = set files \<union> tree K lpath rpath" using e(3) s(3,4) by (auto simp: in_tree_iff [OF Some])
    ultimately show ?thesis using same_fs_trans [OF s(2) e(2)] Some by simp
  qed
qed

text \<open>Whatever can be examined, listing prints only messages, and no file is marked yet.\<close>

lemma local_scan_keeps:
  assumes "local_scan lpath rpath names st files dirs K = Inr (ok, files', dirs', K')"
  shows "same_fs K K' \<and> (\<forall>ci \<in> set files'. ci \<in> set files \<or> \<not> ci_flag ci)"
  using assms
proof (induction names arbitrary: st files dirs K)
  case (Cons name names)
  have step: "same_fs K K' \<and> (\<forall>ci \<in> set files'. ci \<in> set files \<or> \<not> ci_flag ci)"
    if "local_scan lpath rpath names st1 files1 dirs1 K1 = Inr (ok, files', dirs', K')" "same_fs K K1"
      "\<forall>ci \<in> set files1. ci \<in> set files \<or> \<not> ci_flag ci" for st1 files1 dirs1 K1
    using Cons.IH [OF that(1)] that(2,3) same_fs_trans by blast
  have new: "\<not> ci_flag (mkcopyinfo s d n i\<lparr>ci_time := t, ci_mode := m, ci_size := z\<rparr>)" for s d n i t m z
    by (simp add: mkcopyinfo_def Let_def)
  define st1 where "st1 = (case f_stat K (lpath @ name) of Some b \<Rightarrow> Some b | None \<Rightarrow> st)"
  note run = Cons.prems [unfolded local_scan.simps, folded st1_def]
  consider "\<not> usable lpath name" | b where "usable lpath name" "st1 = Some b" "S_ISDIR (st_mode b)"
    | b where "usable lpath name" "st1 = Some b" "\<not> S_ISDIR (st_mode b)"
    using run by (cases st1; cases "usable lpath name") (auto simp: usable_def Let_def split: if_splits)
  then show ?case
  proof cases
    case 1
    then have "local_scan lpath rpath names st files dirs K = Inr (ok, files', dirs', K')" using run by (auto simp: usable_def not_le split: if_splits)
    then show ?thesis by (rule step) auto
  next
    case (2 b)
    then have "local_scan lpath rpath names (Some b) files (mkcopyinfo lpath rpath name True # dirs) K = Inr (ok, files', dirs', K')"
      using run by (simp add: usable_def)
    then show ?thesis by (rule step) auto
  next
    case (3 b)
    then show ?thesis using run by (cases "f_lstat K (lpath @ name)") (auto simp: usable_def Let_def new split: if_splits dest!: step)
  qed
qed auto

lemma each_keeps:
  assumes "\<And>d files V r files' V'. d \<in> set ds \<Longrightarrow> local_build_list (ci_src d) (ci_dst d) (files, V) = Inr (r, files', V')
      \<Longrightarrow> same_fs V V' \<and> (\<forall>ci \<in> set files'. ci \<in> set files \<or> \<not> ci_flag ci)"
    "each (\<lambda>ci S. rbind (local_build_list (ci_src ci) (ci_dst ci) S) (\<lambda>(_, S'). Inr S')) ds (files, V) = Inr (files', V')"
  shows "same_fs V V' \<and> (\<forall>ci \<in> set files'. ci \<in> set files \<or> \<not> ci_flag ci)"
  using assms
proof (induction ds arbitrary: files V)
  case (Cons d ds)
  from Cons.prems(2) obtain r f1 V1 where b: "local_build_list (ci_src d) (ci_dst d) (files, V) = Inr (r, f1, V1)"
    and e: "each (\<lambda>ci S. rbind (local_build_list (ci_src ci) (ci_dst ci) S) (\<lambda>(_, S'). Inr S')) ds (f1, V1) = Inr (files', V')"
    by (auto simp: rbind_def split: sum.splits)
  have x: "same_fs V V1" "\<forall>ci \<in> set f1. ci \<in> set files \<or> \<not> ci_flag ci" using Cons.prems(1) [OF _ b] by simp_all
  have "same_fs V1 V' \<and> (\<forall>ci \<in> set files'. ci \<in> set f1 \<or> \<not> ci_flag ci)" by (rule Cons.IH [OF Cons.prems(1) e]) auto
  with x same_fs_trans show ?case by blast
qed auto

lemma local_build_list_keeps:
  assumes "local_build_list lpath rpath (files, K) = Inr (r, files', K')"
  shows "same_fs K K' \<and> (\<forall>ci \<in> set files'. ci \<in> set files \<or> \<not> ci_flag ci)"
  using assms
proof (induction "Suc PATH_MAX - length lpath" arbitrary: lpath rpath files K r files' K' rule: less_induct)
  case less
  show ?case
  proof (cases "f_dir K lpath")
    case None
    then show ?thesis using less.prems by (auto simp: local_build_list.simps)
  next
    case (Some names)
    with less.prems obtain ok f1 dirs K1 where s: "local_scan lpath rpath names None files [] K = Inr (ok, f1, dirs, K1)"
      by (auto simp: local_build_list.simps rbind_def split: sum.splits)
    note k = local_scan_keeps [OF s]
    show ?thesis
    proof (cases ok)
      case False
      then show ?thesis using less.prems Some s k by (auto simp: local_build_list.simps)
    next
      case True
      with less.prems Some s have e: "each (\<lambda>ci S. rbind (local_build_list (ci_src ci) (ci_dst ci) S) (\<lambda>(_, S'). Inr S')) dirs (f1, K1) = Inr (files', K')"
        by (auto simp: local_build_list.simps rbind_def split: sum.splits)
      have "same_fs K1 K' \<and> (\<forall>ci \<in> set files'. ci \<in> set f1 \<or> \<not> ci_flag ci)"
      proof (rule each_keeps [OF _ e])
        fix d fs V r' fs' V'
        assume d: "d \<in> set dirs" and b: "local_build_list (ci_src d) (ci_dst d) (fs, V) = Inr (r', fs', V')"
        have "Suc PATH_MAX - length (ci_src d) < Suc PATH_MAX - length lpath" using local_scan_dirs [OF s d] by simp arith
        from less.hyps [OF this b] show "same_fs V V' \<and> (\<forall>ci \<in> set fs'. ci \<in> set fs \<or> \<not> ci_flag ci)" .
      qed
      with k show ?thesis by (blast intro: same_fs_trans)
    qed
  qed
qed

section \<open>Deciding what to push\<close>

text \<open>The device's answers to the status requests: time, mode and size of each file.\<close>

definition stat_reply :: "u32 \<times> u32 \<times> u32 \<Rightarrow> bytes" where
  "stat_reply s = (case s of (timestamp, mode, sz) \<Rightarrow> le32 ID_STAT @ le32 mode @ le32 sz @ le32 timestamp)"

definition stat_request :: "copyinfo \<Rightarrow> bytes" where
  "stat_request ci = msg2 ID_STAT (of_nat (length (ci_dst ci))) @ ci_dst ci"

definition flagged :: "u32 \<times> u32 \<times> u32 \<Rightarrow> copyinfo \<Rightarrow> copyinfo" where
  "flagged s ci = (if up_to_date s ci then ci\<lparr>ci_flag := True\<rparr> else ci)"

lemma field_stat [simp]:
  "field 0 (le32 a @ le32 b @ le32 c @ le32 d) = a" "field 1 (le32 a @ le32 b @ le32 c @ le32 d) = b"
  "field 2 (le32 a @ le32 b @ le32 c @ le32 d) = c" "field 3 (le32 a @ le32 b @ le32 c @ le32 d) = d"
  using un_le32_le32 [of d "[]"] by (simp_all add: field_def drop_le32)

lemma start_loop_sends:
  assumes "start_loop fd cis K = (True, K')"
  shows "c_sent (conn K') fd = c_sent (conn K) fd @ concat (map stat_request cis) \<and> c_incoming (conn K') = c_incoming (conn K)
    \<and> K' = K\<lparr>conn := conn K'\<rparr>"
  using assms
proof (induction cis arbitrary: K)
  case (Cons ci cis)
  then obtain K1 where s: "sync_request fd ID_STAT (ci_dst ci) K = (False, K1)" and l: "start_loop fd cis K1 = (True, K')"
    by (auto simp: sync_start_readtime_def split: prod.splits if_splits)
  note a = sync_request_ok [OF s] and b = Cons.IH [OF l]
  have "K' = K\<lparr>conn := conn K'\<rparr>" using a(3) b by (metis copier.update_convs(1) copier.surjective)
  with a(1,2) b show ?case by (simp add: stat_request_def)
qed simp

lemma finish_loop_reads:
  assumes "readable (c_incoming (conn K) fd) = concat (map stat_reply ss) @ rest" "length ss = length cis"
  shows "\<exists>K'. finish_loop fd cis K = (Some (map2 flagged ss cis), K') \<and> readable (c_incoming (conn K') fd) = rest
    \<and> c_sent (conn K') = c_sent (conn K) \<and> said K' = said K"
  using assms
proof (induction cis arbitrary: ss K)
  case (Cons ci cis)
  then obtain s ss' where ss: "ss = s # ss'" by (cases ss) auto
  obtain timestamp mode sz where s: "s = (timestamp, mode, sz)" by (cases s)
  let ?m = "le32 ID_STAT @ le32 mode @ le32 sz @ le32 timestamp"
  have "readable (c_incoming (conn K) fd) = ?m @ concat (map stat_reply ss') @ rest"
    using Cons.prems(1) by (simp add: ss stat_reply_def [of s, unfolded s] s)
  from k_readx_exact [OF this, of sizeof_stat] obtain q where q: "k_readx fd sizeof_stat K =
    (0, ?m, K\<lparr>conn := (conn K)\<lparr>c_incoming := (c_incoming (conn K))(fd := q)\<rparr>\<rparr>)" "readable q = concat (map stat_reply ss') @ rest"
    by (auto simp: sizeof_stat_def)
  define K1 where "K1 = K\<lparr>conn := (conn K)\<lparr>c_incoming := (c_incoming (conn K))(fd := q)\<rparr>\<rparr>"
  have f: "sync_finish_readtime fd K = (Some s, K1)"
    using q(1) by (simp add: sync_finish_readtime_def K1_def [symmetric] s del: One_nat_def)
  from Cons.IH [of K1 ss'] q(2) Cons.prems(2) obtain K' where "finish_loop fd cis K1 = (Some (map2 flagged ss' cis), K')"
    "readable (c_incoming (conn K') fd) = rest" "c_sent (conn K') = c_sent (conn K1)" "said K' = said K1" by (auto simp: K1_def ss)
  with f show ?case by (simp add: ss flagged_def K1_def)
qed simp

definition would_push :: "copyinfo \<Rightarrow> string" where
  "would_push ci = ''would push: '' @ ci_src ci @ '' -> '' @ ci_dst ci"

lemma push_loop_listonly:
  "push_loop zl fd True cis n m K = Inr (0, K\<lparr>said := said K @ map would_push (filter (\<lambda>ci. \<not> ci_flag ci) cis)
     @ [summary_line ''pushed'' (n + length (filter (\<lambda>ci. \<not> ci_flag ci) cis)) (m + length (filter ci_flag cis))]\<rparr>)"
  by (induction cis arbitrary: n m K) (simp_all add: say_def would_push_def Let_def)

lemma filter_flagged:
  assumes "length ss = length cis" "\<forall>ci \<in> set cis. \<not> ci_flag ci"
  shows "map would_push (filter (\<lambda>ci. \<not> ci_flag ci) (map2 flagged ss cis)) = map (\<lambda>(s, ci). would_push ci) (filter (\<lambda>(s, ci). \<not> up_to_date s ci) (zip ss cis))"
    "length (filter (\<lambda>ci. \<not> ci_flag ci) (map2 flagged ss cis)) = length (filter (\<lambda>(s, ci). \<not> up_to_date s ci) (zip ss cis))"
    "length (filter ci_flag (map2 flagged ss cis)) = length (filter (\<lambda>(s, ci). up_to_date s ci) (zip ss cis))"
  using assms by (induction ss cis rule: list_induct2) (auto simp: flagged_def)

section \<open>Properties\<close>

text \<open>C16: The list of local files is complete. If the directory can be read, \<^verbatim>\<open>stat\<close> succeeds on every entry that is visited and
  \<^verbatim>\<open>lstat\<close> on those that are not directories (so there are no links that lead nowhere or in circles), \<^verbatim>\<open>local_build_list\<close> returns 0, and the list
  holds exactly the regular files and links below the directory, each paired with the same relative path on the device. Special files,
  entries whose path is longer than \<^verbatim>\<open>PATH_MAX\<close> and what is below directories that cannot be read are left out, and that does not change
  the result; apart from messages nothing is changed.\<close>

theorem local_list_is_tree:
  assumes "examined K lpath" "f_dir K lpath \<noteq> None"
  shows "\<exists>files K'. local_build_list lpath rpath ([], K) = Inr (0, files, K')
    \<and> set files = {ci. in_tree (f_dir K) (f_stat K) (f_lstat K) lpath rpath ci} \<and> K' = K\<lparr>said := said K'\<rparr>"
  using local_build_list_tree [OF assms(1), of rpath "[]"] assms(2) by (auto simp: same_fs_def)

text \<open>A local tree \<^verbatim>\<open>d/\<close> with a file, a link and an empty directory.\<close>

definition demo_tree :: copier where
  "demo_tree = demo_copier\<lparr>f_dir := [''d/'' \<mapsto> [''.'', ''a'', ''s'', ''l''], ''d/s/'' \<mapsto> [''..'']],
     f_stat := [''d/a'' \<mapsto> \<lparr>st_mode = 0x8000, st_mtime = 7, st_size = 3\<rparr>, ''d/s'' \<mapsto> \<lparr>st_mode = 0x4000, st_mtime = 7, st_size = 3\<rparr>,
       ''d/l'' \<mapsto> \<lparr>st_mode = 0x8000, st_mtime = 7, st_size = 3\<rparr>],
     f_lstat := [''d/a'' \<mapsto> \<lparr>st_mode = 0x8000, st_mtime = 7, st_size = 3\<rparr>, ''d/l'' \<mapsto> \<lparr>st_mode = 0xA000, st_mtime = 7, st_size = 3\<rparr>]\<rparr>"

lemma demo_tree_entries:
  assumes "f_dir demo_tree p = Some names"
  shows "entries_ok demo_tree p names"
  using assms by (auto simp: demo_tree_def entries_ok_def usable_def S_ISDIR_def split: if_splits)

theorem local_list_is_tree_witness:
  "\<exists>files K'. local_build_list ''d/'' ''/r/'' ([], demo_tree) = Inr (0, files, K')
     \<and> file_node ''d/'' ''/r/'' ''a'' \<lparr>st_mode = 0x8000, st_mtime = 7, st_size = 3\<rparr> \<in> set files"
proof -
  have "examined demo_tree ''d/''" "f_dir demo_tree ''d/'' \<noteq> None" using demo_tree_entries by (simp_all add: demo_tree_def examined_def)
  from local_list_is_tree [OF this, of "''/r/''"] obtain files K' where
    l: "local_build_list ''d/'' ''/r/'' ([], demo_tree) = Inr (0, files, K')"
      "set files = {ci. in_tree (f_dir demo_tree) (f_stat demo_tree) (f_lstat demo_tree) ''d/'' ''/r/'' ci}" by blast
  have "in_tree (f_dir demo_tree) (f_stat demo_tree) (f_lstat demo_tree) ''d/'' ''/r/''
      (file_node ''d/'' ''/r/'' ''a'' \<lparr>st_mode = 0x8000, st_mtime = 7, st_size = 3\<rparr>)"
    by (rule in_file) (auto simp: demo_tree_def usable_def PATH_MAX_def S_ISDIR_def S_ISREG_def)
  with l show ?thesis by auto
qed

text \<open>C26: A dry run of \<^verbatim>\<open>sync\<close> reports exactly the files that differ. When the local files are listed and the device has
  answered the status requests, the command names, in the order of the list, the files whose size differs and those that are neither regular
  files of the same time nor links that are at least as new on the device, and counts them and the others correctly; the only bytes it
  sends are one \<^verbatim>\<open>STAT\<close> request for each file.\<close>

theorem sync_dry_run_reports_changes:
  assumes p: "lpath \<noteq> []" "rpath \<noteq> []"
    and l: "local_build_list (with_slash lpath) (with_slash rpath) ([], K) = Inr (0, files, K1)"
    and s: "start_loop fd files K1 = (True, K2)"
    and r: "readable (c_incoming (conn K1) fd) = concat (map stat_reply ss) @ rest" "length ss = length files"
  defines "differs \<equiv> \<lambda>((timestamp, mode, sz), ci). sz \<noteq> ci_size ci
    \<or> \<not> (S_ISREG (ci_mode ci AND mode) \<and> timestamp = ci_time ci) \<and> \<not> (S_ISLNK (ci_mode ci AND mode) \<and> ci_time ci \<le> timestamp)"
  shows "\<exists>K'. copy_local_dir_remote zl fd lpath rpath True True K = Inr (0, K')
    \<and> said K' = said K1 @ map (\<lambda>(s, ci). would_push ci) (filter differs (zip ss files))
       @ [summary_line ''pushed'' (length (filter differs (zip ss files))) (length (filter (\<lambda>x. \<not> differs x) (zip ss files)))]
    \<and> c_sent (conn K') fd = c_sent (conn K) fd @ concat (map stat_request files) \<and> readable (c_incoming (conn K') fd) = rest"
proof -
  from local_build_list_keeps [OF l] have t: "same_fs K K1" and nf: "\<forall>ci \<in> set files. \<not> ci_flag ci" by auto
  have d: "(\<lambda>(s, ci). \<not> up_to_date s ci) = differs" "(\<lambda>(s, ci). up_to_date s ci) = (\<lambda>x. \<not> differs x)"
    by (auto simp: differs_def up_to_date_def fun_eq_iff)
  from start_loop_sends [OF s] have st: "c_sent (conn K2) fd = c_sent (conn K1) fd @ concat (map stat_request files)"
    "c_incoming (conn K2) = c_incoming (conn K1)" "said K2 = said K1" by (auto dest: arg_cong [of _ _ said])
  from finish_loop_reads [of K2 fd ss rest files] r st(2) obtain K3 where
    f: "finish_loop fd files K2 = (Some (map2 flagged ss files), K3)" "readable (c_incoming (conn K3) fd) = rest"
      "c_sent (conn K3) = c_sent (conn K2)" "said K3 = said K2" by auto
  have "copy_local_dir_remote zl fd lpath rpath True True K = push_loop zl fd True (map2 flagged ss files) 0 0 K3"
    using p l s f(1) by (simp add: copy_local_dir_remote_def check_timestamps_def)
  then show ?thesis using f st same_fs_fields(4) [OF t] filter_flagged [OF r(2) nf, unfolded d] by (simp add: push_loop_listonly)
qed

text \<open>The tree \<^verbatim>\<open>d/\<close> with the file \<^verbatim>\<open>a\<close> only, which is older on the device.\<close>

definition demo_sync :: copier where
  "demo_sync = demo_tree\<lparr>f_dir := [''d/'' \<mapsto> [''a'']],
     conn := demo_client\<lparr>c_incoming := (\<lambda>_. [RData (stat_reply (6, 0x8000, 3))]), c_outgoing := (\<lambda>_. [WOk 100, WOk 100])\<rparr>\<rparr>"

theorem sync_dry_run_reports_changes_witness:
  "\<exists>K'. copy_local_dir_remote (\<lambda>_. None) 9 ''d'' ''/r'' True True demo_sync = Inr (0, K')
     \<and> said K' = [''would push: d/a -> /r/a'', ''1 file pushed. 0 files skipped.'']"
proof -
  let ?ci = "file_node ''d/'' ''/r/'' ''a'' \<lparr>st_mode = 0x8000, st_mtime = 7, st_size = 3\<rparr>"
  have w: "with_slash ''d'' = ''d/''" "with_slash ''/r'' = ''/r/''" by (simp_all add: with_slash_def snprintf_def)
  have "local_build_list ''d/'' ''/r/'' ([], demo_sync) = Inr (0, [?ci], demo_sync)"
    by (simp add: local_build_list.simps demo_sync_def demo_tree_def PATH_MAX_def S_ISDIR_def S_ISREG_def file_node_def mkcopyinfo_def
      snprintf_def Let_def)
  then have l: "local_build_list (with_slash ''d'') (with_slash ''/r'') ([], demo_sync) = Inr (0, [?ci], demo_sync)" by (simp only: w)
  have "fst (start_loop 9 [?ci] demo_sync)"
    by (simp add: sync_start_readtime_def send_eval demo_sync_def file_node_def)
  then obtain K2 where st: "start_loop 9 [?ci] demo_sync = (True, K2)" by (cases "start_loop 9 [?ci] demo_sync") auto
  have r: "readable (c_incoming (conn demo_sync) 9) = concat (map stat_reply [(6, 0x8000, 3)]) @ []" by (simp add: demo_sync_def)
  have "said demo_sync = []" by (simp add: demo_sync_def demo_tree_def demo_copier_def)
  moreover have "ci_time ?ci = 7" "ci_mode ?ci = 0x8000" "\<not> S_ISLNK 0x8000" by (simp_all add: file_node_def S_ISLNK_def)
  moreover have "would_push ?ci = ''would push: d/a -> /r/a''" by (simp add: would_push_def file_node_def)
  moreover have "summary_line ''pushed'' 1 0 = ''1 file pushed. 0 files skipped.''" by code_simp
  ultimately show ?thesis
    using sync_dry_run_reports_changes [OF _ _ l st r, of "\<lambda>_. None"] by auto
qed

end
