(* ===== verification/Commandline.thy ===== *)
theory Commandline
  imports File_Copy
begin

text \<open>
  The client's command line: commandline.c and console.c. The program's state is the connection and the local side of theory \<open>File_Copy\<close>;
  what is printed is collected in \<open>said\<close>, help texts excepted. What the commands ask of their environment (variables, the working
  directory, existing files, where the program is, \<^verbatim>\<open>load_file\<close> of the system library, the result of \<^verbatim>\<open>fork\<close>) is a parameter. A
  command's result is \<open>None\<close> if it does not return; \<open>Ret n\<close> is the value returned, \<open>Serve\<close> the call of \<^verbatim>\<open>adb_main\<close>. The
  commands that call \<^verbatim>\<open>do_cmd\<close>, which calls \<^verbatim>\<open>adb_commandline\<close> again, take it as the argument \<open>dc\<close>; \<open>adb_commandline\<close> has a bound on
  how deep these calls nest, and 2 is shown to be enough. The terminal's mode is not modelled.
\<close>

section \<open>Environment\<close>

record cmd_env =
  getenv :: "string \<Rightarrow> string option"
  cwd :: "string option"
  exists_file :: "string \<Rightarrow> bool"
  my_path :: string
  load_file :: "string \<Rightarrow> bytes option"
  fork_result :: int
  zip_file :: zip_lib

datatype cmd_end = Ret int | Serve bool int

type_synonym 'a run = "('a \<times> copier) res option"

definition obind :: "'a res option \<Rightarrow> ('a \<Rightarrow> 'b res option) \<Rightarrow> 'b res option" where
  "obind m f = (case m of None \<Rightarrow> None | Some (Inl e) \<Rightarrow> Some (Inl e) | Some (Inr a) \<Rightarrow> f a)"

lemma obind_simps [simp, res]: "obind None f = None" "obind (Some (Inl e)) f = Some (Inl e)" "obind (Some (Inr a)) f = f a"
  by (simp_all add: obind_def)

definition nonempty_env :: "cmd_env \<Rightarrow> string \<Rightarrow> string option" where
  "nonempty_env E v = (case getenv E v of Some [] \<Rightarrow> None | r \<Rightarrow> r)"

definition k_connect :: "string \<Rightarrow> copier \<Rightarrow> (int \<times> copier) res" where
  "k_connect service K = rbind (adb_connect service (conn K)) (\<lambda>(fd, C). Inr (fd, K\<lparr>conn := C\<rparr>))"

definition k_query :: "string \<Rightarrow> copier \<Rightarrow> (bytes option \<times> copier) res" where
  "k_query service K = rbind (adb_query service (conn K)) (\<lambda>(t, C). Inr (t, K\<lparr>conn := C\<rparr>))"

definition k_command :: "string \<Rightarrow> copier \<Rightarrow> (int \<times> copier) res" where
  "k_command service K = rbind (adb_command service (conn K)) (\<lambda>(r, C). Inr (r, K\<lparr>conn := C\<rparr>))"

definition show_error :: "copier \<Rightarrow> copier" where
  "show_error K = say (''error: '' @ adb_error (conn K)) K"

section \<open>Reading and copying\<close>

function dump_loop :: "rscript \<Rightarrow> bytes list \<times> rscript" where
  "dump_loop q =
     (case adb_read 4096 q of
        (Inr bs, q') \<Rightarrow> if bs = [] then ([], q') else (case dump_loop q' of (out, q2) \<Rightarrow> (bs # out, q2))
      | (Inl e, q') \<Rightarrow> if e = EINTR then dump_loop q' else ([], q'))"
  by pat_completeness auto
termination
  by (relation "measure script_weight") (auto dest!: sym [of "(_, _)"] adb_read_weight)

declare dump_loop.simps [simp del]

definition read_and_dump :: "int \<Rightarrow> copier \<Rightarrow> copier" where
  "read_and_dump fd K =
     (if fd < 0 then K
      else case dump_loop (c_incoming (conn K) fd) of
        (out, q) \<Rightarrow> say_all out (K\<lparr>conn := (conn K)\<lparr>c_incoming := (c_incoming (conn K))(fd := q)\<rparr>\<rparr>))"

text \<open>\<^verbatim>\<open>copy_to_file\<close> between two descriptors, each given by its script. The result of \<^verbatim>\<open>adb_write\<close> is ignored: what a short write leaves
  is lost.\<close>

function copy_to_file :: "rscript \<Rightarrow> wscript \<Rightarrow> bytes \<times> rscript \<times> wscript" where
  "copy_to_file q w =
     (case adb_read (32 * 1024) q of
        (Inr bs, q') \<Rightarrow>
          if bs = [] then ([], q', w)
          else (case adb_write (length bs) w of
              (r, w') \<Rightarrow>
                (case copy_to_file q' w' of
                   (out, q2, w2) \<Rightarrow> ((case r of Inr n \<Rightarrow> take n bs | Inl _ \<Rightarrow> []) @ out, q2, w2)))
      | (Inl e, q') \<Rightarrow> if e = EINTR then copy_to_file q' w else ([], q', w))"
  by pat_completeness auto
termination
  by (relation "measure (\<lambda>(q, w). script_weight q)") (auto dest!: sym [of "(_, _)"] adb_read_weight)

declare copy_to_file.simps [simp del]

section \<open>The interactive shell\<close>

text \<open>The escape sequence: a line that starts with \<^verbatim>\<open>~.\<close>. \<open>None\<close> is \<^verbatim>\<open>exit(0)\<close>.\<close>

fun escape_scan :: "nat \<Rightarrow> string \<Rightarrow> nat option" where
  "escape_scan st [] = Some st"
| "escape_scan st (c # cs) =
     (if c = NL \<or> c = CR then escape_scan 1 cs
      else if c = CHR ''~'' then escape_scan (if st = 1 then 2 else st) cs
      else if c = CHR ''.'' \<and> st = 2 then None
      else escape_scan 0 cs)"

text \<open>\<^verbatim>\<open>stdin_read_thread\<close>: the input's script, the connection's script and the bytes written to it. The block with the escape sequence is not
  sent. The result tells whether the program exits.\<close>

function stdin_loop :: "nat \<Rightarrow> rscript \<Rightarrow> wscript \<Rightarrow> bool \<times> bytes \<times> wscript" where
  "stdin_loop st q w =
     (case adb_read 1024 q of
        (Inr bs, q') \<Rightarrow>
          if bs = [] then (False, [], w)
          else (case escape_scan st bs of
              None \<Rightarrow> (True, [], w)
            | Some st' \<Rightarrow>
                (case adb_write (length bs) w of
                   (Inl e, w') \<Rightarrow> (False, [], w')
                 | (Inr n, w') \<Rightarrow>
                     if n = 0 then (False, [], w')
                     else (case stdin_loop st' q' w' of (ex, out, w2) \<Rightarrow> (ex, take n bs @ out, w2))))
      | (Inl e, q') \<Rightarrow> if e = EINTR then stdin_loop st q' w else (False, [], w))"
  by pat_completeness auto
termination
  by (relation "measure (\<lambda>(st, q, w). script_weight q)") (auto dest!: sym [of "(_, _)"] adb_read_weight)

declare stdin_loop.simps [simp del]

definition interactive_shell :: "copier \<Rightarrow> (int \<times> copier) res" where
  "interactive_shell K =
     rbind (k_connect ''shell:'' K) (\<lambda>(fd, K1).
       if fd < 0 then Inr (1, show_error K1) else Inr (0, read_and_dump fd K1))"

section \<open>Commands for the server\<close>

definition format_host_command :: "nat \<Rightarrow> string \<Rightarrow> transport_type \<Rightarrow> string option \<Rightarrow> string" where
  "format_host_command buflen cmd ttype ser =
     (case ser of
        Some s \<Rightarrow> snprintf buflen (''host-serial:'' @ s @ '':'' @ cmd)
      | None \<Rightarrow>
          let prefix = (if ttype = KTransportUsb then ''host-usb'' else if ttype = KTransportLocal then ''host-local'' else ''host'') in
          snprintf buflen (prefix @ '':'' @ cmd))"

definition query_and_print :: "string \<Rightarrow> copier \<Rightarrow> (int \<times> copier) res" where
  "query_and_print service K =
     rbind (k_query service K) (\<lambda>(tmp, K1). case tmp of Some t \<Rightarrow> Inr (0, say (c_str t) K1) | None \<Rightarrow> Inr (1, K1))"

definition cmd_devices :: "copier \<Rightarrow> (int \<times> copier) res" where
  "cmd_devices K =
     rbind (k_query (snprintf 4096 ''host:devices'') K) (\<lambda>(tmp, K1).
       case tmp of Some t \<Rightarrow> Inr (0, say (c_str t) (say ''List of devices attached '' K1)) | None \<Rightarrow> Inr (1, K1))"

definition cmd_connect :: "string list \<Rightarrow> copier \<Rightarrow> (int \<times> copier) res" where
  "cmd_connect args K =
     (case args of
        [a] \<Rightarrow> query_and_print (snprintf 4096 (''host:connect:'' @ a)) K
      | _ \<Rightarrow> Inr (1, say ''Usage: adb connect <host>[:<port>]'' K))"

definition cmd_disconnect :: "string list \<Rightarrow> copier \<Rightarrow> (int \<times> copier) res" where
  "cmd_disconnect args K =
     (case args of
        [] \<Rightarrow> query_and_print (snprintf 4096 ''host:disconnect:'') K
      | [a] \<Rightarrow> query_and_print (snprintf 4096 (''host:disconnect:'' @ a)) K
      | _ \<Rightarrow> Inr (1, say ''Usage: adb disconnect [<host>[:<port>]]'' K))"

text \<open>Only -1 is taken for a failure; a server that is not running yields -2.\<close>

definition cmd_kill_server :: "copier \<Rightarrow> (int \<times> copier) res" where
  "cmd_kill_server K =
     (case adb_connect1 ''host:kill'' (conn K) of
        (fd, C) \<Rightarrow> let K1 = K\<lparr>conn := C\<rparr> in if fd = -1 then Inr (1, say ''* server not running *'' K1) else Inr (0, K1))"

definition cmd_forward :: "transport_type \<Rightarrow> string option \<Rightarrow> string list \<Rightarrow> copier \<Rightarrow> (int \<times> copier) res" where
  "cmd_forward ttype ser args K =
     (case args of
        [a, b] \<Rightarrow>
          let buf = snprintf 4096 ((case ser of Some s \<Rightarrow> ''host-serial:'' @ s
                | None \<Rightarrow> if ttype = KTransportUsb then ''host-usb'' else if ttype = KTransportLocal then ''host-local'' else ''host'')
              @ '':forward:'' @ a @ '';'' @ b) in
          rbind (k_command buf K) (\<lambda>(r, K1). if r \<noteq> 0 then Inr (1, show_error K1) else Inr (0, K1))
      | _ \<Rightarrow> Inr (1, K))"

definition wait_service :: "transport_type \<Rightarrow> string \<Rightarrow> string" where
  "wait_service ttype service =
     (if starts_with ''wait-for-device'' service then
        if ttype = KTransportUsb then ''wait-for-usb'' else if ttype = KTransportLocal then ''wait-for-local'' else ''wait-for-any''
      else service)"

definition cmd_wait_for :: "transport_type \<Rightarrow> string option \<Rightarrow> string \<Rightarrow> copier \<Rightarrow> (int \<times> copier) res" where
  "cmd_wait_for ttype ser service K =
     rbind (k_command (format_host_command 4096 (wait_service ttype service) ttype ser) K) (\<lambda>(r, K1).
       if r \<noteq> 0 then Inr (1, show_error K1) else Inr (0, K1))"

definition reboot_service :: "string \<Rightarrow> string list \<Rightarrow> string" where
  "reboot_service c args =
     snprintf 100 (if c = ''reboot-bootloader'' then ''reboot:bootloader''
       else case args of [] \<Rightarrow> c @ '':'' | a # _ \<Rightarrow> c @ '':'' @ a)"

definition connect_and_dump :: "string \<Rightarrow> int \<Rightarrow> copier \<Rightarrow> (int \<times> copier) res" where
  "connect_and_dump service failed K =
     rbind (k_connect service K) (\<lambda>(fd, K1).
       if 0 \<le> fd then Inr (0, k_close fd (read_and_dump fd K1)) else Inr (failed, show_error K1))"

section \<open>Modifiers and flags\<close>

definition is_absolute :: "string \<Rightarrow> bool" where
  "is_absolute p \<longleftrightarrow> p \<noteq> [] \<and> hd p = CHR ''/''"

definition top_works :: "cmd_env \<Rightarrow> string \<Rightarrow> bool" where
  "top_works E tp \<longleftrightarrow> is_absolute tp \<and> exists_file E (snprintf PATH_MAX (tp @ ''/config/envsetup.make''))"

text \<open>The path without its last component and slash; \<open>None\<close> if there is no slash.\<close>

definition parent_dir :: "string \<Rightarrow> string option" where
  "parent_dir p = (if CHR ''/'' \<in> set p then Some (rev (tl (dropWhile (\<lambda>c. c \<noteq> CHR ''/'') (rev p)))) else None)"

lemma parent_dir_shorter: "parent_dir p = Some d \<Longrightarrow> length d < length p"
proof -
  assume "parent_dir p = Some d"
  then have d: "length d = length (tl (dropWhile (\<lambda>c. c \<noteq> CHR ''/'') (rev p)))" "p \<noteq> []" by (auto simp: parent_dir_def split: if_splits)
  have "length (dropWhile (\<lambda>c. c \<noteq> CHR ''/'') (rev p)) \<le> length p" using length_dropWhile_le [of _ "rev p"] by simp
  with d show ?thesis by (cases "dropWhile (\<lambda>c. c \<noteq> CHR ''/'') (rev p)") auto
qed

function find_top_from :: "cmd_env \<Rightarrow> string \<Rightarrow> string option" where
  "find_top_from E path =
     (if top_works E path then Some path
      else case parent_dir path of None \<Rightarrow> None | Some d \<Rightarrow> find_top_from E d)"
  by pat_completeness auto
termination
  by (relation "measure (\<lambda>(E, path). length path)") (auto dest: parent_dir_shorter)

declare find_top_from.simps [simp del]

definition check_top :: "cmd_env \<Rightarrow> string \<Rightarrow> string \<Rightarrow> copier \<Rightarrow> (string option \<times> copier) res" where
  "check_top E var tp K =
     (if top_works E tp then if PATH_MAX \<le> length tp then Inl BufferOverflow else Inr (Some tp, K)
      else Inr (None, say (''adb: bad '' @ var @ '' value '' @ [DQUOTE] @ tp @ [DQUOTE]) K))"

definition find_top :: "cmd_env \<Rightarrow> copier \<Rightarrow> (string option \<times> copier) res" where
  "find_top E K =
     (case nonempty_env E ''ANDROID_BUILD_TOP'' of
        Some tp \<Rightarrow> check_top E ''ANDROID_BUILD_TOP'' tp K
      | None \<Rightarrow>
          (case nonempty_env E ''TOP'' of
             Some tp \<Rightarrow> check_top E ''TOP'' tp K
           | None \<Rightarrow>
               (case cwd E of
                  None \<Rightarrow> Inl NullDeref
                | Some dir \<Rightarrow>
                    (case find_top_from E dir of
                       Some tp \<Rightarrow> Inr (Some tp, K)
                     | None \<Rightarrow> Inr (find_top_from E (my_path E), K)))))"

definition find_product_out_path :: "cmd_env \<Rightarrow> string \<Rightarrow> copier \<Rightarrow> (string option \<times> copier) res" where
  "find_product_out_path E hint K =
     (if hint = [] then Inr (None, K)
      else if is_absolute hint then
        if PATH_MAX \<le> length hint then Inl BufferOverflow else Inr (Some hint, K)
      else if CHR ''/'' \<in> set hint then
        (case cwd E of
           None \<Rightarrow> Inr (None, say (''adb: Couldn'' @ [CHR 0x27] @ ''t get CWD: '' @ os_error K) K)
         | Some dir \<Rightarrow>
             if PATH_MAX \<le> length dir + 1 + length hint then Inr (None, say (''adb: Couldn'' @ [CHR 0x27] @ ''t assemble path'') K)
             else Inr (Some (dir @ ''/'' @ hint), K))
      else
        rbind (find_top E K) (\<lambda>(tp, K1).
          case tp of
            None \<Rightarrow> Inr (None, say (''adb: Couldn'' @ [CHR 0x27] @ ''t find top of build tree'') K1)
          | Some t \<Rightarrow>
              let p = snprintf PATH_MAX (t @ ''/out/target/product/'' @ hint) in
              if exists_file E p then Inr (Some p, K1)
              else Inr (None, say (''adb: Couldn'' @ [CHR 0x27] @ ''t find a product dir based on '' @ [DQUOTE] @ ''-p '' @ hint @ [DQUOTE] @ ''; ''
                @ [DQUOTE] @ p @ [DQUOTE] @ '' doesn'' @ [CHR 0x27] @ ''t exist'') K1)))"

record opts =
  is_server :: bool
  no_daemon :: bool
  is_daemon :: bool
  persist :: bool
  ttype :: transport_type
  o_serial :: "string option"
  gProductOutPath :: "string option"
  server_port :: int

text \<open>What \<^verbatim>\<open>-pname\<close> is taken from: the third character on of the next argument.\<close>

definition attached_product :: "string list \<Rightarrow> string res" where
  "attached_product rest =
     (case rest of
        [] \<Rightarrow> Inl NullDeref
      | a # _ \<Rightarrow> if length a < 2 then Inl UninitRead else Inr (drop 2 a))"

definition set_product_path :: "cmd_env \<Rightarrow> string \<Rightarrow> opts \<Rightarrow> copier \<Rightarrow> (opts option \<times> copier) res" where
  "set_product_path E p O' K =
     rbind (find_product_out_path E p K) (\<lambda>(r, K1).
       case r of
         None \<Rightarrow> Inr (None, say (''adb: could not resolve '' @ [DQUOTE] @ ''-p '' @ p @ [DQUOTE]) K1)
       | Some d \<Rightarrow> Inr (Some (O'\<lparr>gProductOutPath := Some d\<rparr>), K1))"

text \<open>The loop over the flags; \<open>None\<close> is the usage message, otherwise the rest of the arguments is the command.\<close>

fun parse_flags :: "cmd_env \<Rightarrow> string list \<Rightarrow> opts \<Rightarrow> copier \<Rightarrow> ((opts \<times> string list) option \<times> copier) res" where
  "parse_flags E [] O' K = Inr (Some (O', []), K)"
| "parse_flags E (a # rest) O' K =
     (if a = ''server'' then parse_flags E rest (O'\<lparr>is_server := True\<rparr>) K
      else if a = ''nodaemon'' then parse_flags E rest (O'\<lparr>no_daemon := True\<rparr>) K
      else if a = ''fork-server'' then parse_flags E rest (O'\<lparr>is_daemon := True\<rparr>) K
      else if a = ''persist'' then parse_flags E rest (O'\<lparr>persist := True\<rparr>) K
      else if starts_with ''-p'' a then
        if a = ''-p'' then
          (case rest of
             [] \<Rightarrow> Inr (None, K)
           | p # rest' \<Rightarrow>
               rbind (set_product_path E p O' K) (\<lambda>(o1, K1). case o1 of None \<Rightarrow> Inr (None, K1) | Some O1 \<Rightarrow> parse_flags E rest' O1 K1))
        else
          rbind (attached_product rest) (\<lambda>p.
          rbind (set_product_path E p O' K) (\<lambda>(o1, K1). case o1 of None \<Rightarrow> Inr (None, K1) | Some O1 \<Rightarrow> parse_flags E rest O1 K1))
      else if starts_with ''-s'' a then
        if 2 < length a \<and> isdigit (a ! 2) then parse_flags E rest (O'\<lparr>o_serial := Some (drop 2 a)\<rparr>) K
        else (case rest of
            [] \<Rightarrow> Inr (None, K)
          | s # rest' \<Rightarrow> if a \<noteq> ''-s'' then Inr (None, K) else parse_flags E rest' (O'\<lparr>o_serial := Some s\<rparr>) K)
      else if a = ''-d'' then parse_flags E rest (O'\<lparr>ttype := KTransportUsb\<rparr>) K
      else if a = ''-e'' then parse_flags E rest (O'\<lparr>ttype := KTransportLocal\<rparr>) K
      else Inr (Some (O', a # rest), K))"

text \<open>The beginning of \<^verbatim>\<open>adb_commandline\<close>: the environment, the flags, and the settings of the client.\<close>

definition env_port :: "cmd_env \<Rightarrow> int option" where
  "env_port E =
     (case nonempty_env E ''ANDROID_ADB_SERVER_PORT'' of
        None \<Rightarrow> Some DEFAULT_ADB_PORT
      | Some s \<Rightarrow> if strtol 0 s \<le> 0 then None else Some (strtol 0 s))"

definition commandline_start :: "cmd_env \<Rightarrow> string list \<Rightarrow> copier \<Rightarrow> ((opts \<times> string list) option \<times> copier) res" where
  "commandline_start E args K =
     (case env_port E of
        None \<Rightarrow> Inr (None, say (''adb: Env var ANDROID_ADB_SERVER_PORT must be a positive number. Got '' @ [DQUOTE]
           @ the (getenv E ''ANDROID_ADB_SERVER_PORT'') @ [DQUOTE]) K)
      | Some port \<Rightarrow>
          rbind (parse_flags E args \<lparr>is_server = False, no_daemon = False, is_daemon = False, persist = False, ttype = KTransportAny,
              o_serial = getenv E ''ANDROID_SERIAL'', gProductOutPath = nonempty_env E ''ANDROID_PRODUCT_OUT'', server_port = port\<rparr> K) (\<lambda>(r, K1).
            case r of
              None \<Rightarrow> Inr (None, K1)
            | Some (O', rest) \<Rightarrow>
                Inr (Some (O', rest), K1\<lparr>conn := adb_set_tcp_specifics port (adb_set_transport (ttype O') (o_serial O') (conn K1))\<rparr>)))"

definition do_cmd_args :: "transport_type \<Rightarrow> string option \<Rightarrow> string list \<Rightarrow> string list" where
  "do_cmd_args tt ser cmd =
     (case ser of
        Some s \<Rightarrow> [''-s'', s]
      | None \<Rightarrow> if tt = KTransportUsb then [''-d''] else if tt = KTransportLocal then [''-e''] else []) @ cmd"

type_synonym do_cmd_fn = "transport_type \<Rightarrow> string option \<Rightarrow> string list \<Rightarrow> copier \<Rightarrow> cmd_end run"

text \<open>\<^verbatim>\<open>do_cmd\<close>; \<open>cl\<close> is \<^verbatim>\<open>adb_commandline\<close>.\<close>

definition do_cmd :: "(string list \<Rightarrow> copier \<Rightarrow> cmd_end run) \<Rightarrow> do_cmd_fn" where
  "do_cmd cl tt ser cmd K = cl (do_cmd_args tt ser cmd) K"

section \<open>Commands for the device's shell\<close>

text \<open>\<^verbatim>\<open>dupAndQuote\<close>.\<close>

definition needs_quote :: "char \<Rightarrow> bool" where
  "needs_quote c \<longleftrightarrow> c = CHR '' '' \<or> c = DQUOTE \<or> c = BACKSLASH \<or> c = CHR ''('' \<or> c = CHR '')''"

fun dupAndQuote :: "string \<Rightarrow> string" where
  "dupAndQuote [] = []"
| "dupAndQuote (c # cs) = (if needs_quote c then [BACKSLASH, c] else [c]) @ dupAndQuote cs"

text \<open>\<^verbatim>\<open>strcat\<close> and \<^verbatim>\<open>strncat(buf, s, sizeof(buf)-1)\<close> on a buffer of 4096 bytes; the bound of the latter is on \<open>s\<close>, not on what is left.\<close>

definition buf_cat :: "string \<Rightarrow> string \<Rightarrow> string res" where
  "buf_cat buf s = (if 4096 \<le> length buf + length s then Inl BufferOverflow else Inr (buf @ s))"

definition buf_ncat :: "string \<Rightarrow> string \<Rightarrow> string res" where
  "buf_ncat buf s = buf_cat buf (take 4095 s)"

fun shell_words :: "string \<Rightarrow> string list \<Rightarrow> string res" where
  "shell_words buf [] = Inr buf"
| "shell_words buf (a # as) =
     (let q = (if a = [] \<or> CHR '' '' \<in> set a then [DQUOTE] else []) in
      rbind (buf_cat buf ('' '' @ q @ a @ q)) (\<lambda>b. shell_words b as))"

fun quoted_words :: "string \<Rightarrow> string list \<Rightarrow> string res" where
  "quoted_words buf [] = Inr buf"
| "quoted_words buf (a # as) =
     rbind (buf_ncat buf '' '') (\<lambda>b. rbind (buf_ncat b (dupAndQuote a)) (\<lambda>b. quoted_words b as))"

partial_function (option) shell_loop :: "do_cmd_fn \<Rightarrow> opts \<Rightarrow> string \<Rightarrow> copier \<Rightarrow> int run" where
  "shell_loop dc O' buf K =
     (case connect_and_dump buf (-1) K of
        Inl e \<Rightarrow> Some (Inl e)
      | Inr (r, K1) \<Rightarrow>
          if persist O' then
            (case dc (ttype O') (o_serial O') [''wait-for-device''] (say ''- waiting for device -'' K1) of
               None \<Rightarrow> None
             | Some (Inl e) \<Rightarrow> Some (Inl e)
             | Some (Inr (_, K2)) \<Rightarrow> shell_loop dc O' buf K2)
          else Some (Inr (r, K1)))"

text \<open>\<open>h\<close> is set for the command \<^verbatim>\<open>hell\<close>, which colours the output.\<close>

definition cmd_shell :: "do_cmd_fn \<Rightarrow> opts \<Rightarrow> bool \<Rightarrow> string list \<Rightarrow> copier \<Rightarrow> int run" where
  "cmd_shell dc O' h args K =
     (let K0 = (if h then say (CHR 0x1B # ''[41;33m'') K else K) in
      obind
        (case args of
           [] \<Rightarrow> Some (interactive_shell K0)
         | a # as \<Rightarrow> obind (Some (shell_words (snprintf 4096 (''shell:'' @ a)) as)) (\<lambda>buf. shell_loop dc O' buf K0))
        (\<lambda>(r, K1). Some (Inr (r, if h then say (CHR 0x1B # ''[0m'') K1 else K1))))"

partial_function (option) send_shellcommand :: "do_cmd_fn \<Rightarrow> transport_type \<Rightarrow> string option \<Rightarrow> string \<Rightarrow> copier \<Rightarrow> int run" where
  "send_shellcommand dc tt ser buf K =
     (case k_connect buf K of
        Inl e \<Rightarrow> Some (Inl e)
      | Inr (fd, K1) \<Rightarrow>
          if 0 \<le> fd then Some (Inr (0, k_close fd (read_and_dump fd K1)))
          else (case dc tt ser [''wait-for-device''] (say ''- waiting for device -'' K1) of
              None \<Rightarrow> None
            | Some (Inl e) \<Rightarrow> Some (Inl e)
            | Some (Inr (_, K2)) \<Rightarrow> send_shellcommand dc tt ser buf K2))"

definition logcat :: "do_cmd_fn \<Rightarrow> cmd_env \<Rightarrow> opts \<Rightarrow> string \<Rightarrow> string list \<Rightarrow> copier \<Rightarrow> int run" where
  "logcat dc E O' c args K =
     (let tags = dupAndQuote (case getenv E ''ANDROID_LOG_TAGS'' of None \<Rightarrow> [] | Some t \<Rightarrow> t);
          buf = snprintf 4096 (''shell:export ANDROID_LOG_TAGS='' @ [DQUOTE] @ tags @ [DQUOTE] @ '' ; exec logcat'') in
      obind (Some (if c = ''longcat'' then buf_ncat buf '' -v long'' else Inr buf)) (\<lambda>b.
      obind (Some (quoted_words b args)) (\<lambda>b.
      obind (send_shellcommand dc (ttype O') (o_serial O') b K) (\<lambda>(_, K1). Some (Inr (0, K1))))))"

definition pm_command :: "do_cmd_fn \<Rightarrow> opts \<Rightarrow> string list \<Rightarrow> copier \<Rightarrow> int run" where
  "pm_command dc O' argv K =
     obind (Some (quoted_words ''shell:pm'' argv)) (\<lambda>b.
     obind (send_shellcommand dc (ttype O') (o_serial O') b K) (\<lambda>(_, K1). Some (Inr (0, K1))))"

definition uninstall_app :: "do_cmd_fn \<Rightarrow> opts \<Rightarrow> string list \<Rightarrow> copier \<Rightarrow> int run" where
  "uninstall_app dc O' argv K =
     (if length argv = 3 \<and> argv ! 1 = ''-k'' then Some (Inr (-1, K)) else pm_command dc O' argv K)"

definition delete_file :: "do_cmd_fn \<Rightarrow> opts \<Rightarrow> string \<Rightarrow> copier \<Rightarrow> int run" where
  "delete_file dc O' filename K =
     obind (Some (buf_ncat ''shell:rm '' (dupAndQuote filename))) (\<lambda>b.
     obind (send_shellcommand dc (ttype O') (o_serial O') b K) (\<lambda>(_, K1). Some (Inr (0, K1))))"

definition check_file :: "string \<Rightarrow> copier \<Rightarrow> bool \<times> copier" where
  "check_file filename K =
     (case f_stat K filename of
        None \<Rightarrow> (False, say (''can'' @ [CHR 0x27] @ ''t find '' @ quoted filename @ '' to install'') K)
      | Some st \<Rightarrow>
          if \<not> S_ISREG (st_mode st)
          then (False, say (''can'' @ [CHR 0x27] @ ''t install '' @ quoted filename @ '' because it'' @ [CHR 0x27] @ ''s not a file'') K)
          else (True, K))"

text \<open>The loop over the arguments of \<^verbatim>\<open>install\<close>: where the file name is, whether it goes to the card, whether the package is verified.\<close>

fun install_args :: "nat \<Rightarrow> string list \<Rightarrow> bool \<Rightarrow> bool \<Rightarrow> nat option \<times> bool \<times> bool" where
  "install_args i [] sd verify = (None, sd, verify)"
| "install_args i (a # as) sd verify =
     (if \<not> starts_with ''-'' a then (Some i, sd, verify)
      else if a = ''-i'' then (case as of [] \<Rightarrow> (None, sd, verify) | _ # as' \<Rightarrow> install_args (i + 2) as' sd verify)
      else if a = ''-s'' then install_args (i + 1) as True verify
      else if a = ''--algo'' \<or> a = ''--iv'' \<or> a = ''--key'' then
        (case as of [] \<Rightarrow> (None, sd, False) | _ # as' \<Rightarrow> install_args (i + 2) as' sd False)
      else install_args (i + 1) as sd verify)"

definition install_dest :: "bool \<Rightarrow> string \<Rightarrow> string" where
  "install_dest sd file = snprintf PATH_MAX ((if sd then ''/sdcard/tmp/'' else ''/data/local/tmp/'') @ base_name file)"

definition cleanup_apk :: "do_cmd_fn \<Rightarrow> opts \<Rightarrow> string option \<Rightarrow> string \<Rightarrow> int \<Rightarrow> copier \<Rightarrow> int run" where
  "cleanup_apk dc O' vdest apk_dest err K =
     obind (case vdest of None \<Rightarrow> Some (Inr (0, K)) | Some v \<Rightarrow> delete_file dc O' v K) (\<lambda>(_, K1).
     obind (delete_file dc O' apk_dest K1) (\<lambda>(_, K2). Some (Inr (err, K2))))"

text \<open>The files are pushed, the package manager is started on the copies, and the copies are deleted whatever happened.\<close>

definition install_push :: "do_cmd_fn \<Rightarrow> cmd_env \<Rightarrow> opts \<Rightarrow> string list \<Rightarrow> nat \<Rightarrow> bool \<Rightarrow> string \<Rightarrow> (string \<times> string) option \<Rightarrow> copier \<Rightarrow> int run" where
  "install_push dc E O' argv i verify apk_dest v K =
     obind (Some (do_sync_push (zip_file E) (argv ! i) apk_dest verify K)) (\<lambda>(err, K1).
       if err \<noteq> 0 then cleanup_apk dc O' (map_option snd v) apk_dest err K1
       else
         let argv1 = argv[i := apk_dest] in
         obind (case v of
             None \<Rightarrow> Some (Inr ((0, argv1), K1))
           | Some (vfile, vdest) \<Rightarrow>
               obind (Some (do_sync_push (zip_file E) vfile vdest False K1)) (\<lambda>(err, K2).
                 Some (Inr ((err, argv1[i + 1 := vdest]), K2)))) (\<lambda>((err, argv2), K2).
           if err \<noteq> 0 then cleanup_apk dc O' (map_option snd v) apk_dest err K2
           else obind (pm_command dc O' argv2 K2) (\<lambda>(_, K3). cleanup_apk dc O' (map_option snd v) apk_dest err K3)))"

definition install_app :: "do_cmd_fn \<Rightarrow> cmd_env \<Rightarrow> opts \<Rightarrow> string list \<Rightarrow> copier \<Rightarrow> int run" where
  "install_app dc E O' argv K =
     (case install_args 1 (tl argv) False True of
        (None, _, _) \<Rightarrow> Some (Inr (1, say (''can'' @ [CHR 0x27] @ ''t find filename in arguments'') K))
      | (Some i, sd, verify) \<Rightarrow>
          if i + 2 < length argv then Some (Inr (1, say ''too many files specified; only takes APK file and verifier file'' K))
          else
            let vfile = (if i \<noteq> length argv - 1 then Some (argv ! (i + 1)) else None) in
            (case check_file (argv ! i) K of
               (ok, K1) \<Rightarrow>
                 if \<not> ok then Some (Inr (1, K1))
                 else case (case vfile of None \<Rightarrow> (True, K1) | Some f \<Rightarrow> check_file f K1) of
                   (ok, K2) \<Rightarrow>
                     if \<not> ok then Some (Inr (1, K2))
                     else
                       let dest = install_dest sd (argv ! i); v = map_option (\<lambda>f. (f, install_dest sd f)) vfile in
                       if map_option snd v = Some dest
                       then Some (Inr (1, say (''APK and verification file can'' @ [CHR 0x27] @ ''t have the same name'') K2))
                       else install_push dc E O' argv i verify dest v K2))"

section \<open>Other commands\<close>

text \<open>console.c: each argument is written by a single \<^verbatim>\<open>adb_write\<close> whose result is ignored.\<close>

definition c_write :: "int \<Rightarrow> bytes \<Rightarrow> client \<Rightarrow> client" where
  "c_write fd bs C =
     (case adb_write (length bs) (c_outgoing C fd) of
        (r, q) \<Rightarrow> C\<lparr>c_outgoing := (c_outgoing C)(fd := q),
          c_sent := (c_sent C)(fd := c_sent C fd @ (case r of Inr n \<Rightarrow> take n bs | Inl _ \<Rightarrow> []))\<rparr>)"

fun console_words :: "int \<Rightarrow> string list \<Rightarrow> client \<Rightarrow> client" where
  "console_words fd [] C = C"
| "console_words fd (a # as) C = console_words fd as (c_write fd (if as = [] then [NL] else '' '') (c_write fd a C))"

definition connect_to_console :: "copier \<Rightarrow> (int \<times> copier) res" where
  "connect_to_console K =
     rbind (adb_get_emulator_console_port (conn K)) (\<lambda>(port, C).
       let K1 = K\<lparr>conn := C\<rparr> in
       if port < 0 then
         Inr (-1, say (if port = -2 then ''error: more than one emulator detected. use -s option'' else ''error: no emulator detected'') K1)
       else
         let C1 = C\<lparr>c_dialled := c_dialled C @ [port]\<rparr> in
         case dials C of
           fd # fs \<Rightarrow>
             if fd < 0 then Inr (-1, say (''error: could not connect to TCP port '' @ fmt_d port) (K\<lparr>conn := C1\<lparr>dials := fs\<rparr>\<rparr>))
             else Inr (fd, K\<lparr>conn := C1\<lparr>dials := fs\<rparr>\<rparr>)
         | [] \<Rightarrow> Inr (-1, say (''error: could not connect to TCP port '' @ fmt_d port) (K\<lparr>conn := C1\<rparr>)))"

definition adb_send_emulator_command :: "string list \<Rightarrow> copier \<Rightarrow> (int \<times> copier) res" where
  "adb_send_emulator_command args K =
     rbind (connect_to_console K) (\<lambda>(fd, K1).
       if fd < 0 then Inr (1, K1)
       else Inr (0, K1\<lparr>conn := c_close fd (c_write fd (''quit'' @ [NL]) (console_words fd args (conn K1)))\<rparr>))"

definition CHUNK_SIZE :: nat where "CHUNK_SIZE = 64 * 1024"

text \<open>The loop of \<^verbatim>\<open>adb_download_buffer\<close>; the display of the progress is left out.\<close>

function download_loop :: "int \<Rightarrow> bytes \<Rightarrow> copier \<Rightarrow> bool \<times> copier" where
  "download_loop fd bs K =
     (if bs = [] then (True, K)
      else
        let xfer = (if CHUNK_SIZE < length bs then CHUNK_SIZE else length bs) in
        case k_writex fd (take xfer bs) K of
          (r, K1) \<Rightarrow> if r \<noteq> 0 then (False, K1) else download_loop fd (drop xfer bs) K1)"
  by pat_completeness auto
termination
  by (relation "measure (\<lambda>(fd, bs, K). length bs)") (auto simp: CHUNK_SIZE_def)

declare download_loop.simps [simp del]

definition adb_download_buffer :: "string \<Rightarrow> bytes \<Rightarrow> copier \<Rightarrow> (int \<times> copier) res" where
  "adb_download_buffer service bs K =
     (let buf = service @ '':'' @ fmt_d (int (length bs)) in
      if 4096 \<le> length buf then Inl BufferOverflow
      else rbind (k_connect buf K) (\<lambda>(fd, K1).
        if fd < 0 then Inr (-1, show_error K1)
        else case download_loop fd bs K1 of
          (ok, K2) \<Rightarrow>
            if \<not> ok then
              (case adb_status fd (conn K2) of
                 (_, C) \<Rightarrow> Inr (-1, say (''* failed to write data '' @ quoted (adb_error C) @ '' *'') (K2\<lparr>conn := C\<rparr>)))
            else (case k_readx fd 4 K2 of
                (r, ans, K3) \<Rightarrow>
                  if r \<noteq> 0 then Inr (-1, k_close fd (say ''* error reading response *'' K3))
                  else if ans \<noteq> ''OKAY'' then Inr (-1, k_close fd (say (''* error response '' @ quoted (c_str ans) @ '' *'') K3))
                  else Inr (0, k_close fd K3))))"

definition adb_download :: "cmd_env \<Rightarrow> string \<Rightarrow> string \<Rightarrow> copier \<Rightarrow> (int \<times> copier) res" where
  "adb_download E service fn K =
     (case load_file E fn of
        None \<Rightarrow> Inr (-1, say (''* cannot read '' @ quoted service @ '' *'') K)
      | Some bs \<Rightarrow> adb_download_buffer service bs K)"

text \<open>The \<^verbatim>\<open>-f\<close> argument of \<^verbatim>\<open>backup\<close>: only the first one is taken out; \<open>None\<close> if no file name follows.\<close>

definition extract_f :: "string list \<Rightarrow> (string list \<times> string) option" where
  "extract_f args =
     (case dropWhile (\<lambda>a. a \<noteq> ''-f'') args of
        [] \<Rightarrow> Some (args, ''./backup.ab'')
      | [_] \<Rightarrow> None
      | _ # f # post \<Rightarrow> Some (takeWhile (\<lambda>a. a \<noteq> ''-f'') args @ post, f))"

definition backup :: "string list \<Rightarrow> copier \<Rightarrow> (int \<times> copier) res" where
  "backup args K =
     (case extract_f args of
        None \<Rightarrow> Inr (1, say ''adb: -f passed with no filename'' K)
      | Some (args1, filename) \<Rightarrow>
          if args1 = [] then Inr (1, K)
          else rbind (mkdirs filename (unlink_file filename K)) (\<lambda>(_, K1).
            case f_creat K1 filename of
              None \<Rightarrow> Inr (-1, say (''adb: unable to open file '' @ filename) K1)
            | Some w \<Rightarrow>
                let K2 = K1\<lparr>f_data := (f_data K1)(filename \<mapsto> [])\<rparr>;
                    buf = take 4095 (''backup'' @ concat (map (\<lambda>a. '':'' @ a) args1)) in
                rbind (k_connect buf K2) (\<lambda>(fd, K3).
                  if fd < 0 then Inr (-1, say ''adb: unable to connect for backup'' K3)
                  else
                    let K4 = say ''Now unlock your device and confirm the backup operation.'' K3 in
                    case copy_to_file (c_incoming (conn K4) fd) w of
                      (out, q, _) \<Rightarrow>
                        Inr (0, k_close fd (K4\<lparr>conn := (conn K4)\<lparr>c_incoming := (c_incoming (conn K4))(fd := q)\<rparr>,
                          f_data := (f_data K4)(filename \<mapsto> out)\<rparr>)))))"

definition restore :: "string list \<Rightarrow> copier \<Rightarrow> (int \<times> copier) res" where
  "restore args K =
     (case args of
        [filename] \<Rightarrow>
          (case f_open K filename of
             None \<Rightarrow> Inr (-1, say (''adb: unable to open file '' @ filename) K)
           | Some q \<Rightarrow>
               rbind (k_connect ''restore:'' K) (\<lambda>(fd, K1).
                 if fd < 0 then Inr (-1, say ''adb: unable to connect for backup'' K1)
                 else
                   let K2 = say ''Now unlock your device and confirm the restore operation.'' K1 in
                   case copy_to_file q (c_outgoing (conn K2) fd) of
                     (out, _, w) \<Rightarrow>
                       Inr (0, k_close fd (K2\<lparr>conn := (conn K2)\<lparr>c_outgoing := (c_outgoing (conn K2))(fd := w),
                         c_sent := (c_sent (conn K2))(fd := c_sent (conn K2) fd @ out)\<rparr>\<rparr>))))
      | _ \<Rightarrow> Inr (1, K))"

definition product_file :: "opts \<Rightarrow> string \<Rightarrow> string res" where
  "product_file O' extra =
     (case gProductOutPath O' of
        None \<Rightarrow> Inl (Exit 1)
      | Some p \<Rightarrow> Inr (snprintf (length p + length extra + 2) (p @ ''/'' @ extra)))"

definition find_sync_dirs :: "opts \<Rightarrow> string option \<Rightarrow> (string option \<times> string option) option res" where
  "find_sync_dirs O' srcarg =
     (case srcarg of
        None \<Rightarrow> rbind (product_file O' ''system'') (\<lambda>a. rbind (product_file O' ''data'') (\<lambda>d. Inr (Some (Some a, Some d))))
      | Some s \<Rightarrow>
          if s = ''system'' then rbind (product_file O' ''system'') (\<lambda>a. Inr (Some (Some a, None)))
          else if s = ''data'' then rbind (product_file O' ''data'') (\<lambda>d. Inr (Some (None, Some d)))
          else Inr None)"

definition sync_args :: "string list \<Rightarrow> (bool \<times> string option) option" where
  "sync_args args =
     (case args of
        [] \<Rightarrow> Some (False, None)
      | a # as \<Rightarrow>
          if a = ''-l'' then Some (True, case as of [s] \<Rightarrow> Some s | _ \<Rightarrow> None)
          else if as = [] then Some (False, Some a)
          else None)"

definition cmd_sync :: "cmd_env \<Rightarrow> opts \<Rightarrow> string list \<Rightarrow> copier \<Rightarrow> (int \<times> copier) res" where
  "cmd_sync E O' args K =
     (case sync_args args of
        None \<Rightarrow> Inr (1, K)
      | Some (listonly, srcarg) \<Rightarrow>
          rbind (find_sync_dirs O' srcarg) (\<lambda>d.
            case d of
              None \<Rightarrow> Inr (1, K)
            | Some (android, dat) \<Rightarrow>
                rbind (case android of None \<Rightarrow> Inr (0, K) | Some p \<Rightarrow> do_sync_sync (zip_file E) p ''/system'' listonly K) (\<lambda>(ret, K1).
                  case dat of
                    Some p \<Rightarrow> if ret = 0 then do_sync_sync (zip_file E) p ''/data'' listonly K1 else Inr (ret, K1)
                  | None \<Rightarrow> Inr (ret, K1))))"

text \<open>\<^verbatim>\<open>ppp\<close> as the parent process sees it.\<close>

definition ppp :: "cmd_env \<Rightarrow> string list \<Rightarrow> copier \<Rightarrow> (int \<times> copier) res" where
  "ppp E args K =
     (case args of
        [] \<Rightarrow> Inr (1, say ''usage: adb ppp <adb service name> [ppp opts]'' K)
      | service # _ \<Rightarrow>
          rbind (k_connect service K) (\<lambda>(fd, K1).
            if fd < 0 then Inr (1, say (''Error: Could not open adb service: '' @ service @ ''. Error: '' @ adb_error (conn K1)) K1)
            else if fork_result E < 0 then Inr (1, K1)
            else Inr (0, k_close fd K1)))"

section \<open>Dispatch\<close>

definition ret :: "(int \<times> copier) res \<Rightarrow> int run" where
  "ret r = Some r"

text \<open>\<^verbatim>\<open>status_window\<close>: the state is asked for again and again, and shown when it differs from the last one that was received.\<close>

definition status_show :: "string \<Rightarrow> copier \<Rightarrow> copier" where
  "status_show state K = say (''State: '' @ state) (say ([CHR 0x1B] @ ''[2J'' @ [CHR 0x1B] @ ''[2HAndroid Debug Bridge'') K)"

definition status_step :: "string option \<Rightarrow> bytes option \<Rightarrow> copier \<Rightarrow> string option \<times> copier" where
  "status_step laststate state K =
     (case state of
        Some t \<Rightarrow>
          if laststate = Some (c_str t) then (laststate, K) else (Some (c_str t), status_show (c_str t) K)
      | None \<Rightarrow> (laststate, status_show ''offline'' K))"

partial_function (option) status_loop :: "string \<Rightarrow> string option \<Rightarrow> copier \<Rightarrow> int run" where
  "status_loop cmd laststate K =
     (case k_query cmd K of
        Inl e \<Rightarrow> Some (Inl e)
      | Inr (state, K1) \<Rightarrow>
          (case status_step laststate state K1 of (laststate1, K2) \<Rightarrow> status_loop cmd laststate1 K2))"

definition status_window :: "transport_type \<Rightarrow> string option \<Rightarrow> copier \<Rightarrow> int run" where
  "status_window ty ser K = status_loop (format_host_command 4096 ''get-state'' ty ser) None K"

text \<open>The commands from the label \<^verbatim>\<open>top\<close> on, in the order of the source.\<close>

fun run_command :: "do_cmd_fn \<Rightarrow> cmd_env \<Rightarrow> opts \<Rightarrow> string list \<Rightarrow> copier \<Rightarrow> int run" where
  "run_command dc E O' [] K = ret (Inr (1, K))"
| "run_command dc E O' (c # args) K =
     (if c = ''devices'' then ret (cmd_devices K)
      else if c = ''connect'' then ret (cmd_connect args K)
      else if c = ''disconnect'' then ret (cmd_disconnect args K)
      else if c = ''emu'' then ret (adb_send_emulator_command args K)
      else if c = ''shell'' \<or> c = ''hell'' then cmd_shell dc O' (c = ''hell'') args K
      else if c = ''kill-server'' then ret (cmd_kill_server K)
      else if c = ''sideload'' then
        (case args of
           [f] \<Rightarrow> ret (rbind (adb_download E ''sideload'' f K) (\<lambda>(r, K1). Inr (if r \<noteq> 0 then 1 else 0, K1)))
         | _ \<Rightarrow> ret (Inr (1, K)))
      else if c \<in> {''remount'', ''reboot'', ''reboot-bootloader'', ''tcpip'', ''usb'', ''root''} then
        ret (connect_and_dump (reboot_service c args) 1 K)
      else if c = ''bugreport'' then
        if args \<noteq> [] then ret (Inr (1, K))
        else obind (dc (ttype O') (o_serial O') [''shell'', ''bugreport''] K) (\<lambda>(_, K1). Some (Inr (0, K1)))
      else if starts_with ''wait-for-'' c then
        obind (Some (cmd_wait_for (ttype O') (o_serial O') c K)) (\<lambda>(r, K1).
          if r \<noteq> 0 then Some (Inr (1, K1)) else if args \<noteq> [] then run_command dc E O' args K1 else Some (Inr (0, K1)))
      else if c = ''forward'' then ret (cmd_forward (ttype O') (o_serial O') args K)
      else if c = ''ls'' then (case args of [p] \<Rightarrow> ret (do_sync_ls p K) | _ \<Rightarrow> ret (Inr (1, K)))
      else if c = ''push'' then (case args of [l, r] \<Rightarrow> ret (do_sync_push (zip_file E) l r False K) | _ \<Rightarrow> ret (Inr (1, K)))
      else if c = ''pull'' then
        (case args of [r] \<Rightarrow> ret (do_sync_pull r ''.'' K) | [r, l] \<Rightarrow> ret (do_sync_pull r l K) | _ \<Rightarrow> ret (Inr (1, K)))
      else if c = ''install'' then if args = [] then ret (Inr (1, K)) else install_app dc E O' (c # args) K
      else if c = ''uninstall'' then if args = [] then ret (Inr (1, K)) else uninstall_app dc O' (c # args) K
      else if c = ''sync'' then ret (cmd_sync E O' args K)
      else if c = ''get-state'' \<or> c = ''get-serialno'' then ret (query_and_print (format_host_command 4096 c (ttype O') (o_serial O')) K)
      else if c = ''status-window'' then status_window (ttype O') (o_serial O') K
      else if c = ''logcat'' \<or> c = ''lolcat'' \<or> c = ''longcat'' then logcat dc E O' c args K
      else if c = ''ppp'' then ret (ppp E args K)
      else if c = ''start-server'' then ret (k_connect ''host:start-server'' K)
      else if c = ''backup'' then ret (backup args K)
      else if c = ''restore'' then ret (restore args K)
      else if c = ''jdwp'' then ret (connect_and_dump ''jdwp'' (-1) K)
      else if c = ''help'' \<or> c = ''/?'' then ret (Inr (0, K))
      else if c = ''version'' then ret (Inr (0, say (''Android Debug Bridge version 1.0.'' @ fmt_d (int ADB_SERVER_VERSION)) K))
      else ret (Inr (1, K)))"

text \<open>\<^verbatim>\<open>adb_commandline\<close>; the first argument bounds how deep it is called again through \<^verbatim>\<open>do_cmd\<close>.\<close>

fun adb_commandline :: "nat \<Rightarrow> cmd_env \<Rightarrow> string list \<Rightarrow> copier \<Rightarrow> cmd_end run" where
  "adb_commandline 0 E args K = Some (Inl OutOfFuel)"
| "adb_commandline (Suc n) E args K =
     obind (Some (commandline_start E args K)) (\<lambda>(r, K1).
       case r of
         None \<Rightarrow> Some (Inr (Ret 1, K1))
       | Some (O', rest) \<Rightarrow>
           if is_server O' then
             if no_daemon O' \<or> is_daemon O' then Some (Inr (Serve (is_daemon O') (server_port O'), K1))
             else (case launch_server (server_port O') (conn K1) of
                 (r, C) \<Rightarrow> let K2 = K1\<lparr>conn := C\<rparr> in
                   Some (Inr (Ret r, if r \<noteq> 0 then say ''* could not start server *'' K2 else K2)))
           else obind (run_command (do_cmd (adb_commandline n E)) E O' rest K1) (\<lambda>(n, K2). Some (Inr (Ret n, K2))))"

section \<open>Running a command again\<close>

lemma do_cmd_flags:
  assumes "commandline_start E (do_cmd_args tt ser (c # as)) K = Inr (Some (O', rest), K1)"
    "c \<notin> {''server'', ''nodaemon'', ''fork-server'', ''persist'', ''-d'', ''-e''}" "\<not> starts_with ''-p'' c" "\<not> starts_with ''-s'' c"
  shows "rest = c # as \<and> \<not> is_server O' \<and> \<not> persist O'"
  using assms by (cases ser; cases tt) (auto simp: commandline_start_def do_cmd_args_def split: option.splits)

text \<open>The two command lines that the program gives itself do not call \<^verbatim>\<open>do_cmd\<close>.\<close>

lemma run_wait: "run_command dc E O' [''wait-for-device''] K = Some (cmd_wait_for (ttype O') (o_serial O') ''wait-for-device'' K)"
  by (cases "cmd_wait_for (ttype O') (o_serial O') ''wait-for-device'' K")
    (auto simp: ret_def cmd_wait_for_def rbind_def split: sum.splits prod.splits if_splits)

lemma run_bugreport:
  assumes "\<not> persist O'"
  shows "run_command dc E O' [''shell'', ''bugreport''] K = Some (connect_and_dump ''shell:bugreport'' (-1) K)"
proof -
  have "shell_loop dc O' ''shell:bugreport'' K = Some (connect_and_dump ''shell:bugreport'' (-1) K)"
    using assms by (simp add: shell_loop.simps split: sum.split prod.split)
  then show ?thesis by (cases "connect_and_dump ''shell:bugreport'' (-1) K") (auto simp: cmd_shell_def snprintf_fits)
qed

definition self_commands :: "string list set" where
  "self_commands = {[''wait-for-device''], [''shell'', ''bugreport'']}"

lemma self_command_depth:
  assumes "cmd \<in> self_commands"
  shows "do_cmd (adb_commandline (Suc n) E) tt ser cmd K = do_cmd (adb_commandline (Suc m) E) tt ser cmd K"
proof -
  have "obind (run_command d E O' rest K1) f = obind (run_command d' E O' rest K1) f"
    if "commandline_start E (do_cmd_args tt ser cmd) K = Inr (Some (O', rest), K1)" for O' rest K1 d d' and f :: "int \<times> copier \<Rightarrow> cmd_end run"
    using that assms do_cmd_flags [of E tt ser "hd cmd" "tl cmd" K O' rest K1]
    by (auto simp: self_commands_def run_wait run_bugreport simp del: run_command.simps)
  then show ?thesis
    by (auto simp: do_cmd_def obind_def split: option.split sum.split prod.split)
qed

text \<open>What a command does depends only on what \<^verbatim>\<open>do_cmd\<close> does with these two.\<close>

definition agree :: "do_cmd_fn \<Rightarrow> do_cmd_fn \<Rightarrow> bool" where
  "agree d d' \<longleftrightarrow> (\<forall>tt ser K. \<forall>cmd \<in> self_commands. d tt ser cmd K = d' tt ser cmd K)"

lemma agreeD:
  assumes "agree d d'"
  shows "d tt ser [''wait-for-device''] K = d' tt ser [''wait-for-device''] K"
    "d tt ser [''shell'', ''bugreport''] K = d' tt ser [''shell'', ''bugreport''] K" "agree d' d"
  using assms by (auto simp: agree_def self_commands_def)

lemma some_equal:
  assumes "\<And>y. f = Some y \<Longrightarrow> g = Some y" "\<And>y. g = Some y \<Longrightarrow> f = Some y"
  shows "f = g"
  using assms by (cases f; cases g) auto

lemma shell_loop_transfer:
  assumes "shell_loop d O' buf K = Some y" "agree d d'"
  shows "shell_loop d' O' buf K = Some y"
proof -
  have "\<forall>d'. agree d d' \<longrightarrow> shell_loop d' O' buf K = Some y"
  proof (rule shell_loop.raw_induct [of "\<lambda>d O' buf K y. \<forall>d'. agree d d' \<longrightarrow> shell_loop d' O' buf K = Some y", OF _ assms(1)], intro allI impI)
    fix d d' O' buf K y f
    assume step: "agree d d'"
      "\<And>d O' buf K y. f d O' buf K = Some y \<Longrightarrow> \<forall>d'. agree d d' \<longrightarrow> shell_loop d' O' buf K = Some y"
    note run = step(2) [rule_format, OF _ step(1)]
    assume "(case connect_and_dump buf (-1) K of
        Inl e \<Rightarrow> Some (Inl e)
      | Inr (r, K1) \<Rightarrow>
          if persist O' then
            (case d (ttype O') (o_serial O') [''wait-for-device''] (say ''- waiting for device -'' K1) of
               None \<Rightarrow> None
             | Some (Inl e) \<Rightarrow> Some (Inl e)
             | Some (Inr (_, K2)) \<Rightarrow> f d O' buf K2)
          else Some (Inr (r, K1))) = Some y"
    then show "shell_loop d' O' buf K = Some y"
      unfolding shell_loop.simps [of d' O' buf K] agreeD(1) [OF step(1)] by (auto split: sum.splits prod.splits option.splits if_splits intro: run)
  qed
  with assms(2) show ?thesis by blast
qed

lemma send_shellcommand_transfer:
  assumes "send_shellcommand d tt ser buf K = Some y" "agree d d'"
  shows "send_shellcommand d' tt ser buf K = Some y"
proof -
  have "\<forall>d'. agree d d' \<longrightarrow> send_shellcommand d' tt ser buf K = Some y"
  proof (rule send_shellcommand.raw_induct [of "\<lambda>d tt ser buf K y. \<forall>d'. agree d d' \<longrightarrow> send_shellcommand d' tt ser buf K = Some y", OF _ assms(1)], intro allI impI)
    fix d d' tt ser buf K y f
    assume step: "agree d d'"
      "\<And>d tt ser buf K y. f d tt ser buf K = Some y \<Longrightarrow> \<forall>d'. agree d d' \<longrightarrow> send_shellcommand d' tt ser buf K = Some y"
    note run = step(2) [rule_format, OF _ step(1)]
    assume "(case k_connect buf K of
        Inl e \<Rightarrow> Some (Inl e)
      | Inr (fd, K1) \<Rightarrow>
          if 0 \<le> fd then Some (Inr (0, k_close fd (read_and_dump fd K1)))
          else (case d tt ser [''wait-for-device''] (say ''- waiting for device -'' K1) of
              None \<Rightarrow> None
            | Some (Inl e) \<Rightarrow> Some (Inl e)
            | Some (Inr (_, K2)) \<Rightarrow> f d tt ser buf K2)) = Some y"
    then show "send_shellcommand d' tt ser buf K = Some y"
      unfolding send_shellcommand.simps [of d' tt ser buf K] agreeD(1) [OF step(1)] by (auto split: sum.splits prod.splits option.splits if_splits intro: run)
  qed
  with assms(2) show ?thesis by blast
qed

lemma run_command_agree:
  assumes "agree d d'"
  shows "run_command d E O' args K = run_command d' E O' args K"
proof -
  have "shell_loop d O' buf K = shell_loop d' O' buf K" for O' buf K
    by (rule some_equal; erule shell_loop_transfer) (use assms agreeD(3) [OF assms] in auto)
  moreover have "send_shellcommand d tt ser buf K = send_shellcommand d' tt ser buf K" for tt ser buf K
    by (rule some_equal; erule send_shellcommand_transfer) (use assms agreeD(3) [OF assms] in auto)
  ultimately have loops: "shell_loop d = shell_loop d'" "send_shellcommand d = send_shellcommand d'" by (simp_all add: fun_eq_iff)
  have pm: "pm_command d = pm_command d'" and del: "delete_file d = delete_file d'"
    unfolding fun_eq_iff pm_command_def delete_file_def loops by simp_all
  have cl: "cleanup_apk d = cleanup_apk d'" unfolding fun_eq_iff cleanup_apk_def del by simp
  have push: "install_push d = install_push d'" unfolding fun_eq_iff install_push_def pm cl by simp
  have app: "install_app d = install_app d'" "uninstall_app d = uninstall_app d'" "cmd_shell d = cmd_shell d'" "logcat d = logcat d'"
    unfolding fun_eq_iff install_app_def uninstall_app_def cmd_shell_def logcat_def push pm loops by simp_all
  show ?thesis
  proof (induction args arbitrary: K)
    case (Cons c args)
    show ?case unfolding run_command.simps(2) app agreeD(2) [OF assms] Cons by (rule refl)
  qed simp
qed

lemma do_cmd_depth:
  assumes "2 \<le> n"
  shows "adb_commandline n E args K = adb_commandline 2 E args K"
proof -
  obtain m where n: "n = Suc (Suc m)" using assms by (metis add_2_eq_Suc le_iff_add)
  have "agree (do_cmd (adb_commandline (Suc m) E)) (do_cmd (adb_commandline (Suc 0) E))"
    using self_command_depth unfolding agree_def by blast
  note run = run_command_agree [OF this]
  show ?thesis unfolding n numeral_2_eq_2 adb_commandline.simps(2) [of "Suc m"] adb_commandline.simps(2) [of "Suc 0"] run ..
qed

section \<open>What the device's shell makes of a command line\<close>

text \<open>The words of a line: unescaped spaces separate them, a backslash takes the meaning from the next character. \<open>None\<close> stands for no word in progress.\<close>

fun sh_words :: "string option \<Rightarrow> string \<Rightarrow> string list" where
  "sh_words w [] = (case w of None \<Rightarrow> [] | Some x \<Rightarrow> [x])"
| "sh_words w (c # cs) =
     (let x = (case w of None \<Rightarrow> [] | Some x \<Rightarrow> x) in
      if c = CHR '' '' then (case w of None \<Rightarrow> [] | Some x \<Rightarrow> [x]) @ sh_words None cs
      else if c = BACKSLASH then (case cs of [] \<Rightarrow> [x @ [c]] | d # ds \<Rightarrow> sh_words (Some (x @ [d])) ds)
      else sh_words (Some (x @ [c])) cs)"

lemma sh_words_quote:
  "a \<noteq> [] \<Longrightarrow> sh_words w (dupAndQuote a @ r) = sh_words (Some ((case w of None \<Rightarrow> [] | Some x \<Rightarrow> x) @ a)) r"
proof (induction a arbitrary: w)
  case (Cons c cs)
  have step: "sh_words w (dupAndQuote (c # cs) @ r) = sh_words (Some ((case w of None \<Rightarrow> [] | Some x \<Rightarrow> x) @ [c])) (dupAndQuote cs @ r)"
    by (auto simp: needs_quote_def)
  show ?case using Cons.IH [of "Some ((case w of None \<Rightarrow> [] | Some x \<Rightarrow> x) @ [c])"] step by (cases "cs = []") auto
qed simp

definition quote_line :: "string list \<Rightarrow> string" where
  "quote_line args = concat (map (\<lambda>a. '' '' @ dupAndQuote a) args)"

lemma sh_words_line:
  "[] \<notin> set args \<Longrightarrow> sh_words (Some x) (quote_line args) = x # args"
proof (induction args arbitrary: x)
  case (Cons a as)
  have "sh_words (Some x) (quote_line (a # as)) = x # sh_words None (dupAndQuote a @ quote_line as)" by (simp add: quote_line_def)
  also have "\<dots> = x # sh_words (Some a) (quote_line as)" using Cons.prems sh_words_quote [of a None "quote_line as"] by auto
  finally show ?case using Cons by simp
qed (simp add: quote_line_def)

lemma quoted_words_line:
  assumes "quoted_words buf args = Inr b"
  shows "b = buf @ quote_line args"
  using assms
proof (induction buf args rule: quoted_words.induct)
  case (2 buf a as)
  have "length buf + 1 < 4096" "length buf + 1 + length (take 4095 (dupAndQuote a)) < 4096"
    using "2.prems" by (auto simp: buf_ncat_def buf_cat_def rbind_def split: if_splits)
  then have "take 4095 (dupAndQuote a) = dupAndQuote a" by simp
  then have "buf_ncat buf '' '' = Inr (buf @ '' '')" "buf_ncat (buf @ '' '') (dupAndQuote a) = Inr (buf @ '' '' @ dupAndQuote a)"
    using \<open>length buf + 1 + _ < 4096\<close> by (simp_all add: buf_ncat_def buf_cat_def)
  note cats = this
  from "2.prems" cats have "quoted_words (buf @ '' '' @ dupAndQuote a) as = Inr b" by simp
  from "2.IH" [OF cats this] show ?case by (simp add: quote_line_def)
qed (simp add: quote_line_def)

text \<open>The status window never returns a value: it goes on, unless a query ends the program. While the server cannot be asked it shows
  the device as offline, and it goes on doing so when the state comes back as it was before.\<close>

lemma status_loop_endless: "status_loop cmd laststate K \<noteq> Some (Inr r)"
proof -
  have "(\<forall>r'. y \<noteq> Inr r')" if "status_loop cmd laststate K = Some y" for y
    by (rule status_loop.raw_induct [of "\<lambda>cmd laststate K y. \<forall>r'. y \<noteq> Inr r'", OF _ that]) (fastforce split: sum.splits prod.splits)
  then show ?thesis by blast
qed

lemma status_stale: "status_step (Some s) None K = (Some s, status_show ''offline'' K)"
  "NUL \<notin> set s \<Longrightarrow> status_step (Some s) (Some s) K1 = (Some s, K1)"
  by (simp_all add: status_step_def c_str_id)

section \<open>Properties\<close>

text \<open>Quoting is undone by the device's shell as far as words are concerned. The line that \<^verbatim>\<open>pm_command\<close> builds from non-empty arguments, split
  at unprotected spaces with a backslash protecting the next character, gives \<^verbatim>\<open>pm\<close> and exactly these arguments, with spaces, quotes,
  parentheses and backslashes in them. (Other characters special to a shell are sent as they are.)\<close>

theorem quoted_arguments_roundtrip:
  assumes "quoted_words ''shell:pm'' args = Inr b" "[] \<notin> set args"
  shows "sh_words None (drop 6 b) = ''pm'' # args"
proof -
  have "drop 6 b = ''pm'' @ quote_line args" using quoted_words_line [OF assms(1)] by simp
  then show ?thesis using sh_words_line [OF assms(2), of "''pm''"] by simp
qed

theorem quoted_arguments_roundtrip_witness:
  "quoted_words ''shell:pm'' [''install'', ''a (1).apk''] = Inr (''shell:pm install a'' @ [BACKSLASH] @ '' '' @ [BACKSLASH] @ ''(1'' @ [BACKSLASH] @ '').apk'')
   \<and> sh_words None (''pm install a'' @ [BACKSLASH] @ '' '' @ [BACKSLASH] @ ''(1'' @ [BACKSLASH] @ '').apk'') = [''pm'', ''install'', ''a (1).apk'']"
proof -
  have q: "quoted_words ''shell:pm'' [''install'', ''a (1).apk''] = Inr (''shell:pm install a'' @ [BACKSLASH] @ '' '' @ [BACKSLASH] @ ''(1'' @ [BACKSLASH] @ '').apk'')"
    by (simp add: buf_ncat_def buf_cat_def needs_quote_def)
  from quoted_arguments_roundtrip [OF q] q show ?thesis by simp
qed

text \<open>C14: The server reads from a host command what the client put into it: for a command that does not start with a digit, the request formatted by
  \<^verbatim>\<open>format_host_command\<close> is taken apart by the smart socket into the same command and serial number, whether the serial is a plain name, a name with
  a port, or absent. Without a serial number the server also reads the same transport type; with one the type is not sent, and the server reads that
  any transport will do.\<close>

theorem host_command_roundtrip:
  assumes cmd: "cmd \<noteq> []" "\<not> isdigit (hd cmd)" and fits: "length cmd + length (case ser of None \<Rightarrow> [] | Some s \<Rightarrow> s) \<le> 4000"
    and ser: "case ser of None \<Rightarrow> tt \<noteq> KTransportHost
      | Some s \<Rightarrow> \<exists>host port. CHR '':'' \<notin> set host \<and> list_all isdigit port \<and> (s = host \<or> port \<noteq> [] \<and> s = host @ '':'' @ port)"
  shows "parse_host_prefix (format_host_command 4096 cmd tt ser) = Some (cmd, if ser = None then tt else KTransportAny, ser)"
proof (cases ser)
  case None
  with fits ser show ?thesis
    by (cases tt) (auto simp: format_host_command_def snprintf_fits parse_host_prefix_def Let_def)
next
  case (Some s)
  with ser obtain host port where h: "CHR '':'' \<notin> set host" "\<forall>c \<in> set port. isdigit c"
    "s = host \<or> port \<noteq> [] \<and> s = host @ '':'' @ port" by (auto simp: list_all_iff)
  have "format_host_command 4096 cmd tt ser = ''host-serial:'' @ s @ '':'' @ cmd" using Some fits by (simp add: format_host_command_def snprintf_fits)
  with host_serial_roundtrip [OF h(1,2) cmd] h(3) Some show ?thesis by auto
qed

theorem host_command_roundtrip_witness:
  "parse_host_prefix (format_host_command 4096 ''get-state'' KTransportUsb (Some ''10.0.0.1:5555'')) = Some (''get-state'', KTransportAny, Some ''10.0.0.1:5555'')
   \<and> parse_host_prefix (format_host_command 4096 ''get-state'' KTransportUsb None) = Some (''get-state'', KTransportUsb, None)"
proof -
  have c: "''get-state'' \<noteq> []" "\<not> isdigit (hd ''get-state'')"
    "length ''get-state'' + length (case Some ''10.0.0.1:5555'' of None \<Rightarrow> [] | Some s \<Rightarrow> s) \<le> 4000"
    "length ''get-state'' + length (case None of None \<Rightarrow> [] | Some s \<Rightarrow> s) \<le> 4000" by (simp_all add: isdigit_def)
  have "CHR '':'' \<notin> set ''10.0.0.1'' \<and> list_all isdigit ''5555'' \<and> (''10.0.0.1:5555'' = ''10.0.0.1'' \<or> ''5555'' \<noteq> [] \<and> ''10.0.0.1:5555'' = ''10.0.0.1'' @ '':'' @ ''5555'')"
    by (simp add: isdigit_def)
  then have "\<exists>host port. CHR '':'' \<notin> set host \<and> list_all isdigit port \<and> (''10.0.0.1:5555'' = host \<or> port \<noteq> [] \<and> ''10.0.0.1:5555'' = host @ '':'' @ port)"
    by blast
  with host_command_roundtrip [of "''get-state''" "Some ''10.0.0.1:5555''" KTransportUsb] host_command_roundtrip [of "''get-state''" None KTransportUsb] c
  show ?thesis by (simp only: option.case if_True if_False option.distinct) simp
qed


definition plain_env :: cmd_env where
  "plain_env = \<lparr>getenv = (\<lambda>_. None), cwd = None, exists_file = (\<lambda>_. False), my_path = [], load_file = (\<lambda>_. None),
     fork_result = 0, zip_file = (\<lambda>_. None)\<rparr>"


end
