(* ===== verification/Image_Tools.thy ===== *)
theory Image_Tools
  imports Adb_Prelude
begin

text \<open>
  Two small tools for the screen of a phone: imgrotate/rotate_bmp.c, which turns the picture in the frame buffer in two ways and compares
  their speed, and fbbmp/main.c, which shows a bitmap file. The frame buffer and the copy of it are lists of pixels or of bytes, as long as
  the memory; an access outside and a signed overflow are faults.
\<close>

datatype screen_fault = OutsideMemory | SignedOverflow

type_synonym 'a screen = "screen_fault + 'a"

definition c_int :: "int \<Rightarrow> bool" where
  "c_int a \<longleftrightarrow> - 2147483648 \<le> a \<and> a < 2147483648"

section \<open>Turning the picture (rotate_bmp.c)\<close>

text \<open>Assignments \<^verbatim>\<open>buffer[d] = fb_ptr[s]\<close>, one after the other; the indices are computed as \<^verbatim>\<open>int\<close>.\<close>

fun copy_cells :: "(nat \<times> nat) list \<Rightarrow> u32 list \<Rightarrow> u32 list \<Rightarrow> u32 list screen" where
  "copy_cells [] fb_ptr buffer = Inr buffer"
| "copy_cells ((d, s) # cs) fb_ptr buffer =
     (if \<not> c_int (int d) \<or> \<not> c_int (int s) then Inl SignedOverflow
      else if length buffer \<le> d \<or> length fb_ptr \<le> s then Inl OutsideMemory
      else copy_cells cs fb_ptr (buffer[d := fb_ptr ! s]))"

text \<open>\<^verbatim>\<open>while(times--)\<close>: a negative count goes down to the least \<^verbatim>\<open>int\<close> and overflows.\<close>

partial_function (option) passes :: "int \<Rightarrow> (nat \<times> nat) list \<Rightarrow> u32 list \<Rightarrow> u32 list \<Rightarrow> u32 list screen option" where
  "passes n cells fb_ptr buffer =
     (if n = 0 then Some (Inr buffer)
      else if \<not> c_int (n - 1) then Some (Inl SignedOverflow)
      else case copy_cells cells fb_ptr buffer of
        Inl e \<Rightarrow> Some (Inl e)
      | Inr buffer' \<Rightarrow> passes (n - 1) cells fb_ptr buffer')"

text \<open>The loops, in the order in which they run.\<close>

definition rotate_cells :: "nat \<Rightarrow> nat \<Rightarrow> (nat \<times> nat) list" where
  "rotate_cells xres yres = concat (map (\<lambda>j. map (\<lambda>i. (i * yres + j, j * xres + i)) [0..<xres]) [0..<yres])"

definition write_cells :: "nat \<Rightarrow> nat \<Rightarrow> (nat \<times> nat) list" where
  "write_cells xres yres = concat (map (\<lambda>r. map (\<lambda>c. (r * yres + c, c * xres + r)) [0..<yres]) [0..<xres])"

definition rotate_bmp :: "u32 list \<Rightarrow> u32 list \<Rightarrow> nat \<Rightarrow> nat \<Rightarrow> int \<Rightarrow> u32 list screen option" where
  "rotate_bmp buffer fb_ptr xres yres n = passes n (rotate_cells xres yres) fb_ptr buffer"

definition write_continue :: "u32 list \<Rightarrow> u32 list \<Rightarrow> nat \<Rightarrow> nat \<Rightarrow> int \<Rightarrow> u32 list screen option" where
  "write_continue buffer fb_ptr xres yres n = passes n (write_cells xres yres) fb_ptr buffer"

text \<open>\<open>k\<close> counts the assignments.\<close>

definition rotate_bmp_hit :: "u32 list \<Rightarrow> u32 list \<Rightarrow> nat \<Rightarrow> nat \<Rightarrow> int \<Rightarrow> u32 list screen option" where
  "rotate_bmp_hit buffer fb_ptr xres yres n = passes n (map (\<lambda>k. (k, k)) [0..<yres * xres]) fb_ptr buffer"

subsection \<open>What the loops compute\<close>

lemma copy_cells_spec:
  assumes "distinct (map fst cs)" "\<forall>(d, s) \<in> set cs. d < length buffer \<and> s < length fb \<and> c_int (int d) \<and> c_int (int s)"
  shows "\<exists>out. copy_cells cs fb buffer = Inr out \<and> length out = length buffer
    \<and> (\<forall>(d, s) \<in> set cs. out ! d = fb ! s) \<and> (\<forall>k. k \<notin> fst ` set cs \<longrightarrow> out ! k = buffer ! k)"
  using assms
proof (induction cs arbitrary: buffer)
  case (Cons c cs)
  obtain d s where c: "c = (d, s)" by (cases c)
  have ok: "d < length buffer" "s < length fb" "c_int (int d)" "c_int (int s)" "d \<notin> fst ` set cs" using Cons.prems c by auto
  from Cons.IH [of "buffer[d := fb ! s]"] Cons.prems c obtain out where out: "copy_cells cs fb (buffer[d := fb ! s]) = Inr out"
    "length out = length buffer" "\<forall>(d, s) \<in> set cs. out ! d = fb ! s"
    "\<forall>k. k \<notin> fst ` set cs \<longrightarrow> out ! k = buffer[d := fb ! s] ! k" by auto
  then have "out ! d = fb ! s" using ok by simp
  then show ?case using out ok c by auto
qed simp

text \<open>Loops whose assignments hit every cell of the buffer, each from its own source.\<close>

definition covers :: "(nat \<times> nat) list \<Rightarrow> nat \<Rightarrow> (nat \<Rightarrow> nat) \<Rightarrow> bool" where
  "covers cs n src \<longleftrightarrow> distinct (map fst cs) \<and> set cs = (\<lambda>d. (d, src d)) ` {..<n}"

lemma covers_copy:
  assumes "covers cs (length buffer) src" "\<forall>d < length buffer. src d < length fb \<and> src d < length buffer" "length buffer \<le> 2147483648"
  shows "copy_cells cs fb buffer = Inr (map (\<lambda>d. fb ! src d) [0..<length buffer])"
proof -
  have "\<forall>(d, s) \<in> set cs. d < length buffer \<and> s < length fb \<and> c_int (int d) \<and> c_int (int s)"
    using assms by (fastforce simp: covers_def c_int_def)
  from copy_cells_spec [OF _ this] assms(1) obtain out where out: "copy_cells cs fb buffer = Inr out" "length out = length buffer"
    "\<forall>(d, s) \<in> set cs. out ! d = fb ! s" by (auto simp: covers_def)
  have "out = map (\<lambda>d. fb ! src d) [0..<length buffer]"
    by (rule nth_equalityI) (use out assms(1) in \<open>auto simp: covers_def\<close>)
  with out(1) show ?thesis by simp
qed

lemma covers_passes:
  assumes "covers cs (length buffer) src" "\<forall>d < length buffer. src d < length fb \<and> src d < length buffer" "length buffer \<le> 2147483648"
    and "n < 2147483648"
  shows "passes (int (Suc n)) cs fb buffer = Some (Inr (map (\<lambda>d. fb ! src d) [0..<length buffer]))"
  using assms
proof (induction n arbitrary: buffer)
  case 0
  then show ?case by (simp add: passes.simps [of 1] passes.simps [of 0] covers_copy c_int_def)
next
  case (Suc n)
  let ?out = "map (\<lambda>d. fb ! src d) [0..<length buffer]"
  have "passes (int (Suc n)) cs fb ?out = Some (Inr (map (\<lambda>d. fb ! src d) [0..<length ?out]))" using Suc by simp
  moreover have e: "int (Suc (Suc n)) - 1 = int (Suc n)" by simp
  ultimately show ?case
    using covers_copy [OF Suc.prems(1-3)] Suc.prems(4) unfolding passes.simps [of "int (Suc (Suc n))"] e by (simp add: c_int_def)
qed

lemma cell_index: "y < b \<Longrightarrow> (x * b + y) div b = x" "y < b \<Longrightarrow> (x * b + y) mod b = y" for x y b :: nat
  by simp_all

lemma cell_less: "x < a \<Longrightarrow> y < b \<Longrightarrow> x * b + y < a * b" for x y a b :: nat
proof -
  assume "x < a" "y < b"
  then have "x * b + y < Suc x * b" by simp
  also have "\<dots> \<le> a * b" using \<open>x < a\<close> by (intro mult_le_mono1) simp
  finally show ?thesis .
qed

lemma grid_image: "(\<lambda>(x, y). (x * b + y, y * a + x)) ` ({..<a} \<times> {..<b}) = (\<lambda>d. (d, d mod b * a + d div b)) ` {..<a * b}" for a b :: nat
proof (intro equalityI subsetI)
  fix p assume "p \<in> (\<lambda>(x, y). (x * b + y, y * a + x)) ` ({..<a} \<times> {..<b})"
  then obtain x y where "p = (x * b + y, y * a + x)" "x < a" "y < b" by auto
  then show "p \<in> (\<lambda>d. (d, d mod b * a + d div b)) ` {..<a * b}"
    by (intro image_eqI [of _ _ "x * b + y"]) (auto simp: cell_index cell_less)
next
  fix p assume "p \<in> (\<lambda>d. (d, d mod b * a + d div b)) ` {..<a * b}"
  then obtain d where d: "p = (d, d mod b * a + d div b)" "d < a * b" by auto
  then have "0 < b" by (cases b) auto
  then have "d div b < a" "d mod b < b" "d = d div b * b + d mod b" using d(2) by (simp_all add: less_mult_imp_div_less)
  then show "p \<in> (\<lambda>(x, y). (x * b + y, y * a + x)) ` ({..<a} \<times> {..<b})"
    using d(1) by (intro image_eqI [of _ _ "(d div b, d mod b)"]) auto
qed


lemma rotate_covers: "covers (rotate_cells xres yres) (xres * yres) (\<lambda>d. d mod yres * xres + d div yres)"
proof -
  have "set (rotate_cells xres yres) = (\<lambda>(x, y). (x * yres + y, y * xres + x)) ` ({..<xres} \<times> {..<yres})"
    by (force simp: rotate_cells_def)
  moreover have "distinct (map fst (rotate_cells xres yres))"
  proof -
    have "map fst (rotate_cells xres yres) = concat (map (\<lambda>j. map (\<lambda>i. i * yres + j) [0..<xres]) [0..<yres])"
      by (simp add: rotate_cells_def map_concat o_def)
    moreover have "distinct (concat (map (\<lambda>j. map (\<lambda>i. i * yres + j) [0..<xres]) [0..<n]))" if "n \<le> yres" for n
      using that
    proof (induction n)
      case (Suc n)
      have "inj (\<lambda>i. i * yres + n)" using Suc.prems by (auto intro!: injI)
      then have "distinct (map (\<lambda>i. i * yres + n) [0..<xres])" by (simp add: distinct_map inj_on_def)
      moreover have "i * yres + j \<noteq> k * yres + n" if "j < n" for i j k
        using cell_index(2) [of j yres i] cell_index(2) [of n yres k] that Suc.prems by (metis Suc_le_lessD order_less_trans nat_neq_iff)
      then have "set (concat (map (\<lambda>j. map (\<lambda>i. i * yres + j) [0..<xres]) [0..<n])) \<inter> set (map (\<lambda>i. i * yres + n) [0..<xres]) = {}"
        by (auto simp: set_eq_iff) metis
      ultimately show ?case using Suc by simp
    qed simp
    ultimately show ?thesis by simp
  qed
  ultimately show ?thesis by (simp add: covers_def grid_image)
qed

lemma write_covers: "covers (write_cells xres yres) (xres * yres) (\<lambda>d. d mod yres * xres + d div yres)"
proof -
  have "set (write_cells xres yres) = (\<lambda>(x, y). (x * yres + y, y * xres + x)) ` ({..<xres} \<times> {..<yres})"
    by (force simp: write_cells_def)
  moreover have "map fst (write_cells xres yres) = [0..<xres * yres]"
  proof -
    have "concat (map (\<lambda>r. map (\<lambda>c. r * yres + c) [0..<yres]) [0..<n]) = [0..<n * yres]" for n
    proof (induction n)
      case (Suc n)
      have "map (\<lambda>c. n * yres + c) [0..<yres] = [n * yres..<n * yres + yres]" by (rule nth_equalityI) simp_all
      moreover have "[0..<Suc n * yres] = [0..<n * yres] @ [n * yres..<n * yres + yres]"
        using upt_add_eq_append [of 0 "n * yres" yres] by (simp add: add.commute)
      ultimately show ?case using Suc by simp
    qed simp
    then show ?thesis by (simp add: write_cells_def map_concat o_def)
  qed
  ultimately show ?thesis by (simp add: covers_def grid_image)
qed

lemma transposed_source: "d < xres * yres \<Longrightarrow> d mod yres * xres + d div yres < xres * yres" for d xres yres :: nat
  using cell_less [of "d mod yres" yres "d div yres" xres] by (cases "yres = 0") (auto simp: less_mult_imp_div_less mult.commute)

definition transposed :: "nat \<Rightarrow> nat \<Rightarrow> u32 list \<Rightarrow> u32 list" where
  "transposed xres yres fb = map (\<lambda>d. fb ! (d mod yres * xres + d div yres)) [0..<xres * yres]"

lemma transposed_passes:
  assumes "length buffer = xres * yres" "xres * yres \<le> length fb" "xres * yres \<le> 2147483648" "0 < n" "c_int n"
  shows "rotate_bmp buffer fb xres yres n = Some (Inr (transposed xres yres fb))"
    "write_continue buffer fb xres yres n = Some (Inr (transposed xres yres fb))"
proof -
  obtain k where n: "n = int (Suc k)" using assms(4) by (metis gr0_implies_Suc pos_int_cases)
  have src: "\<forall>d < length buffer. d mod yres * xres + d div yres < length fb \<and> d mod yres * xres + d div yres < length buffer"
    using assms(1,2) transposed_source by (fastforce intro: order_less_le_trans)
  have k: "k < 2147483648" using assms(5) n by (simp add: c_int_def)
  from covers_passes [OF _ src _ k] rotate_covers [of xres yres] write_covers [of xres yres]
  show "rotate_bmp buffer fb xres yres n = Some (Inr (transposed xres yres fb))"
    "write_continue buffer fb xres yres n = Some (Inr (transposed xres yres fb))"
    unfolding rotate_bmp_def write_continue_def transposed_def n using assms(1,3) by (simp_all del: of_nat_Suc)
qed

lemma transposed_nth: "x < xres \<Longrightarrow> y < yres \<Longrightarrow> transposed xres yres fb ! (x * yres + y) = fb ! (y * xres + x)"
  using cell_less [of x xres y yres] by (simp add: transposed_def)

lemma transposed_twice: "length fb = xres * yres \<Longrightarrow> transposed yres xres (transposed xres yres fb) = fb"
proof (rule nth_equalityI)
  fix d assume len: "length fb = xres * yres" and "d < length (transposed yres xres (transposed xres yres fb))"
  then have d: "d < yres * xres" by (simp add: transposed_def)
  then have "0 < xres" by (cases xres) auto
  then have "d div xres < yres" "d mod xres < xres" using d by (simp_all add: less_mult_imp_div_less)
  then show "transposed yres xres (transposed xres yres fb) ! d = fb ! d"
    using transposed_nth [of "d mod xres" xres "d div xres" yres fb] d by (simp add: transposed_def [of yres xres])
qed (simp add: transposed_def mult.commute)


section \<open>Showing a bitmap (fbbmp)\<close>

text \<open>The two headers, packed, with 32-bit \<^verbatim>\<open>long\<close>.\<close>

record bitmapfileheader =
  cfType :: bytes
  cfSize :: int
  cfReserved :: int
  cfoffBits :: int

record bitmapinfoheader =
  ciSize :: u32
  ciWidth :: int
  ciHeight :: int
  ciPlanes :: u16
  ciBitCount :: u16
  ciCompression :: u32
  ciSizeImage :: u32
  ciXPelsPerMeter :: int
  ciYPelsPerMeter :: int
  ciClrUsed :: u32
  ciClrImportant :: u32

definition long_at :: "nat \<Rightarrow> bytes \<Rightarrow> int" where
  "long_at k bs = sint (un_le32 (drop k bs))"

definition word_at :: "nat \<Rightarrow> bytes \<Rightarrow> u16" where
  "word_at k bs = of_nat (of_char (bs ! k) + 256 * of_char (bs ! (k + 1)))"

definition file_header :: "bytes \<Rightarrow> bitmapfileheader" where
  "file_header bs = \<lparr>cfType = take 2 bs, cfSize = long_at 2 bs, cfReserved = long_at 6 bs, cfoffBits = long_at 10 bs\<rparr>"

definition info_header :: "bytes \<Rightarrow> bitmapinfoheader" where
  "info_header bs = \<lparr>ciSize = un_le32 bs, ciWidth = long_at 4 bs, ciHeight = long_at 8 bs, ciPlanes = word_at 12 bs, ciBitCount = word_at 14 bs,
     ciCompression = un_le32 (drop 16 bs), ciSizeImage = un_le32 (drop 20 bs), ciXPelsPerMeter = long_at 24 bs, ciYPelsPerMeter = long_at 28 bs,
     ciClrUsed = un_le32 (drop 32 bs), ciClrImportant = un_le32 (drop 36 bs)\<rparr>"

definition trunc8 :: "int \<Rightarrow> int" where
  "trunc8 a = (if 0 \<le> a then a div 8 else - ((- a) div 8))"

text \<open>\<^verbatim>\<open>*((uint32_t*)(fbp + location)) = tmp\<close>, with the bytes of \<^verbatim>\<open>tmp\<close> in memory order.\<close>

definition put_pixel :: "int \<Rightarrow> bytes \<Rightarrow> bytes \<Rightarrow> bytes screen" where
  "put_pixel location px fbp =
     (if 0 \<le> location \<and> location + 4 \<le> int (length fbp)
      then Inr (take (nat location) fbp @ px @ drop (nat location + 4) fbp) else Inl OutsideMemory)"

text \<open>The loop; the first argument is what is left of the file.\<close>

fun draw_loop :: "bytes \<Rightarrow> bitmapinfoheader \<Rightarrow> int \<Rightarrow> int \<Rightarrow> int \<Rightarrow> int \<Rightarrow> bytes \<Rightarrow> bytes screen" where
  "draw_loop (blue # green # red # fp) InfoHead xres bits_per_pixel line_x line_y fbp =
     (let xbits = line_x * bits_per_pixel;
          ybits = (ciHeight InfoHead - line_y - 1) * xres * bits_per_pixel;
          location = trunc8 xbits + trunc8 ybits in
      if \<not> c_int xbits \<or> \<not> c_int (ciHeight InfoHead - line_y - 1) \<or> \<not> c_int ((ciHeight InfoHead - line_y - 1) * xres) \<or> \<not> c_int ybits
        \<or> \<not> c_int location \<or> \<not> c_int (line_x + 1) \<or> \<not> c_int (line_y + 1) then Inl SignedOverflow
      else rbind (put_pixel location [red, green, blue, NUL] fbp) (\<lambda>fbp1.
        if line_x + 1 = ciWidth InfoHead then
          if line_y + 1 = ciHeight InfoHead then Inr fbp1
          else draw_loop fp InfoHead xres bits_per_pixel 0 (line_y + 1) fbp1
        else draw_loop fp InfoHead xres bits_per_pixel (line_x + 1) line_y fbp1))"
| "draw_loop fp InfoHead xres bits_per_pixel line_x line_y fbp = Inr fbp"

text \<open>\<open>bmp\<close> is the file, \<open>None\<close> if it cannot be opened; \<^verbatim>\<open>fseek\<close> to a negative position fails and leaves the position where it was.\<close>

definition show_bmp :: "bytes option \<Rightarrow> int \<Rightarrow> int \<Rightarrow> bytes \<Rightarrow> (int \<times> bytes) screen" where
  "show_bmp bmp xres bits_per_pixel fbp =
     (case bmp of
        None \<Rightarrow> Inr (-1, fbp)
      | Some f \<Rightarrow>
          if length f < 14 then Inr (-2, fbp)
          else let FileHead = file_header f in
            if cfType FileHead \<noteq> ''BM'' then Inr (-3, fbp)
            else if length f < 14 + 40 then Inr (-4, fbp)
            else
              let InfoHead = info_header (drop 14 f);
                  fp = (if cfoffBits FileHead < 0 then 54 else nat (cfoffBits FileHead)) in
              rbind (draw_loop (drop fp f) InfoHead xres bits_per_pixel 0 0 fbp) (\<lambda>fbp1. Inr (0, fbp1)))"

subsection \<open>Pixels in memory\<close>

definition pixel_at :: "nat \<Rightarrow> bytes \<Rightarrow> bytes" where
  "pixel_at q fbp = take 4 (drop (4 * q) fbp)"

lemma put_pixel_at:
  assumes "4 * q + 4 \<le> length fbp" "length px = 4"
  shows "\<exists>fbp'. put_pixel (int (4 * q)) px fbp = Inr fbp' \<and> length fbp' = length fbp
    \<and> (\<forall>p. 4 * p + 4 \<le> length fbp \<longrightarrow> pixel_at p fbp' = (if p = q then px else pixel_at p fbp))"
proof -
  let ?m = "take (4 * q) fbp @ px @ drop (4 * q + 4) fbp"
  have "put_pixel (int (4 * q)) px fbp = Inr ?m"
    using assms by (simp add: put_pixel_def nat_mult_distrib)
  moreover have "pixel_at p ?m = (if p = q then px else pixel_at p fbp)" if "4 * p + 4 \<le> length fbp" for p
  proof (rule nth_equalityI)
    have "length ?m = length fbp" using assms by simp
    then show "length (pixel_at p ?m) = length (if p = q then px else pixel_at p fbp)"
      unfolding pixel_at_def length_take length_drop using assms(2) that by (simp del: length_append)
    fix i assume "i < length (pixel_at p ?m)"
    then have "i < 4" unfolding pixel_at_def length_take by simp
    then show "pixel_at p ?m ! i = (if p = q then px else pixel_at p fbp) ! i"
      using assms that by (cases p q rule: linorder_cases) (auto simp: pixel_at_def nth_append)
  qed
  ultimately show ?thesis using assms by auto
qed


text \<open>The place on the screen of the pixel with the number \<open>k\<close> of the file, and its bytes.\<close>

definition place :: "nat \<Rightarrow> nat \<Rightarrow> nat \<Rightarrow> nat \<Rightarrow> nat" where
  "place w h xres k = (h - 1 - k div w) * xres + k mod w"

definition colours :: "bytes \<Rightarrow> nat \<Rightarrow> bytes" where
  "colours dat k = [dat ! (3 * k + 2), dat ! (3 * k + 1), dat ! (3 * k), NUL]"

lemma place_less: "0 < w \<Longrightarrow> w \<le> xres \<Longrightarrow> k < w * h \<Longrightarrow> place w h xres k < h * xres"
proof -
  assume a: "0 < w" "w \<le> xres" "k < w * h"
  have "k mod w < w" using a(1) by simp
  then have "k mod w < xres" using a(2) by linarith
  moreover have "h - 1 - k div w < h" using a(3) by (cases h) auto
  ultimately have "k mod w < xres" "h - 1 - k div w < h" by simp_all
  then show ?thesis unfolding place_def using cell_less by blast
qed

lemma place_inj: "0 < w \<Longrightarrow> w \<le> xres \<Longrightarrow> j < w * h \<Longrightarrow> k < w * h \<Longrightarrow> place w h xres j = place w h xres k \<Longrightarrow> j = k"
proof -
  assume a: "0 < w" "w \<le> xres" "j < w * h" "k < w * h" "place w h xres j = place w h xres k"
  have m: "j mod w < xres" "k mod w < xres" using a(2) mod_less_divisor [OF a(1), of j] mod_less_divisor [OF a(1), of k] by linarith+
  have d: "j div w < h" "k div w < h" using a(3,4) by (simp_all add: less_mult_imp_div_less mult.commute)
  have "j mod w = k mod w" "h - 1 - j div w = h - 1 - k div w"
    using a(5) cell_index [OF m(1), of "h - 1 - j div w"] cell_index [OF m(2), of "h - 1 - k div w"] unfolding place_def by metis+
  then have "j div w = k div w" using d by linarith
  with \<open>j mod w = k mod w\<close> show ?thesis by (metis div_mult_mod_eq)
qed

lemma trunc8_bits: "trunc8 (int a * 32) = int (4 * a)"
  by (simp add: trunc8_def)

lemma three_bytes: "3 * k + 2 < length dat \<Longrightarrow>
    drop (3 * k) dat = dat ! (3 * k) # dat ! (3 * k + 1) # dat ! (3 * k + 2) # drop (3 * Suc k) dat"
  by (simp add: Cons_nth_drop_Suc [symmetric] eval_nat_numeral)

text \<open>The next pixel of the file is to the right, or at the start of the line above.\<close>

lemma next_cell: "0 < w \<Longrightarrow> Suc k mod w = (if Suc (k mod w) = w then 0 else Suc (k mod w))"
    "0 < w \<Longrightarrow> Suc k div w = (if Suc (k mod w) = w then Suc (k div w) else k div w)"
  by (simp_all add: mod_Suc div_Suc)

lemma location_of:
  assumes "0 < w" "w \<le> xres" "k < w * h" "32 * (h * xres) < 2147483648"
  shows "int (k mod w) * 32 = int (32 * (k mod w))"
    and "(int h - int (k div w) - 1) * int xres = int ((h - 1 - k div w) * xres)"
    and "32 * ((h - 1 - k div w) * xres + k mod w) < 2147483648" "k mod w < w" "k div w < h"
proof -
  show "k div w < h" using assms(3) by (simp add: less_mult_imp_div_less mult.commute)
  then have "int h - int (k div w) - 1 = int (h - 1 - k div w)" by simp
  then show "(int h - int (k div w) - 1) * int xres = int ((h - 1 - k div w) * xres)" by simp
  show "32 * ((h - 1 - k div w) * xres + k mod w) < 2147483648"
    using place_less [OF assms(1-3)] assms(4) by (simp add: place_def)
qed (use assms(1) in simp_all)

lemma in_range: "32 * (a + b) < 2147483648 \<Longrightarrow> int (32 * b) < 2147483648 \<and> int a < 2147483648 \<and> int a * 32 < 2147483648
    \<and> int (4 * (a + b)) < 2147483648 \<and> 0 \<le> int a"
  by simp

text \<open>One turn of the loop.\<close>

lemma draw_step:
  assumes "0 < w" "w \<le> xres" "k < w * h" "32 * (h * xres) < 2147483648" "3 * (w * h) \<le> length dat"
    and I: "ciWidth I = int w" "ciHeight I = int h"
  shows "draw_loop (drop (3 * k) dat) I (int xres) 32 (int (k mod w)) (int (k div w)) fbp =
    rbind (put_pixel (int (4 * place w h xres k)) (colours dat k) fbp) (\<lambda>m.
      if Suc k = w * h then Inr m
      else draw_loop (drop (3 * Suc k) dat) I (int xres) 32 (int (Suc k mod w)) (int (Suc k div w)) m)"
proof -
  note loc = location_of [OF assms(1-4)]
  have d: "3 * k + 2 < length dat" using assms(3,5) by linarith
  have h: "h \<le> h * xres" "xres \<le> h * xres" using assms(1,2,3) by (cases xres; cases h; simp)+
  have fin: "Suc k = w * h \<longleftrightarrow> Suc (k mod w) = w \<and> Suc (k div w) = h"
    using next_cell [OF assms(1), of k] assms(1) loc(4,5) div_mult_mod_eq [of "Suc k" w]
    by (metis add.right_neutral mod_mult_self1_is_0 mult.commute nonzero_mult_div_cancel_left not_gr_zero old.nat.distinct(2))
  have bits: "trunc8 (int (32 * (k mod w))) + trunc8 (int ((h - 1 - k div w) * xres) * 32) = int (4 * place w h xres k)"
    using trunc8_bits [of "k mod w"] by (simp only: trunc8_bits) (simp add: place_def trunc8_def)
  have ok: "c_int (int (32 * (k mod w)))" "c_int (int h - int (k div w) - 1)" "c_int (int ((h - 1 - k div w) * xres))"
    "c_int (int ((h - 1 - k div w) * xres) * 32)" "c_int (int (4 * place w h xres k))" "c_int (int (k mod w) + 1)" "c_int (int (k div w) + 1)"
    unfolding c_int_def place_def using in_range [OF loc(3)] loc(4,5) h assms(2,4) by linarith+
  have eq: "int (k mod w) + 1 = int w \<longleftrightarrow> Suc (k mod w) = w" "int (k div w) + 1 = int h \<longleftrightarrow> Suc (k div w) = h" by linarith+
  have col: "colours dat k = [dat ! (3 * k + 2), dat ! (3 * k + 1), dat ! (3 * k), NUL]" by (simp add: colours_def)
  have turn: "draw_loop (drop (3 * k) dat) I (int xres) 32 (int (k mod w)) (int (k div w)) fbp =
    rbind (put_pixel (int (4 * place w h xres k)) (colours dat k) fbp) (\<lambda>m.
      if Suc (k mod w) = w then
        if Suc (k div w) = h then Inr m
        else draw_loop (drop (3 * Suc k) dat) I (int xres) 32 0 (int (k div w) + 1) m
      else draw_loop (drop (3 * Suc k) dat) I (int xres) 32 (int (k mod w) + 1) (int (k div w)) m)"
    unfolding three_bytes [OF d] draw_loop.simps(1) Let_def I loc(1,2) bits eq col by (simp only: ok de_Morgan_conj not_True_eq_False simp_thms if_False)
  then show ?thesis
    unfolding fin next_cell [OF assms(1)] turn by (cases "Suc (k mod w) = w"; cases "Suc (k div w) = h") (simp_all add: add.commute)
qed

lemma draw_loop_spec:
  assumes "0 < w" "w \<le> xres" "32 * (h * xres) < 2147483648" "3 * (w * h) \<le> length dat"
    and I: "ciWidth I = int w" "ciHeight I = int h"
    and "4 * (h * xres) \<le> length fbp" "k < w * h"
  shows "\<exists>m. draw_loop (drop (3 * k) dat) I (int xres) 32 (int (k mod w)) (int (k div w)) fbp = Inr m \<and> length m = length fbp
    \<and> (\<forall>j. k \<le> j \<longrightarrow> j < w * h \<longrightarrow> pixel_at (place w h xres j) m = colours dat j)
    \<and> (\<forall>p. 4 * p + 4 \<le> length fbp \<longrightarrow> p \<notin> place w h xres ` {k..<w * h} \<longrightarrow> pixel_at p m = pixel_at p fbp)"
  using assms(7,8)
proof (induction "w * h - k" arbitrary: k fbp rule: less_induct)
  case less
  let ?q = "place w h xres k"
  have q: "4 * place w h xres j + 4 \<le> length fbp" if "j < w * h" for j
    using place_less [OF assms(1,2) that] less.prems(1) by linarith
  have len: "length (colours dat k) = 4" by (simp add: colours_def)
  from put_pixel_at [OF q [OF less.prems(2)] len] obtain m where m: "put_pixel (int (4 * ?q)) (colours dat k) fbp = Inr m" "length m = length fbp"
    "\<And>p. 4 * p + 4 \<le> length fbp \<Longrightarrow> pixel_at p m = (if p = ?q then colours dat k else pixel_at p fbp)" by auto
  note step = draw_step [OF assms(1,2) less.prems(2) assms(3,4) I, of fbp]
  have range: "{k..<w * h} = insert k {Suc k..<w * h}" using less.prems(2) by auto
  show ?case
  proof (cases "Suc k = w * h")
    case True
    then have "j = k" if "k \<le> j" "j < w * h" for j using that by simp
    then show ?thesis using step True m q [OF less.prems(2)] range by fastforce
  next
    case False
    then have k: "Suc k < w * h" using less.prems(2) by simp
    have "w * h - Suc k < w * h - k" "4 * (h * xres) \<le> length m" using k less.prems(1) m(2) by simp_all
    from less.hyps [OF this k] obtain n where
      n: "draw_loop (drop (3 * Suc k) dat) I (int xres) 32 (int (Suc k mod w)) (int (Suc k div w)) m = Inr n" "length n = length m"
      "\<forall>j. Suc k \<le> j \<longrightarrow> j < w * h \<longrightarrow> pixel_at (place w h xres j) n = colours dat j"
      "\<forall>p. 4 * p + 4 \<le> length m \<longrightarrow> p \<notin> place w h xres ` {Suc k..<w * h} \<longrightarrow> pixel_at p n = pixel_at p m"
      by (elim exE conjE) (rule that)
    note n4 = n(4) [unfolded m(2), rule_format]
    have "?q \<notin> place w h xres ` {Suc k..<w * h}"
    proof
      assume "?q \<in> place w h xres ` {Suc k..<w * h}"
      then obtain j where "?q = place w h xres j" "Suc k \<le> j" "j < w * h" by auto
      with place_inj [OF assms(1,2) less.prems(2), of j] show False by simp
    qed
    then have "pixel_at ?q n = colours dat k" using n4 [OF q [OF less.prems(2)]] m(3) [OF q [OF less.prems(2)]] by simp
    then have "pixel_at (place w h xres j) n = colours dat j" if "k \<le> j" "j < w * h" for j
      using n(3) that by (cases "j = k") auto
    moreover have "pixel_at p n = pixel_at p fbp" if "4 * p + 4 \<le> length fbp" "p \<notin> place w h xres ` {k..<w * h}" for p
      using n4 [OF that(1)] m(3) [OF that(1)] that(2) range by auto
    ultimately show ?thesis using step False m(1,2) n(1,2) by auto
  qed
qed

lemma cell_number: "x < w \<Longrightarrow> y < h \<Longrightarrow> place w h xres (y * w + x) = (h - 1 - y) * xres + x \<and> y * w + x < w * h" for x y w h xres :: nat
  using cell_less [of y h x w] by (simp add: place_def mult.commute)

lemma outside_picture: "0 < w \<Longrightarrow> w \<le> xres \<Longrightarrow> c < xres \<Longrightarrow> h \<le> r \<or> w \<le> c \<Longrightarrow> r * xres + c \<notin> place w h xres ` {0..<w * h}" for r c :: nat
proof
  assume a: "0 < w" "w \<le> xres" "c < xres" "h \<le> r \<or> w \<le> c" "r * xres + c \<in> place w h xres ` {0..<w * h}"
  then obtain k where k: "k < w * h" "r * xres + c = (h - 1 - k div w) * xres + k mod w" by (auto simp: place_def)
  have m: "k mod w < w" "k mod w < xres" using a(1,2) mod_less_divisor [OF a(1), of k] by linarith+
  have "c = k mod w" "r = h - 1 - k div w"
    using k(2) cell_index [OF a(3), of r] cell_index [OF m(2), of "h - 1 - k div w"] by metis+
  moreover have "0 < h" using k(1) by (cases h) auto
  ultimately show False using a(4) m(1) by linarith
qed

section \<open>Properties\<close>

text \<open>C39: reading the frame buffer in order and writing the copy in order do the same: for a positive count, both fill the whole copy with the
  transposed picture (the pixel in column \<open>x\<close> and row \<open>y\<close> goes to row \<open>x\<close> and column \<open>y\<close>), whatever the copy held before, without
  leaving either memory; a second pass over the result gives the first picture back.\<close>

theorem rotations_agree:
  assumes "length buffer = xres * yres" "length fb = xres * yres" "xres * yres \<le> 2147483648" "0 < n" "c_int n"
  shows "\<exists>out. rotate_bmp buffer fb xres yres n = Some (Inr out) \<and> write_continue buffer fb xres yres n = Some (Inr out)
    \<and> length out = xres * yres \<and> (\<forall>x < xres. \<forall>y < yres. out ! (x * yres + y) = fb ! (y * xres + x))
    \<and> rotate_bmp buffer out yres xres n = Some (Inr fb) \<and> write_continue buffer out yres xres n = Some (Inr fb)"
proof (intro exI conjI)
  let ?out = "transposed xres yres fb"
  have len: "length ?out = xres * yres" by (simp add: transposed_def)
  show "rotate_bmp buffer fb xres yres n = Some (Inr ?out)" "write_continue buffer fb xres yres n = Some (Inr ?out)"
    using transposed_passes [OF assms(1) _ assms(3-5), of fb] assms(2) by simp_all
  show "\<forall>x < xres. \<forall>y < yres. ?out ! (x * yres + y) = fb ! (y * xres + x)" using transposed_nth by simp
  show "rotate_bmp buffer ?out yres xres n = Some (Inr fb)" "write_continue buffer ?out yres xres n = Some (Inr fb)"
    using transposed_passes [of buffer yres xres ?out n] assms len transposed_twice [OF assms(2)] by (simp_all add: mult.commute)
qed (simp add: transposed_def)

theorem rotations_agree_witness:
  "rotate_bmp [0, 0, 0, 0, 0, 0] [1, 2, 3, 4, 5, 6] 3 2 5 = write_continue [0, 0, 0, 0, 0, 0] [1, 2, 3, 4, 5, 6] 3 2 5
   \<and> (\<exists>out. rotate_bmp [0, 0, 0, 0, 0, 0] [1, 2, 3, 4, 5, 6] 3 2 5 = Some (Inr out) \<and> out ! 1 = 4 \<and> out ! 2 = 2)"
proof -
  from rotations_agree [of "[0, 0, 0, 0, 0, 0]" 3 2 "[1, 2, 3, 4, 5, 6]" 5] obtain out where
    out: "rotate_bmp [0, 0, 0, 0, 0, 0] [1, 2, 3, 4, 5, 6] 3 2 5 = Some (Inr out)"
    "write_continue [0, 0, 0, 0, 0, 0] [1, 2, 3, 4, 5, 6] 3 2 5 = Some (Inr out)"
    "\<And>x y. x < 3 \<Longrightarrow> y < 2 \<Longrightarrow> out ! (x * 2 + y) = [1, 2, 3, 4, 5, 6] ! (y * 3 + x)" by (auto simp: c_int_def)
  from out(3) [of 0 1] out(3) [of 1 0] have "out ! 1 = 4" "out ! 2 = 2" by simp_all
  with out(1,2) show ?thesis by simp
qed

text \<open>C40: a bitmap of 24 bits per pixel whose lines are stored without padding and which fits on a screen of 32 bits per pixel is shown
  upside up with its own colours: the call returns 0, column \<open>x\<close> of the stored line \<open>y\<close> becomes column \<open>x\<close> of the line \<open>y\<close> from below of
  the picture, red first, and every other pixel of the screen keeps its bytes.\<close>

theorem show_bmp_draws:
  assumes "54 \<le> length f" "take 2 f = ''BM''" "cfoffBits (file_header f) = int off" "off + 3 * (w * h) \<le> length f"
    and "ciWidth (info_header (drop 14 f)) = int w" "ciHeight (info_header (drop 14 f)) = int h"
    and "0 < w" "0 < h" "w \<le> xres" "32 * (h * xres) < 2147483648" "4 * (h * xres) \<le> length fbp"
  shows "\<exists>m. show_bmp (Some f) (int xres) 32 fbp = Inr (0, m) \<and> length m = length fbp
    \<and> (\<forall>x < w. \<forall>y < h. pixel_at ((h - 1 - y) * xres + x) m =
          [f ! (off + 3 * (y * w + x) + 2), f ! (off + 3 * (y * w + x) + 1), f ! (off + 3 * (y * w + x)), NUL])
    \<and> (\<forall>r c. c < xres \<longrightarrow> 4 * (r * xres + c) + 4 \<le> length fbp \<longrightarrow> h \<le> r \<or> w \<le> c \<longrightarrow>
          pixel_at (r * xres + c) m = pixel_at (r * xres + c) fbp)"
proof -
  have off: "off \<le> length f" using assms(4) by simp
  have dat: "3 * (w * h) \<le> length (drop off f)" using assms(4) by simp
  from draw_loop_spec [OF assms(7,9,10) dat assms(5,6,11), of 0] assms(7,8) obtain m where
    m: "draw_loop (drop off f) (info_header (drop 14 f)) (int xres) 32 0 0 fbp = Inr m" "length m = length fbp"
    "\<And>j. j < w * h \<Longrightarrow> pixel_at (place w h xres j) m = colours (drop off f) j"
    "\<And>p. 4 * p + 4 \<le> length fbp \<Longrightarrow> p \<notin> place w h xres ` {0..<w * h} \<Longrightarrow> pixel_at p m = pixel_at p fbp" by auto
  have "show_bmp (Some f) (int xres) 32 fbp = Inr (0, m)"
    using assms(1-3) m(1) by (simp add: show_bmp_def Let_def file_header_def)
  moreover have "pixel_at ((h - 1 - y) * xres + x) m =
      [f ! (off + 3 * (y * w + x) + 2), f ! (off + 3 * (y * w + x) + 1), f ! (off + 3 * (y * w + x)), NUL]" if "x < w" "y < h" for x y
    using m(3) [of "y * w + x"] cell_number [OF that, of xres] off by (simp add: colours_def add.assoc)
  moreover have "pixel_at (r * xres + c) m = pixel_at (r * xres + c) fbp"
    if "c < xres" "4 * (r * xres + c) + 4 \<le> length fbp" "h \<le> r \<or> w \<le> c" for r c
    using m(4) [OF that(2)] outside_picture [OF assms(7,9) that(1,3)] by blast
  ultimately show ?thesis using m(2) by blast
qed

text \<open>A picture of one column and two lines, blue below and red above.\<close>

definition demo_bmp :: bytes where
  "demo_bmp = ''BM'' @ le32 60 @ le32 0 @ le32 54 @ le32 40 @ le32 1 @ le32 2 @ [CHR 0x01, NUL, CHR 0x18, NUL] @ le32 0 @ le32 0 @ le32 0 @ le32 0 @ le32 0 @ le32 0
     @ [CHR 0xff, NUL, NUL, NUL, NUL, CHR 0xff]"

theorem show_bmp_draws_witness:
  "\<exists>m. show_bmp (Some demo_bmp) 1 32 (replicate 8 NUL) = Inr (0, m)
     \<and> pixel_at 0 m = [CHR 0xff, NUL, NUL, NUL] \<and> pixel_at 1 m = [NUL, NUL, CHR 0xff, NUL]"
proof -
  have head: "length demo_bmp = 60" "take 2 demo_bmp = ''BM''" "cfoffBits (file_header demo_bmp) = int 54"
    "ciWidth (info_header (drop 14 demo_bmp)) = int 1" "ciHeight (info_header (drop 14 demo_bmp)) = int 2"
    and dat: "drop 54 demo_bmp = [CHR 0xff, NUL, NUL, NUL, NUL, CHR 0xff]"
    by (simp_all add: demo_bmp_def file_header_def info_header_def long_at_def)
  have "demo_bmp ! (54 + i) = [CHR 0xff, NUL, NUL, NUL, NUL, CHR 0xff] ! i" for i
    using nth_drop [of 54 demo_bmp i] dat head(1) by simp
  from this [of 0] this [of 1] this [of 2] this [of 3] this [of 4] this [of 5]
  have b: "demo_bmp ! 54 = CHR 0xff" "demo_bmp ! 55 = NUL" "demo_bmp ! 56 = NUL" "demo_bmp ! 57 = NUL" "demo_bmp ! 58 = NUL" "demo_bmp ! 59 = CHR 0xff"
    by simp_all
  from show_bmp_draws [of demo_bmp 54 1 2 1 "replicate 8 NUL", OF _ head(2,3) _ head(4,5)] head(1) obtain m where
    m: "show_bmp (Some demo_bmp) 1 32 (replicate 8 NUL) = Inr (0, m)"
    "\<And>y. y < 2 \<Longrightarrow> pixel_at (1 - y) m = [demo_bmp ! (54 + 3 * y + 2), demo_bmp ! (54 + 3 * y + 1), demo_bmp ! (54 + 3 * y), NUL]" by auto
  from m(2) [of 0] m(2) [of 1] b have "pixel_at 1 m = [NUL, NUL, CHR 0xff, NUL]" "pixel_at 0 m = [CHR 0xff, NUL, NUL, NUL]" by simp_all
  with m(1) show ?thesis by blast
qed

end
