(* ===== verification/Uevent_Tool.thy ===== *)
theory Uevent_Tool
  imports Adb_Prelude
begin

text \<open>
  The listener for kernel events (uevent/uevent.c, uevent/vold.c): a message is a header and variables, each ended by a NUL. The buffer
  holds the bytes received and then bytes nobody wrote: reading on into those is a fault, as is a 33rd parameter and the comparison with a
  subsystem that was not given. Log lines are not kept; copies of strings are assumed to find memory.
\<close>

section \<open>Events\<close>

datatype uevent_action = action_add | action_remove | action_change

record uevent =
  path :: "string option"
  action :: uevent_action
  subsystem :: "string option"
  param :: "string list"
  seqnum :: u32

definition UEVENT_PARAMS_MAX :: nat where "UEVENT_PARAMS_MAX = 32"

text \<open>After \<^verbatim>\<open>memset\<close>.\<close>

definition blank_uevent :: uevent where
  "blank_uevent = \<lparr>path = None, action = action_add, subsystem = None, param = [], seqnum = 0\<rparr>"

text \<open>\<^verbatim>\<open>s += strlen(s) + 1\<close>\<close>

definition next_string :: "bytes \<Rightarrow> bytes" where
  "next_string s = drop (length (c_str s) + 1) s"

lemma next_string_less [termination_simp]: "s \<noteq> [] \<Longrightarrow> length (next_string s) < length s"
  by (cases s) (simp_all add: next_string_def)

text \<open>The first pass, which logs every string.\<close>

fun log_strings :: "bytes \<Rightarrow> unit res" where
  "log_strings s =
     (if s = [] then Inr ()
      else if NUL \<notin> set s then Inl UninitRead
      else log_strings (next_string s))"

declare log_strings.simps [simp del]

text \<open>The path is what follows the first \<^verbatim>\<open>@\<close>, looked for beyond the end of the string too.\<close>

definition header_path :: "bytes \<Rightarrow> string res" where
  "header_path s =
     (case dropWhile (\<lambda>c. c \<noteq> CHR ''@'') s of
        [] \<Rightarrow> Inl UninitRead
      | _ # p \<Rightarrow> if NUL \<in> set p then Inr (c_str p) else Inl UninitRead)"

text \<open>One variable.\<close>

definition take_variable :: "string \<Rightarrow> uevent \<Rightarrow> uevent res" where
  "take_variable s event =
     (if starts_with ''ACTION='' s then
        let a = drop 7 s in
        Inr (if a = ''add'' then event\<lparr>action := action_add\<rparr>
             else if a = ''change'' then event\<lparr>action := action_change\<rparr>
             else if a = ''remove'' then event\<lparr>action := action_remove\<rparr>
             else event)
      else if starts_with ''SEQNUM='' s then Inr (event\<lparr>seqnum := word_of_int (atoi (drop 7 s))\<rparr>)
      else if starts_with ''SUBSYSTEM='' s then Inr (event\<lparr>subsystem := Some (drop 10 s)\<rparr>)
      else if UEVENT_PARAMS_MAX \<le> length (param event) then Inl BufferOverflow
      else Inr (event\<lparr>param := param event @ [s]\<rparr>))"

fun message_loop :: "bool \<Rightarrow> bytes \<Rightarrow> uevent \<Rightarrow> uevent res" where
  "message_loop first s event =
     (if s = [] then Inr event
      else rbind (if first then rbind (header_path s) (\<lambda>p. Inr (event\<lparr>path := Some p\<rparr>))
                  else if NUL \<notin> set s then Inl UninitRead else take_variable (c_str s) event)
        (\<lambda>event1. if NUL \<notin> set s then Inl UninitRead else message_loop False (next_string s) event1))"

declare message_loop.simps [simp del]

text \<open>\<^verbatim>\<open>get_uevent_param\<close>: the parameter and the offset in it to which the result points.\<close>

fun get_uevent_param :: "string list \<Rightarrow> string \<Rightarrow> (string \<times> nat) option" where
  "get_uevent_param [] param_name = None"
| "get_uevent_param (p # ps) param_name =
     (if starts_with param_name p then Some (p, length param_name + 1) else get_uevent_param ps param_name)"

text \<open>The handlers; their work is commented out.\<close>

definition handle_switch_event :: "uevent \<Rightarrow> int" where
  "handle_switch_event event =
     (let name = get_uevent_param (param event) ''SWITCH_NAME''; state = get_uevent_param (param event) ''SWITCH_STATE'' in 0)"

definition handle_battery_event :: "uevent \<Rightarrow> int" where "handle_battery_event event = 0"
definition handle_mmc_event :: "uevent \<Rightarrow> int" where "handle_mmc_event event = 0"
definition handle_block_event :: "uevent \<Rightarrow> int" where "handle_block_event event = 0"
definition handle_bdi_event :: "uevent \<Rightarrow> int" where "handle_bdi_event event = 0"
definition handle_powersupply_event :: "uevent \<Rightarrow> int" where "handle_powersupply_event event = 0"
definition handle_usb_event :: "uevent \<Rightarrow> int" where "handle_usb_event event = 0"

definition dispatch_table :: "(string \<times> (uevent \<Rightarrow> int)) list" where
  "dispatch_table =
     [(''switch'', handle_switch_event), (''battery'', handle_battery_event), (''mmc'', handle_mmc_event),
      (''block'', handle_block_event), (''bdi'', handle_bdi_event), (''power_supply'', handle_powersupply_event),
      (''usb'', handle_usb_event), (''scsi'', handle_usb_event)]"

definition dispatch_uevent :: "uevent \<Rightarrow> int res" where
  "dispatch_uevent event =
     (case subsystem event of
        None \<Rightarrow> Inl NullDeref
      | Some s \<Rightarrow> (case map_of dispatch_table s of None \<Rightarrow> Inr 0 | Some h \<Rightarrow> Inr (h event)))"

text \<open>\<open>msg\<close> is the result of \<^verbatim>\<open>recv\<close>, \<open>mem\<close> that of \<^verbatim>\<open>malloc\<close>: an error number, or what was received, at most 65536 bytes.\<close>

definition parse_uevent :: "bytes \<Rightarrow> uevent res" where
  "parse_uevent buffer = rbind (log_strings buffer) (\<lambda>_. message_loop True buffer blank_uevent)"

definition process_uevent_message :: "int + bytes \<Rightarrow> int + unit \<Rightarrow> int res" where
  "process_uevent_message msg mem =
     (case msg of
        Inl errno \<Rightarrow> Inr (- errno)
      | Inr buffer \<Rightarrow>
          (case mem of
             Inl errno \<Rightarrow> Inr (- errno)
           | Inr _ \<Rightarrow> rbind (parse_uevent buffer) dispatch_uevent))"

text \<open>The loop of \<^verbatim>\<open>main\<close>, over what the calls of \<^verbatim>\<open>select\<close> and of the system after it give; the results of the messages are collected.\<close>

datatype turn = Select_Fails | Times_Out | Ready "int + bytes" "int + unit"

fun main_loop :: "turn list \<Rightarrow> int list res" where
  "main_loop [] = Inr []"
| "main_loop (Select_Fails # ts) = main_loop ts"
| "main_loop (Times_Out # ts) = main_loop ts"
| "main_loop (Ready msg mem # ts) = rbind (process_uevent_message msg mem) (\<lambda>rc. rbind (main_loop ts) (\<lambda>rcs. Inr (rc # rcs)))"

section \<open>Messages of the kernel\<close>

definition message :: "string \<Rightarrow> string \<Rightarrow> string list \<Rightarrow> bytes" where
  "message act p vars = act @ ''@'' @ p @ [NUL] @ concat (map (\<lambda>v. v @ [NUL]) vars)"

definition clean :: "string \<Rightarrow> bool" where
  "clean v \<longleftrightarrow> NUL \<notin> set v"

definition values_of :: "string \<Rightarrow> string list \<Rightarrow> string list" where
  "values_of key vars = map (drop (length key)) (filter (starts_with key) vars)"

definition others :: "string list \<Rightarrow> string list" where
  "others vars = filter (\<lambda>v. \<not> starts_with ''ACTION='' v \<and> \<not> starts_with ''SEQNUM='' v \<and> \<not> starts_with ''SUBSYSTEM='' v) vars"

definition action_names :: "(string \<times> uevent_action) list" where
  "action_names = [(''add'', action_add), (''change'', action_change), (''remove'', action_remove)]"

text \<open>The event a message stands for: the last value of a variable counts, the parameters keep their order.\<close>

definition last_or :: "'a \<Rightarrow> 'a list \<Rightarrow> 'a" where
  "last_or d xs = (if xs = [] then d else last xs)"

definition described :: "string option \<Rightarrow> string list \<Rightarrow> uevent" where
  "described p vars = \<lparr>path = p,
     action = last_or action_add (map (\<lambda>v. the (map_of action_names v)) (filter (\<lambda>v. map_of action_names v \<noteq> None) (values_of ''ACTION='' vars))),
     subsystem = last_or None (map Some (values_of ''SUBSYSTEM='' vars)),
     param = others vars,
     seqnum = last_or 0 (map (\<lambda>v. word_of_int (atoi v)) (values_of ''SEQNUM='' vars))\<rparr>"

subsection \<open>Reading strings\<close>

lemma c_str_clean: "clean v \<Longrightarrow> c_str (v @ NUL # r) = v"
  by (auto simp: clean_def c_str_def takeWhile_tail intro!: takeWhile_eq_all_conv [THEN iffD2])

lemma next_string_clean: "clean v \<Longrightarrow> next_string (v @ NUL # r) = r"
  by (simp add: next_string_def c_str_clean)

lemma log_strings_clean: "list_all clean vars \<Longrightarrow> log_strings (concat (map (\<lambda>v. v @ [NUL]) vars)) = Inr ()"
  by (induction vars) (simp_all add: log_strings.simps [of "[]"] log_strings.simps [of "_ @ NUL # _"] next_string_clean)

lemma message_strings: "message act p vars = concat (map (\<lambda>v. v @ [NUL]) ((act @ ''@'' @ p) # vars))"
  by (simp add: message_def)

lemma header_path_message:
  assumes "clean p" "CHR ''@'' \<notin> set act"
  shows "header_path (message act p vars) = Inr p"
proof -
  have "dropWhile (\<lambda>c. c \<noteq> CHR ''@'') (act @ CHR ''@'' # r) = CHR ''@'' # r" for r
    using assms(2) by (subst dropWhile_append2) auto
  then show ?thesis using assms(1) by (simp add: header_path_def message_def c_str_clean)
qed

subsection \<open>Reading variables\<close>

lemma last_or_snoc: "last_or d (xs @ [x]) = x" "last_or d [] = d"
  by (simp_all add: last_or_def)

lemma prefix_clash: "starts_with ''ACTION='' v \<Longrightarrow> \<not> starts_with ''SEQNUM='' v" "starts_with ''ACTION='' v \<Longrightarrow> \<not> starts_with ''SUBSYSTEM='' v"
    "starts_with ''SEQNUM='' v \<Longrightarrow> \<not> starts_with ''SUBSYSTEM='' v"
  by (auto split: list.splits)

lemma described_snoc:
  assumes "length (others vs) \<le> 32"
  shows "take_variable v (described p vs) =
    (if length (others (vs @ [v])) \<le> 32 then Inr (described p (vs @ [v])) else Inl BufferOverflow)"
proof (cases "starts_with ''ACTION='' v")
  case True
  note clash = prefix_clash(1,2) [OF True]
  have "take_variable v (described p vs) = Inr (case map_of action_names (drop 7 v) of None \<Rightarrow> described p vs
      | Some a \<Rightarrow> described p vs\<lparr>action := a\<rparr>)"
    using True by (simp add: take_variable_def action_names_def Let_def)
  moreover have "described p (vs @ [v]) = (case map_of action_names (drop 7 v) of None \<Rightarrow> described p vs
      | Some a \<Rightarrow> described p vs\<lparr>action := a\<rparr>)"
    using True clash by (auto simp: described_def values_of_def others_def last_or_snoc eval_nat_numeral simp del: starts_with_Cons split: option.split)
  ultimately show ?thesis using assms True clash by (simp add: others_def del: starts_with_Cons)
next
  case a: False
  then show ?thesis
    using assms prefix_clash [of v] unfolding take_variable_def
    by (auto simp: described_def values_of_def others_def last_or_snoc UEVENT_PARAMS_MAX_def eval_nat_numeral simp del: starts_with_Cons)
qed

lemma message_loop_variables:
  assumes "list_all clean vars" "length (others vs) \<le> 32"
  shows "message_loop False (concat (map (\<lambda>v. v @ [NUL]) vars)) (described p vs) =
    (if length (others (vs @ vars)) \<le> 32 then Inr (described p (vs @ vars)) else Inl BufferOverflow)"
  using assms
proof (induction vars arbitrary: vs)
  case Nil
  then show ?case by (simp add: message_loop.simps)
next
  case (Cons v vars)
  have "message_loop False (concat (map (\<lambda>v. v @ [NUL]) (v # vars))) (described p vs) =
      rbind (take_variable v (described p vs)) (message_loop False (concat (map (\<lambda>v. v @ [NUL]) vars)))"
    using Cons.prems(1) by (simp add: message_loop.simps [of False "v @ NUL # _"] c_str_clean next_string_clean)
  then show ?case
    using Cons.IH [of "vs @ [v]"] Cons.prems described_snoc [OF Cons.prems(2)] by (auto simp: others_def)
qed

lemma parse_message:
  assumes "clean act" "clean p" "CHR ''@'' \<notin> set act" "list_all clean vars"
  shows "parse_uevent (message act p vars) =
    (if length (others vars) \<le> 32 then Inr (described (Some p) vars) else Inl BufferOverflow)"
proof -
  have head: "clean (act @ ''@'' @ p)" using assms(1,2) by (simp add: clean_def)
  have "log_strings (message act p vars) = Inr ()"
    unfolding message_strings using head assms(4) by (intro log_strings_clean) simp
  moreover have "next_string (message act p vars) = concat (map (\<lambda>v. v @ [NUL]) vars)"
    using next_string_clean [OF head] by (simp add: message_def)
  moreover have "blank_uevent\<lparr>path := Some p\<rparr> = described (Some p) []"
    by (simp add: blank_uevent_def described_def values_of_def others_def last_or_snoc)
  moreover have "NUL \<in> set (message act p vars)" "message act p vars \<noteq> []" by (simp_all add: message_def)
  ultimately show ?thesis
    using message_loop_variables [OF assms(4), of "[]" "Some p"]
    by (simp add: parse_uevent_def message_loop.simps [of True] header_path_message [OF assms(2,3)] others_def)
qed

lemma handlers_zero: "map_of dispatch_table s = Some h \<Longrightarrow> h event = 0"
  by (auto simp: dispatch_table_def handle_switch_event_def handle_battery_event_def handle_mmc_event_def handle_block_event_def
      handle_bdi_event_def handle_powersupply_event_def handle_usb_event_def split: if_splits)

lemma dispatch_given: "subsystem event = Some s \<Longrightarrow> dispatch_uevent event = Inr 0"
  by (auto simp: dispatch_uevent_def handlers_zero split: option.split)

text \<open>The listener goes on as long as the messages are of that form; failing calls do not end it.\<close>

fun harmless :: "turn \<Rightarrow> bool" where
  "harmless (Ready (Inr buffer) (Inr _)) \<longleftrightarrow>
     (case parse_uevent buffer of Inl _ \<Rightarrow> False | Inr event \<Rightarrow> subsystem event \<noteq> None)"
| "harmless _ \<longleftrightarrow> True"

lemma harmless_message: "clean act \<Longrightarrow> clean p \<Longrightarrow> CHR ''@'' \<notin> set act \<Longrightarrow> list_all clean vars \<Longrightarrow> length (others vars) \<le> 32
    \<Longrightarrow> values_of ''SUBSYSTEM='' vars \<noteq> [] \<Longrightarrow> harmless (Ready (Inr (message act p vars)) (Inr ()))"
  by (simp add: parse_message described_def last_or_def last_map)

lemma listener_goes_on: "list_all harmless ts \<Longrightarrow> \<exists>rcs. main_loop ts = Inr rcs"
proof (induction ts rule: main_loop.induct)
  case (4 msg mem ts)
  then have "\<exists>rc. process_uevent_message msg mem = Inr rc"
    by (cases msg; cases mem) (auto simp: process_uevent_message_def dispatch_given split: sum.splits)
  with 4 show ?case by auto
qed simp_all

section \<open>Properties\<close>

text \<open>C36: a message made of a header \<^verbatim>\<open>action@path\<close> and variables, each ended by a NUL, is read as it was meant, whatever the order of the
  variables: the path is that of the header; of \<^verbatim>\<open>ACTION\<close>, \<^verbatim>\<open>SUBSYSTEM\<close> and \<^verbatim>\<open>SEQNUM\<close> the last value counts (an action of another
  name is passed over); all other variables become the parameters, in their order. With at most 32 parameters the call returns 0 if there is
  a subsystem and reads through a null pointer if there is none; a 33rd parameter is written behind the array.\<close>

theorem uevent_message_read:
  assumes "clean act" "clean p" "CHR ''@'' \<notin> set act" "list_all clean vars"
  shows "(length (others vars) \<le> 32 \<longrightarrow> parse_uevent (message act p vars) = Inr (described (Some p) vars))
    \<and> process_uevent_message (Inr (message act p vars)) (Inr ()) =
      (if 32 < length (others vars) then Inl BufferOverflow
       else if values_of ''SUBSYSTEM='' vars = [] then Inl NullDeref else Inr 0)"
proof -
  have "subsystem (described (Some p) vars) = (if values_of ''SUBSYSTEM='' vars = [] then None else Some (last (values_of ''SUBSYSTEM='' vars)))"
    by (simp add: described_def last_or_def last_map)
  then show ?thesis
    using parse_message [OF assms] dispatch_given [of "described (Some p) vars"]
    by (simp add: process_uevent_message_def dispatch_uevent_def)
qed

theorem uevent_message_read_witness:
  "parse_uevent (message ''add'' ''/devices/usb1'' [''ACTION=remove'', ''DEVNUM=2'', ''SUBSYSTEM=usb'', ''SEQNUM=7'']) =
     Inr \<lparr>path = Some ''/devices/usb1'', action = action_remove, subsystem = Some ''usb'', param = [''DEVNUM=2''], seqnum = 7\<rparr>
   \<and> process_uevent_message (Inr (message ''add'' ''/devices/usb1'' [''ACTION=remove'', ''DEVNUM=2'', ''SUBSYSTEM=usb'', ''SEQNUM=7''])) (Inr ()) = Inr 0
   \<and> process_uevent_message (Inr (message ''add'' ''/x'' [''ACTION=add''])) (Inr ()) = Inl NullDeref"
proof -
  have "described (Some ''/devices/usb1'') [''ACTION=remove'', ''DEVNUM=2'', ''SUBSYSTEM=usb'', ''SEQNUM=7''] =
      \<lparr>path = Some ''/devices/usb1'', action = action_remove, subsystem = Some ''usb'', param = [''DEVNUM=2''], seqnum = 7\<rparr>"
    by code_simp
  moreover have "length (others [''ACTION=remove'', ''DEVNUM=2'', ''SUBSYSTEM=usb'', ''SEQNUM=7'']) = 1"
    "values_of ''SUBSYSTEM='' [''ACTION=remove'', ''DEVNUM=2'', ''SUBSYSTEM=usb'', ''SEQNUM=7''] = [''usb'']"
    "length (others [''ACTION=add'']) = 0" "values_of ''SUBSYSTEM='' [''ACTION=add''] = []"
    by (simp_all add: others_def values_of_def)
  ultimately show ?thesis
    using uevent_message_read [of "''add''" "''/devices/usb1''" "[''ACTION=remove'', ''DEVNUM=2'', ''SUBSYSTEM=usb'', ''SEQNUM=7'']"]
      uevent_message_read [of "''add''" "''/x''" "[''ACTION=add'']"]
    by (simp add: clean_def)
qed

end
