(* ===== verification/Rtc_Tools.thy ===== *)
theory Rtc_Tools
  imports Adb_Prelude "HOL-Library.Signed_Division"
begin

text \<open>
  Two programs that test a real time clock: rtctest/main.c and rtcalarm/main.c. The clock's driver is a parameter: what it answers to a
  call (an error number, or a time, which only matters for the calls that read one) may depend on everything that happened before. A program
  is a function from the history of calls and answers to its end (\<open>Inl\<close> the argument of \<^verbatim>\<open>exit\<close>) or its result, and the history after
  it. What is printed is left out; the times of the clock are taken to be small enough not to overflow an \<^verbatim>\<open>int\<close>.
\<close>

section \<open>The clock\<close>

record rtc_time =
  tm_sec :: int
  tm_min :: int
  tm_hour :: int
  tm_mday :: int
  tm_mon :: int
  tm_year :: int

datatype rtc_call = RTC_UIE_ON | RTC_UIE_OFF | RTC_RD_TIME | RTC_ALM_SET rtc_time | RTC_ALM_READ | RTC_AIE_ON | RTC_AIE_OFF
  | RTC_IRQP_READ | RTC_IRQP_SET nat | RTC_PIE_ON | RTC_PIE_OFF | Rtc_Read | Rtc_Select

type_synonym rtc_answer = "int + rtc_time"
type_synonym rtc_history = "(rtc_call \<times> rtc_answer) list"
type_synonym rtc_driver = "rtc_history \<Rightarrow> rtc_call \<Rightarrow> rtc_answer"
type_synonym 'a rtc_prog = "rtc_history \<Rightarrow> (int + 'a) \<times> rtc_history"

definition give :: "'a \<Rightarrow> 'a rtc_prog" where
  "give a h = (Inr a, h)"

definition leave :: "int \<Rightarrow> 'a rtc_prog" where
  "leave n h = (Inl n, h)"

definition go_on :: "'a rtc_prog \<Rightarrow> ('a \<Rightarrow> 'b rtc_prog) \<Rightarrow> 'b rtc_prog" where
  "go_on m f h = (case m h of (Inl n, h1) \<Rightarrow> (Inl n, h1) | (Inr a, h1) \<Rightarrow> f a h1)"

definition ask :: "rtc_driver \<Rightarrow> rtc_call \<Rightarrow> rtc_answer rtc_prog" where
  "ask drv c h = (Inr (drv h c), h @ [(c, drv h c)])"

definition ENOTTY :: int where "ENOTTY = 25"

text \<open>A call that ends the program when it fails, and one that may not be supported.\<close>

definition must :: "rtc_driver \<Rightarrow> rtc_call \<Rightarrow> rtc_time rtc_prog" where
  "must drv c = go_on (ask drv c) (\<lambda>r. case r of Inl errno \<Rightarrow> leave errno | Inr t \<Rightarrow> give t)"

definition supported :: "rtc_driver \<Rightarrow> rtc_call \<Rightarrow> bool rtc_prog" where
  "supported drv c = go_on (ask drv c) (\<lambda>r. case r of
     Inl errno \<Rightarrow> if errno = ENOTTY then give False else leave errno
   | Inr _ \<Rightarrow> give True)"

section \<open>The programs\<close>

fun read_loop :: "rtc_driver \<Rightarrow> nat \<Rightarrow> unit rtc_prog" where
  "read_loop drv 0 = give ()"
| "read_loop drv (Suc n) = go_on (must drv Rtc_Read) (\<lambda>_. read_loop drv n)"

fun select_loop :: "rtc_driver \<Rightarrow> nat \<Rightarrow> unit rtc_prog" where
  "select_loop drv 0 = give ()"
| "select_loop drv (Suc n) = go_on (must drv Rtc_Select) (\<lambda>_. go_on (must drv Rtc_Read) (\<lambda>_. select_loop drv n))"

definition test_update :: "rtc_driver \<Rightarrow> unit rtc_prog" where
  "test_update drv = go_on (supported drv RTC_UIE_ON) (\<lambda>ok.
     if \<not> ok then give ()
     else go_on (read_loop drv 5) (\<lambda>_. go_on (select_loop drv 5) (\<lambda>_. go_on (must drv RTC_UIE_OFF) (\<lambda>_. give ()))))"

text \<open>From reading the time to switching the alarm off again; \<open>f\<close> computes the time of the alarm.\<close>

definition test_alarm :: "rtc_driver \<Rightarrow> (rtc_time \<Rightarrow> rtc_time) \<Rightarrow> unit rtc_prog" where
  "test_alarm drv f = go_on (must drv RTC_RD_TIME) (\<lambda>rtc_tm. go_on (supported drv (RTC_ALM_SET (f rtc_tm))) (\<lambda>ok.
     if \<not> ok then give ()
     else go_on (must drv RTC_ALM_READ) (\<lambda>_. go_on (must drv RTC_AIE_ON) (\<lambda>_. go_on (must drv Rtc_Read) (\<lambda>_.
       go_on (must drv RTC_AIE_OFF) (\<lambda>_. give ()))))))"

fun rate_loop :: "rtc_driver \<Rightarrow> nat list \<Rightarrow> unit rtc_prog" where
  "rate_loop drv [] = give ()"
| "rate_loop drv (tmp # rates) = go_on (supported drv (RTC_IRQP_SET tmp)) (\<lambda>ok.
     if \<not> ok then give ()
     else go_on (must drv RTC_PIE_ON) (\<lambda>_. go_on (read_loop drv 20) (\<lambda>_. go_on (must drv RTC_PIE_OFF) (\<lambda>_. rate_loop drv rates))))"

definition test_PIE :: "rtc_driver \<Rightarrow> unit rtc_prog" where
  "test_PIE drv = go_on (supported drv RTC_IRQP_READ) (\<lambda>ok. if \<not> ok then give () else rate_loop drv [2, 4, 8, 16, 32, 64])"

definition alarm_in_five :: "rtc_time \<Rightarrow> rtc_time" where
  "alarm_in_five t =
     (let t = t\<lparr>tm_sec := tm_sec t + 5\<rparr>;
          t = (if 60 \<le> tm_sec t then t\<lparr>tm_sec := tm_sec t smod 60, tm_min := tm_min t + 1\<rparr> else t);
          t = (if tm_min t = 60 then t\<lparr>tm_min := 0, tm_hour := tm_hour t + 1\<rparr> else t)
      in if tm_hour t = 24 then t\<lparr>tm_hour := 0\<rparr> else t)"

definition alarm_in :: "int \<Rightarrow> rtc_time \<Rightarrow> rtc_time" where
  "alarm_in span t =
     (let sec = span smod 60;
          min = (span sdiv 60) smod 60;
          hour = span smod 3600;
          sec = sec + tm_sec t;
          min = min + sec sdiv 60;
          t = t\<lparr>tm_sec := sec smod 60\<rparr>;
          min = min + tm_min t;
          hour = hour + min sdiv 60;
          t = t\<lparr>tm_min := min smod 60\<rparr>;
          hour = hour + tm_hour t
      in t\<lparr>tm_hour := hour smod 24\<rparr>)"

text \<open>The two main functions: \<open>opens\<close> is the error number with which a device cannot be opened.\<close>

definition default_rtc :: string where "default_rtc = ''/dev/rtc0''"

definition rtctest_main :: "(string \<Rightarrow> int option) \<Rightarrow> rtc_driver \<Rightarrow> string list \<Rightarrow> int rtc_prog" where
  "rtctest_main opens drv argv =
     (if length argv \<noteq> 1 \<and> length argv \<noteq> 2 then give 1
      else
        let rtc = (if length argv = 2 then argv ! 1 else default_rtc) in
        case opens rtc of
          Some errno \<Rightarrow> leave errno
        | None \<Rightarrow> go_on (test_update drv) (\<lambda>_. go_on (test_alarm drv alarm_in_five) (\<lambda>_. go_on (test_PIE drv) (\<lambda>_. give 0))))"

definition rtcalarm_main :: "(string \<Rightarrow> int option) \<Rightarrow> rtc_driver \<Rightarrow> string list \<Rightarrow> int rtc_prog" where
  "rtcalarm_main opens drv argv =
     (if length argv \<noteq> 1 \<and> length argv \<noteq> 2 \<and> length argv \<noteq> 3 then give 1
      else
        let span = (if length argv = 3 then atoi (argv ! 2) else 5);
            rtc = (if 2 \<le> length argv then argv ! 1 else default_rtc) in
        case opens rtc of
          Some errno \<Rightarrow> leave errno
        | None \<Rightarrow> go_on (test_alarm drv (alarm_in span)) (\<lambda>_. go_on (test_PIE drv) (\<lambda>_. give 0)))"

section \<open>Interrupts\<close>

datatype irq = UIE | AIE | PIE

fun switched :: "rtc_call \<times> rtc_answer \<Rightarrow> irq set \<Rightarrow> irq set" where
  "switched (c, Inl _) S = S"
| "switched (RTC_UIE_ON, Inr _) S = insert UIE S"
| "switched (RTC_UIE_OFF, Inr _) S = S - {UIE}"
| "switched (RTC_AIE_ON, Inr _) S = insert AIE S"
| "switched (RTC_AIE_OFF, Inr _) S = S - {AIE}"
| "switched (RTC_PIE_ON, Inr _) S = insert PIE S"
| "switched (RTC_PIE_OFF, Inr _) S = S - {PIE}"
| "switched (c, Inr _) S = S"

definition enabled :: "rtc_history \<Rightarrow> irq set" where
  "enabled h = fold switched h {}"

text \<open>A program that comes to its end leads from one set of enabled interrupts to another.\<close>

definition turns_irqs :: "irq set \<Rightarrow> 'a rtc_prog \<Rightarrow> ('a \<Rightarrow> irq set) \<Rightarrow> bool" where
  "turns_irqs S m T \<longleftrightarrow> (\<forall>h a h'. enabled h = S \<longrightarrow> m h = (Inr a, h') \<longrightarrow> enabled h' = T a)"

lemma turns_go_on: "turns_irqs S m T \<Longrightarrow> (\<And>a. turns_irqs (T a) (f a) U) \<Longrightarrow> turns_irqs S (go_on m f) U"
  unfolding turns_irqs_def
proof (intro allI impI)
  fix h b h' assume m: "\<forall>h a h'. enabled h = S \<longrightarrow> m h = (Inr a, h') \<longrightarrow> enabled h' = T a"
    and f: "\<And>a. \<forall>h b h'. enabled h = T a \<longrightarrow> f a h = (Inr b, h') \<longrightarrow> enabled h' = U b"
    and h: "enabled h = S" "go_on m f h = (Inr b, h')"
  from h(2) obtain a h1 where "m h = (Inr a, h1)" "f a h1 = (Inr b, h')" by (auto simp: go_on_def split: prod.splits sum.splits)
  moreover from this(1) m h(1) have "enabled h1 = T a" by blast
  ultimately show "enabled h' = U b" using f by blast
qed

lemma turns_give: "T a = S \<Longrightarrow> turns_irqs S (give a) T"
  by (simp add: turns_irqs_def give_def)

lemma turns_leave: "turns_irqs S (leave n) T"
  by (simp add: turns_irqs_def leave_def)

lemma turns_must: "turns_irqs S (must drv c) (\<lambda>t. switched (c, Inr t) S)"
  by (auto simp: turns_irqs_def must_def go_on_def ask_def give_def leave_def enabled_def split: sum.splits)

lemma turns_supported: "turns_irqs S (supported drv c) (\<lambda>ok. if ok then switched (c, Inr undefined) S else S)"
proof -
  have "switched (c, Inr t) S = switched (c, Inr undefined) S" for t by (cases c) simp_all
  then show ?thesis
    by (auto simp: turns_irqs_def supported_def go_on_def ask_def give_def leave_def enabled_def split: sum.splits if_splits)
qed

lemmas turns = turns_give turns_leave turns_must [THEN turns_go_on] turns_supported [THEN turns_go_on]

lemma turns_reads: "turns_irqs S (read_loop drv n) (\<lambda>_. S)" "turns_irqs S (select_loop drv n) (\<lambda>_. S)"
  by (induction n) (auto intro!: turns)

lemma turns_update: "turns_irqs {} (test_update drv) (\<lambda>_. {})"
  unfolding test_update_def by (rule turns) (auto intro!: turns turns_reads [THEN turns_go_on])

lemma turns_alarm: "turns_irqs {} (test_alarm drv f) (\<lambda>_. {})"
  unfolding test_alarm_def by (rule turns) (auto intro!: turns)

lemma turns_rates: "turns_irqs {} (rate_loop drv rates) (\<lambda>_. {})"
  by (induction rates) (auto intro!: turns turns_reads [THEN turns_go_on])

lemma turns_PIE: "turns_irqs {} (test_PIE drv) (\<lambda>_. {})"
  unfolding test_PIE_def by (auto intro!: turns turns_rates simp del: rate_loop.simps)

lemmas turns_parts = turns_update [THEN turns_go_on] turns_alarm [THEN turns_go_on] turns_PIE [THEN turns_go_on]

lemma turns_mains: "turns_irqs {} (rtctest_main opens drv argv) (\<lambda>_. {})" "turns_irqs {} (rtcalarm_main opens drv argv) (\<lambda>_. {})"
  unfolding rtctest_main_def rtcalarm_main_def Let_def by (auto intro!: turns turns_parts split: option.split)

section \<open>Alarms\<close>

text \<open>The times that were read and the alarms that were asked for.\<close>

fun times_read :: "rtc_history \<Rightarrow> rtc_time list" where
  "times_read [] = []"
| "times_read ((RTC_RD_TIME, Inr t) # h) = t # times_read h"
| "times_read (_ # h) = times_read h"

fun alarms_set :: "rtc_history \<Rightarrow> rtc_time list" where
  "alarms_set [] = []"
| "alarms_set ((RTC_ALM_SET t, _) # h) = t # alarms_set h"
| "alarms_set (_ # h) = alarms_set h"

lemma times_read_append [simp]: "times_read (g @ h) = times_read g @ times_read h"
  by (induction g rule: times_read.induct) simp_all

lemma alarms_set_append [simp]: "alarms_set (g @ h) = alarms_set g @ alarms_set h"
  by (induction g rule: alarms_set.induct) simp_all

text \<open>However a program ends.\<close>

definition keeps :: "(rtc_history \<Rightarrow> bool) \<Rightarrow> 'a rtc_prog \<Rightarrow> bool" where
  "keeps P m \<longleftrightarrow> (\<forall>h. P h \<longrightarrow> P (snd (m h)))"

lemma keeps_go_on: "keeps P m \<Longrightarrow> (\<And>a. keeps P (f a)) \<Longrightarrow> keeps P (go_on m f)"
  unfolding keeps_def
proof (intro allI impI)
  fix h assume "\<forall>h. P h \<longrightarrow> P (snd (m h))" "\<And>a. \<forall>h. P h \<longrightarrow> P (snd (f a h))" "P h"
  then show "P (snd (go_on m f h))" by (cases "m h"; cases "fst (m h)") (auto simp: go_on_def dest: spec [of _ h])
qed

lemma keeps_simple: "keeps P (give a)" "keeps P (leave n)"
  by (simp_all add: keeps_def give_def leave_def)

lemma keeps_call: "(\<And>h r. P h \<Longrightarrow> P (h @ [(c, r)])) \<Longrightarrow> keeps P (must drv c)" "(\<And>h r. P h \<Longrightarrow> P (h @ [(c, r)])) \<Longrightarrow> keeps P (supported drv c)"
proof -
  assume "\<And>h r. P h \<Longrightarrow> P (h @ [(c, r)])"
  then have "keeps P (ask drv c)" by (simp add: keeps_def ask_def)
  then show "keeps P (must drv c)" "keeps P (supported drv c)"
    unfolding must_def supported_def by (auto intro!: keeps_go_on keeps_simple split: sum.split)
qed

definition matched :: "(rtc_time \<Rightarrow> rtc_time) \<Rightarrow> rtc_history \<Rightarrow> bool" where
  "matched f h \<longleftrightarrow> alarms_set h = map f (times_read h)"

definition neutral :: "rtc_call \<Rightarrow> bool" where
  "neutral c \<longleftrightarrow> (case c of RTC_RD_TIME \<Rightarrow> False | RTC_ALM_SET _ \<Rightarrow> False | _ \<Rightarrow> True)"

lemma matched_neutral: "neutral c \<Longrightarrow> keeps (matched f) (must drv c)" "neutral c \<Longrightarrow> keeps (matched f) (supported drv c)"
  by (auto intro!: keeps_call simp: matched_def neutral_def split: rtc_call.splits)

lemmas keeps_parts = keeps_simple keeps_go_on matched_neutral

lemma matched_reads: "keeps (matched f) (read_loop drv n)" "keeps (matched f) (select_loop drv n)"
  by (induction n) (auto intro!: keeps_parts simp: neutral_def)

lemma matched_update: "keeps (matched f) (test_update drv)"
  unfolding test_update_def by (auto intro!: keeps_parts matched_reads simp: neutral_def simp del: read_loop.simps select_loop.simps)

lemma matched_rates: "keeps (matched f) (rate_loop drv rates)"
  by (induction rates) (auto intro!: keeps_parts matched_reads simp: neutral_def simp del: read_loop.simps)

lemma matched_PIE: "keeps (matched f) (test_PIE drv)"
  unfolding test_PIE_def by (auto intro!: keeps_parts matched_rates simp: neutral_def simp del: rate_loop.simps)

text \<open>Reading the time is at once followed by setting the alarm.\<close>

lemma matched_set:
  assumes rest: "\<And>ok. keeps (matched f) (k ok)"
  shows "keeps (matched f) (go_on (must drv RTC_RD_TIME) (\<lambda>t. go_on (supported drv (RTC_ALM_SET (f t))) k))"
  unfolding keeps_def
proof (intro allI impI)
  fix h assume h: "matched f h"
  show "matched f (snd (go_on (must drv RTC_RD_TIME) (\<lambda>t. go_on (supported drv (RTC_ALM_SET (f t))) k) h))"
  proof (cases "drv h RTC_RD_TIME")
    case (Inl e)
    then show ?thesis using h by (simp add: go_on_def must_def ask_def leave_def matched_def)
  next
    case (Inr t)
    define g where "g = h @ [(RTC_RD_TIME, Inr t)]"
    have "matched f (g @ [(RTC_ALM_SET (f t), r)])" for r using h by (simp add: g_def matched_def)
    then show ?thesis
      using Inr rest [unfolded keeps_def]
      by (auto simp: go_on_def must_def supported_def ask_def leave_def give_def g_def [symmetric] split: sum.split)
  qed
qed

lemma matched_alarm: "keeps (matched f) (test_alarm drv f)"
  unfolding test_alarm_def by (rule matched_set) (auto intro!: keeps_parts simp: neutral_def)

text \<open>What the two programs have in common, and what follows for a whole run.\<close>

locale clock_program =
  fixes prog :: "rtc_driver \<Rightarrow> int rtc_prog" and alarm :: "rtc_time \<Rightarrow> rtc_time"
  assumes prog_irqs: "turns_irqs {} (prog drv) (\<lambda>_. {})"
    and prog_alarms: "keeps (matched alarm) (prog drv)"
begin

lemma run_switches_off: "fst (prog drv []) = Inr n \<Longrightarrow> enabled (snd (prog drv [])) = {}"
  using prog_irqs unfolding turns_irqs_def by (metis enabled_def fold_simps(1) id_apply prod.collapse)

lemma run_sets_alarms: "alarms_set (snd (prog drv [])) = map alarm (times_read (snd (prog drv [])))"
  using prog_alarms unfolding keeps_def matched_def by (metis alarms_set.simps(1) list.map(1) times_read.simps(1))

end

definition span_of :: "string list \<Rightarrow> int" where
  "span_of argv = (if length argv = 3 then atoi (argv ! 2) else 5)"

interpretation rtctest: clock_program "\<lambda>drv. rtctest_main opens drv argv" alarm_in_five for opens argv
proof
  show "keeps (matched alarm_in_five) (rtctest_main opens drv argv)" for drv
    unfolding rtctest_main_def Let_def by (auto intro!: keeps_simple keeps_go_on matched_update matched_alarm matched_PIE split: option.split)
qed (rule turns_mains)

interpretation rtcalarm: clock_program "\<lambda>drv. rtcalarm_main opens drv argv" "alarm_in (span_of argv)" for opens argv
proof
  show "keeps (matched (alarm_in (span_of argv))) (rtcalarm_main opens drv argv)" for drv
    unfolding rtcalarm_main_def Let_def span_of_def [symmetric]
    by (auto intro!: keeps_simple keeps_go_on matched_alarm matched_PIE split: option.split)
qed (rule turns_mains)

section \<open>Clocks that support everything\<close>

definition finishes :: "'a rtc_prog \<Rightarrow> bool" where
  "finishes m \<longleftrightarrow> (\<forall>h. \<exists>a. fst (m h) = Inr a)"

lemma finishes_go_on: "finishes m \<Longrightarrow> (\<And>a. finishes (f a)) \<Longrightarrow> finishes (go_on m f)"
  unfolding finishes_def
proof
  fix h assume "\<forall>h. \<exists>a. fst (m h) = Inr a" "\<And>a. \<forall>h. \<exists>b. fst (f a h) = Inr b"
  then show "\<exists>b. fst (go_on m f h) = Inr b" by (cases "m h"; cases "fst (m h)") (auto simp: go_on_def dest: spec [of _ h])
qed

lemma finishes_give: "finishes (give a)"
  by (simp add: finishes_def give_def)

lemma finishes_calls:
  assumes "\<And>h c. \<exists>t. drv h c = Inr t"
  shows "finishes (must drv c)" "finishes (supported drv c)"
proof -
  have "\<exists>t. drv h c = Inr t" for h by (rule assms)
  then show "finishes (must drv c)" "finishes (supported drv c)"
    unfolding finishes_def must_def supported_def go_on_def ask_def by (auto simp: give_def split: sum.splits) (metis sum.distinct(1))+
qed

lemma finishes_tests:
  assumes drv: "\<And>h c. \<exists>t. drv h c = Inr t"
  shows "finishes (test_update drv)" "finishes (test_alarm drv f)" "finishes (test_PIE drv)"
proof -
  note calls = finishes_go_on finishes_give finishes_calls [OF drv]
  have r: "finishes (read_loop drv n)" "finishes (select_loop drv n)" for n by (induction n) (auto intro!: calls)
  have "finishes (rate_loop drv rates)" for rates by (induction rates) (auto intro!: calls r simp del: read_loop.simps)
  then show "finishes (test_PIE drv)" unfolding test_PIE_def by (auto intro!: calls simp del: rate_loop.simps)
  show "finishes (test_update drv)" "finishes (test_alarm drv f)"
    unfolding test_update_def test_alarm_def by (auto intro!: calls r simp del: read_loop.simps select_loop.simps)
qed

lemma finished_zero: "finishes m \<Longrightarrow> fst (go_on m (\<lambda>_. give 0) h) = Inr 0"
  by (cases "m h") (auto simp: finishes_def go_on_def give_def dest!: spec [of _ h])

lemma go_on_assoc: "go_on (go_on m f) g = go_on m (\<lambda>a. go_on (f a) g)"
  by (rule ext) (simp add: go_on_def split: prod.split sum.split)

lemma mains_finish:
  assumes "\<And>h c. \<exists>t. drv h c = Inr t" "\<And>p. opens p = None"
  shows "length argv = 1 \<or> length argv = 2 \<Longrightarrow> fst (rtctest_main opens drv argv h) = Inr 0"
    "length argv = 1 \<or> length argv = 2 \<or> length argv = 3 \<Longrightarrow> fst (rtcalarm_main opens drv argv h) = Inr 0"
  using finished_zero [of "go_on (test_update drv) (\<lambda>_. go_on (test_alarm drv alarm_in_five) (\<lambda>_. test_PIE drv))" h]
    finished_zero [of "go_on (test_alarm drv (alarm_in (span_of argv))) (\<lambda>_. test_PIE drv)" h]
    finishes_tests [OF assms(1)] assms(2)
  by (auto simp: rtctest_main_def rtcalarm_main_def span_of_def go_on_assoc finishes_go_on Let_def)

subsection \<open>The clock's arithmetic\<close>

definition time_ok :: "rtc_time \<Rightarrow> bool" where
  "time_ok t \<longleftrightarrow> 0 \<le> tm_sec t \<and> tm_sec t < 60 \<and> 0 \<le> tm_min t \<and> tm_min t < 60 \<and> 0 \<le> tm_hour t \<and> tm_hour t < 24"

definition of_day :: "rtc_time \<Rightarrow> int" where
  "of_day t = tm_hour t * 3600 + tm_min t * 60 + tm_sec t"

lemma nonneg_division: "0 \<le> a \<Longrightarrow> 0 < b \<Longrightarrow> a sdiv b = a div b" "0 \<le> a \<Longrightarrow> 0 < b \<Longrightarrow> a smod b = a mod b" for a b :: int
  by (simp_all add: signed_divide_int_def signed_modulo_int_def sgn_if)

lemma wrap_day: "0 \<le> x \<Longrightarrow> x < 172800 \<Longrightarrow> x mod 86400 = (if x < 86400 then x else x - 86400)" for x :: int
  using mod_pos_pos_trivial [of x 86400] mod_pos_pos_trivial [of "x - 86400" 86400] by (simp add: minus_mod_self2)

lemma of_day_five: "time_ok t \<Longrightarrow> time_ok (alarm_in_five t) \<and> of_day (alarm_in_five t) = (of_day t + 5) mod 86400"
proof -
  assume ok: "time_ok t"
  obtain s m h where t: "s = tm_sec t" "m = tm_min t" "h = tm_hour t" by blast
  have r: "0 \<le> s" "s < 60" "0 \<le> m" "m < 60" "0 \<le> h" "h < 24" using ok by (simp_all add: time_ok_def t)
  have sec: "(s + 5) smod 60 = s + 5 - 60" if "55 \<le> s" using that r by (simp add: nonneg_division) presburger
  have day: "(h * 3600 + m * 60 + s + 5) mod 86400 = (if h * 3600 + m * 60 + s + 5 < 86400 then h * 3600 + m * 60 + s + 5 else h * 3600 + m * 60 + s + 5 - 86400)"
    using r by (intro wrap_day) linarith+
  show ?thesis using r sec unfolding time_ok_def of_day_def alarm_in_five_def Let_def t [symmetric] by (auto simp: t [symmetric] day)
qed

lemma alarm_in_parts: "alarm_in span t =
    (let a = span smod 60 + tm_sec t; b = (span sdiv 60) smod 60 + a sdiv 60 + tm_min t; c = span smod 3600 + b sdiv 60 + tm_hour t
     in t\<lparr>tm_sec := a smod 60, tm_min := b smod 60, tm_hour := c smod 24\<rparr>)"
  by (simp add: alarm_in_def Let_def)

lemma carry_sum: "x = y * 60 + z \<Longrightarrow> a = p * 60 + q \<Longrightarrow> b = u * 60 + v \<Longrightarrow> a = z + s \<Longrightarrow> b = y + p + m \<Longrightarrow> c = x + u + h
    \<Longrightarrow> h * 3600 + m * 60 + s + x + 3600 * x = c * 3600 + v * 60 + q" for a b c h m s x :: int
  by simp

lemma carry_day: "d * 24 + e = c \<Longrightarrow> c * 3600 + v * 60 + q = (e * 3600 + v * 60 + q) + d * 86400" for c d e v q :: int
  by auto

lemma in_one_day: "0 \<le> e \<Longrightarrow> e < 24 \<Longrightarrow> 0 \<le> v \<Longrightarrow> v < 60 \<Longrightarrow> 0 \<le> q \<Longrightarrow> q < 60
    \<Longrightarrow> (e * 3600 + v * 60 + q + d * 86400) mod 86400 = e * 3600 + v * 60 + q" for d e v q :: int
  by simp

lemma of_day_in: "time_ok t \<Longrightarrow> 0 \<le> span \<Longrightarrow>
   time_ok (alarm_in span t) \<and> of_day (alarm_in span t) = (of_day t + span mod 3600 + 3600 * (span mod 3600)) mod 86400"
proof -
  assume ok: "time_ok t" "0 \<le> span"
  define a where "a = span mod 60 + tm_sec t"
  define b where "b = span div 60 mod 60 + a div 60 + tm_min t"
  define c where "c = span mod 3600 + b div 60 + tm_hour t"
  have r: "0 \<le> a" "0 \<le> span div 60" "0 \<le> b" "0 \<le> c" using ok unfolding a_def b_def c_def time_ok_def by (simp_all add: pos_imp_zdiv_nonneg_iff)
  have m: "0 \<le> span mod 60" "0 \<le> span div 60 mod 60" "0 \<le> a div 60" "0 \<le> b div 60" using r by (simp_all add: pos_imp_zdiv_nonneg_iff)
  have n: "span smod 60 = span mod 60" "(span sdiv 60) smod 60 = span div 60 mod 60" "span smod 3600 = span mod 3600"
    "a sdiv 60 = a div 60" "a smod 60 = a mod 60" "b sdiv 60 = b div 60" "b smod 60 = b mod 60" "c smod 24 = c mod 24"
    using r ok(2) by (simp_all only: nonneg_division zero_less_numeral)
  have t: "alarm_in span t = t\<lparr>tm_sec := a mod 60, tm_min := b mod 60, tm_hour := c mod 24\<rparr>"
    unfolding alarm_in_parts Let_def n(1-3) a_def [symmetric] n(4,5) b_def [symmetric] n(6,7) c_def [symmetric] n(8) ..
  have "span mod 3600 = span div 60 mod 60 * 60 + span mod 60" using mod_mult2_eq' [of span 60 60] by simp
  moreover have "a = a div 60 * 60 + a mod 60" "b = b div 60 * 60 + b mod 60" by simp_all
  ultimately have sum: "of_day t + span mod 3600 + 3600 * (span mod 3600) = c * 3600 + b mod 60 * 60 + a mod 60"
    unfolding of_day_def by (rule carry_sum) (simp_all only: a_def b_def c_def)
  have e: "c * 3600 + b mod 60 * 60 + a mod 60 = (c mod 24 * 3600 + b mod 60 * 60 + a mod 60) + c div 24 * 86400"
    by (rule carry_day) (rule div_mult_mod_eq)
  have "(c * 3600 + b mod 60 * 60 + a mod 60) mod 86400 = c mod 24 * 3600 + b mod 60 * 60 + a mod 60"
    unfolding e by (rule in_one_day) simp_all
  then show ?thesis unfolding sum unfolding t by (simp add: time_ok_def of_day_def)
qed

lemma alarm_right_iff: "time_ok t \<Longrightarrow> 0 \<le> span \<Longrightarrow>
    of_day (alarm_in span t) = (of_day t + span) mod 86400 \<longleftrightarrow> 24 dvd span mod 3600 - span div 3600" for span :: int
proof -
  assume a: "time_ok t" "0 \<le> span"
  have "of_day t + span = of_day t + span mod 3600 + 3600 * (span div 3600)" using div_mult_mod_eq [of span 3600] by linarith
  then have "of_day (alarm_in span t) = (of_day t + span) mod 86400 \<longleftrightarrow>
      86400 dvd (of_day t + span mod 3600 + 3600 * (span mod 3600)) - (of_day t + span mod 3600 + 3600 * (span div 3600))"
    by (simp only: of_day_in [OF a] mod_eq_dvd_iff)
  also have "\<dots> \<longleftrightarrow> 3600 * 24 dvd 3600 * (span mod 3600 - span div 3600)" by (simp only: add_diff_cancel_left right_diff_distrib) simp
  also have "\<dots> \<longleftrightarrow> 24 dvd span mod 3600 - span div 3600" by (simp only: dvd_mult_cancel_left) simp
  finally show ?thesis .
qed

section \<open>Properties\<close>

text \<open>C38: a test program for the clock that runs to its end and is not ended by a failing call has switched every kind of interrupt off
  again that it switched on, whatever the driver answers; with a driver that supports everything, both programs do run to their end and return 0.\<close>

theorem rtc_interrupts_off:
  "(fst (rtctest_main opens drv argv []) = Inr n \<longrightarrow> enabled (snd (rtctest_main opens drv argv [])) = {})
   \<and> (fst (rtcalarm_main opens drv argv []) = Inr n \<longrightarrow> enabled (snd (rtcalarm_main opens drv argv [])) = {})
   \<and> ((\<forall>h c. \<exists>t. drv h c = Inr t) \<longrightarrow> (\<forall>p. opens p = None) \<longrightarrow> length argv = 1 \<or> length argv = 2 \<longrightarrow>
        fst (rtctest_main opens drv argv []) = Inr 0 \<and> fst (rtcalarm_main opens drv argv []) = Inr 0)"
  using rtctest.run_switches_off rtcalarm.run_switches_off mains_finish [of drv opens argv "[]"] by blast

definition demo_time :: rtc_time where
  "demo_time = \<lparr>tm_sec = 58, tm_min = 59, tm_hour = 23, tm_mday = 31, tm_mon = 11, tm_year = 100\<rparr>"

definition demo_clock :: rtc_driver where
  "demo_clock h c = Inr demo_time"

theorem rtc_interrupts_off_witness:
  "fst (rtctest_main (\<lambda>_. None) demo_clock [''rtctest''] []) = Inr 0 \<and> enabled (snd (rtctest_main (\<lambda>_. None) demo_clock [''rtctest''] [])) = {}
   \<and> fst (rtcalarm_main (\<lambda>_. None) demo_clock [''rtctest''] []) = Inr 0 \<and> enabled (snd (rtcalarm_main (\<lambda>_. None) demo_clock [''rtctest''] [])) = {}"
proof -
  have drv: "\<forall>h c. \<exists>t. demo_clock h c = Inr t" by (simp add: demo_clock_def)
  have "length [''rtctest''] = 1" by simp
  with rtc_interrupts_off [of "\<lambda>_. None" demo_clock "[''rtctest'']" 0] drv show ?thesis by blast
qed

text \<open>C37: both programs set an alarm for each time they read. rtctest sets it to five seconds later, across the end of a minute, an hour
  and a day. rtcalarm adds to the hour the seconds left after the last full hour of the span instead of its full hours: its alarm is
  \<open>span mod 3600\<close> seconds and as many hours later, which is the time asked for only if that number and the number of full hours differ by a
  multiple of 24, and is not so for its own default of five seconds.\<close>

theorem rtc_alarm_times:
  "alarms_set (snd (rtctest_main opens drv argv [])) = map alarm_in_five (times_read (snd (rtctest_main opens drv argv [])))
   \<and> alarms_set (snd (rtcalarm_main opens drv argv [])) = map (alarm_in (span_of argv)) (times_read (snd (rtcalarm_main opens drv argv [])))
   \<and> (time_ok t \<longrightarrow> time_ok (alarm_in_five t) \<and> of_day (alarm_in_five t) = (of_day t + 5) mod 86400)
   \<and> (time_ok t \<longrightarrow> 0 \<le> span \<longrightarrow> time_ok (alarm_in span t)
        \<and> of_day (alarm_in span t) = (of_day t + span mod 3600 + 3600 * (span mod 3600)) mod 86400
        \<and> (of_day (alarm_in span t) = (of_day t + span) mod 86400 \<longleftrightarrow> 24 dvd span mod 3600 - span div 3600))
   \<and> (time_ok t \<longrightarrow> of_day (alarm_in 5 t) \<noteq> (of_day t + 5) mod 86400)"
proof -
  have "\<not> 24 dvd (5 :: int) mod 3600 - 5 div 3600" by simp
  then show ?thesis
    using rtctest.run_sets_alarms rtcalarm.run_sets_alarms of_day_five of_day_in alarm_right_iff [of t span] alarm_right_iff [of t 5]
    by simp
qed

theorem rtc_alarm_times_witness:
  "time_ok demo_time \<and> of_day (alarm_in_five demo_time) = 3 \<and> of_day (alarm_in 5 demo_time) = 18003
   \<and> alarms_set (snd (rtctest_main (\<lambda>_. None) demo_clock [''rtctest''] [])) =
       map alarm_in_five (times_read (snd (rtctest_main (\<lambda>_. None) demo_clock [''rtctest''] [])))"
proof -
  have "time_ok demo_time" "of_day demo_time = 86398" by (simp_all add: demo_time_def time_ok_def of_day_def)
  then show ?thesis using rtc_alarm_times [of "\<lambda>_. None" demo_clock "[''rtctest'']" demo_time 5] by simp
qed

end
