(* ===== verification/Spec2Isabelle.thy ===== *)
theory Spec2Isabelle
  imports Intrusive_List Adb_Utils Server_Props Commandline Image_Tools Uevent_Tool Rtc_Tools
begin

text \<open>
  \<^bold>\<open>The program.\<close> src/tools_for_phone/adb_1.0.29_linux_x86 is the host side of adb 1.0.29 for Linux: one program that is a client
  (\<^verbatim>\<open>adb shell\<close>, \<^verbatim>\<open>adb push\<close>, ...) and, started by the first client, a server that keeps the connections to all devices. The
  server runs an event loop (fdevent.c). Clients connect to it over TCP; their connections and the streams to the devices are \<^verbatim>\<open>asocket\<close>s
  (sockets.c), which hand each other packets. A device is an \<^verbatim>\<open>atransport\<close> (transport.c), over USB (transport_usb.c, usb_linux.c) or
  TCP (transport_local.c), with two threads that move packets between the device and a socket pair that the event loop watches. Packets
  from the device reach \<^verbatim>\<open>handle_packet\<close> (adb.c); requests of clients reach the smart socket (sockets.c) and from there
  \<^verbatim>\<open>handle_host_request\<close> (adb.c), the host services (services.c) or, as a stream, the device. The client (adb_client.c, commandline.c,
  file_sync_client.c, console.c) speaks to the server. Beside adb the tree holds small tools for a phone; those with logic of their own
  (imgrotate, fbbmp, uevent, rtctest, rtcalarm) are modelled too.

  \<^bold>\<open>Reading the model.\<close> Structs are records with the names of the C fields, enumerations and function pointers are datatypes, words have
  their width. Objects that the program allocates and shares (sockets, transports, listeners, fdevents) live on a heap of addresses that is
  part of the state. An operation takes the state and returns a value of \<open>fault + 'a\<close>: \<open>Inl\<close> is the end of the program
  (\<^verbatim>\<open>fatal\<close>, \<^verbatim>\<open>exit\<close>) or undefined behaviour (null pointers, freed memory, accesses outside a buffer, reads of memory nobody wrote, a
  lock taken twice), \<open>Inr\<close> the result with the new state. What the kernel, the network, the device and the user contribute is an argument:
  scripts of the results of successive calls, or functions that stay the same within one step. Loops that may not end are
  \<^verbatim>\<open>partial_function\<close>s into \<open>option\<close> whose value \<open>None\<close> means that the call does not return; where the program relies on a loop to
  end, its end is proved.

  \<^bold>\<open>Theories.\<close>
  \<^item> \<open>Adb_Prelude\<close>: faults and the bind \<open>rbind\<close>, C strings, \<^verbatim>\<open>%04x\<close>, \<^verbatim>\<open>%d\<close>, \<^verbatim>\<open>strtol\<close>, \<^verbatim>\<open>atoi\<close>, little-endian words, with the collections
    \<open>res\<close>, \<open>cstr\<close> and \<open>wire\<close> of facts that the proofs share.
  \<^item> \<open>Intrusive_List\<close>: the pointer updates of the circular lists, statement by statement on a store of link fields. The locale \<open>ring_ops\<close>
    states what enqueueing and removing do to the list that a ring represents; it is interpreted on the pending list of fdevent.c (\<open>plist\<close>),
    the socket lists (\<open>socklist\<close>) and the disconnect lists (\<open>disclist\<close>). The other theories use the lists themselves.
  \<^item> \<open>Fd_Io\<close>: \<^verbatim>\<open>readx\<close>, \<^verbatim>\<open>writex\<close>; the locales \<open>byte_source\<close> and \<open>byte_sink\<close> are the contracts their callers rely on, interpreted on
    them as \<open>rx\<close> and \<open>wx\<close>. \<open>Packet\<close>: messages, checksum, sealing and checking, packets on a socket and back.
  \<^item> \<open>Fdevent\<close>: the \<^verbatim>\<open>select\<close> variant of the event loop with its invariant \<open>fd_inv\<close> over all reachable states.
  \<^item> \<open>Adb_World\<close>: the state of the server. Its lists are HOL lists, except for the device list, which keeps the \<^verbatim>\<open>next\<close> and \<^verbatim>\<open>prev\<close>
    pointers of transport.c, since a transport may be unlinked twice. \<open>Transport\<close>: device list, choice of a device, reference counts, kicking, registration, emulators.
    \<open>Sockets\<close>: enqueueing, readiness, closing, connecting. \<open>Host_Services\<close>: listeners, host requests, services. \<open>Smart_Socket\<close>:
    requests of clients, the event callback of local sockets. \<open>Adb_Server\<close>: \<^verbatim>\<open>handle_packet\<close>, registration in the loop, disconnect callbacks.
  \<^item> \<open>Transport_Threads\<close>: the two threads of a transport as program counters with a step each; the dispatch of the event callbacks.
  \<^item> \<open>Usb_Transfer\<close>, \<open>Usb_Devices\<close>: bulk transfers and packets over USB; the scan of the bus, handles, vendors.
  \<^item> \<open>Server_Inv\<close>: the locales \<open>close_inv\<close> and \<open>server_inv\<close>. Their parameter is a family of predicates on server states, indexed by the
    sockets that are off the list; their laws are the elementary changes the sources make (a field of a socket is set, a socket is listed,
    unlisted, freed, a packet is sent, a transport changes its state, ...); inside, every operation of the server from \<^verbatim>\<open>asocket\<close> closing
    up to an event callback is shown to keep the predicate. \<open>Server_Run\<close> interprets them four times: \<open>pipes\<close> (packets between loop and threads
    are well formed, those of the loop sealed), \<open>ids\<close> (ids of local sockets are unique and below the counter), \<open>live\<close> (the list of local
    sockets holds allocated sockets), \<open>registry\<close> (the pointers of the device list lead from the head back to the head in the order of registration,
    no port is in the emulator table twice). It also
    has \<^verbatim>\<open>adb_main\<close> and the relation \<open>srv_step\<close>: the callbacks of the event loop and the steps of all threads, in any order. \<open>Server_Props\<close> states what this
    means for every reachable state, and a run from start-up to the first message of a device.
  \<^item> \<open>Adb_Client\<close>, \<open>File_Sync\<close>, \<open>File_Copy\<close>, \<open>Commandline\<close>: connecting to the server and starting it, status replies, the protocol of \<^verbatim>\<open>sync:\<close>,
    push, pull and sync of trees, the command line.
  \<^item> \<open>Adb_Utils\<close>: utils.c with the locale \<open>appender\<close> (appending keeps the cursor inside and the text terminated), interpreted on the three
    append functions; the trace mask; the program's path.
  \<^item> \<open>Image_Tools\<close>, \<open>Uevent_Tool\<close>: imgrotate/rotate_bmp.c, fbbmp/main.c; uevent/uevent.c with the loop of uevent/vold.c.
    \<open>Rtc_Tools\<close>: rtctest/main.c and rtcalarm/main.c as programs over a clock driver; the locale \<open>clock_program\<close> (a finished run leaves no interrupt
    on, every alarm belongs to a time read) is interpreted on both.

  \<^bold>\<open>What is shown.\<close> Round trips: packets over sockets and USB, file data, replies, host commands. The whole server, whatever the order of
  steps: packets are sealed, ids resolve to one socket, every walk along the device list ends, a port is found in the table of emulators exactly if it is
  there, start-up works. The engine: flow
  control of streams, opening and completing connections, tearing down on disconnect, exactly one write per read, order and completeness of what is
  queued, closing of pairs and the bound of its recursion. The event loop: its invariant, and that calls within the rules do not fail. Choice of a
  device, USB scan, copying of trees and the dry run of sync, error paths of a transfer, the bounds of buffers, and the tools. Theorems with
  hypotheses come with a concrete instance.

  \<^bold>\<open>Bounds.\<close> Calls through function pointers carry a depth: closing uses \<open>close_depth\<close> (8), and six levels are shown to suffice because a
  close clears its peer's back pointer first; enqueueing uses \<open>enqueue_depth\<close> (4): a smart socket may
  call the ready function of a new tracker, which enqueues on the client's local socket, and lemma \<open>enqueue_depth_suffices\<close> shows that two levels
  give the same result; \<^verbatim>\<open>adb_commandline\<close>, which calls itself through \<^verbatim>\<open>do_cmd\<close>, takes its depth as an argument, and two is shown to be enough, larger ones change
  nothing; a walk along the device list takes at most as many steps as objects have been allocated, which is shown to be enough. A depth that ran out would be the fault \<open>OutOfFuel\<close>. All other recursions end by structure, by a measure, or are in \<open>option\<close>.

  \<^bold>\<open>Not modelled.\<close> Code that the host build does not compile (the device side, the epoll variant of fdevent.c, other platforms). The system
  layer sysdeps.h, which renames system calls; mutexes appear as steps that are not divided, and a callback of the event loop is such a step too, so that threads running in the middle of a callback are not covered. Help texts, the terminal's mode and debug output. What a server in the background reports to its parent on its standard output, its log file, and the last reply
  \<^verbatim>\<open>OKAY\<close> to \<^verbatim>\<open>kill\<close>, which is written just before the process exits. In the whole-server steps the environment's functions do not change within one
  step, and that the kernel hands out unused descriptors is not part of the invariants. The zip library and libcutils are parameters. Of the
  tools: the set-up of the frame buffer in their main functions, log lines, and the tools that only print what a device, a hardware library or /proc
  reports (sensors, wifi, gsensor, inputevt, fbtest1, errcon, lsof). gtests, gluetiosclient and the ndk samples are vendored code or C++.
\<close>

end
